(* ===== verification/Prelude.thy ===== *)
theory Prelude
  imports Main "HOL-Library.Word"
begin

text \<open>
  Shared vocabulary of the development: Go values as HOL types (errors as values, panics as an
  outcome, bytes, time stamps in nanoseconds), the messages of the remote execution API with the
  fields the sources set or read, generic lemmas on maps and lists, and the locale of
  state machines whose invariant is proved once for every run.
\<close>

section \<open>Go values\<close>

type_synonym byte = "8 word"
type_synonym bytes = "byte list"

text \<open>\<open>time.Time\<close> and \<open>time.Duration\<close> are counted in nanoseconds.\<close>

type_synonym gotime = int
type_synonym duration = int

definition second :: duration where
  "second = 1000000000"

definition minute :: duration where
  "minute = 60 * second"

text \<open>The gRPC status codes the sources use.\<close>

datatype code =
    OK | Canceled | Unknown | InvalidArgument | DeadlineExceeded | NotFound
  | ResourceExhausted | FailedPrecondition | Unimplemented | Internal | Unavailable

text \<open>
  Go errors. \<open>Status\<close> is \<open>status.Error(code, msg)\<close>, \<open>Wrap\<close> is \<open>fmt.Errorf("msg: %w", err)\<close>,
  \<open>Errorf\<close> an error with a message only, \<open>CtxErr\<close> the error of a finished context; the others
  are the sentinel errors of the standard library.
\<close>

datatype goerr =
    Status code string
  | Wrap string goerr
  | Errorf string
  | CtxErr
  | ErrNotExist
  | ErrExist
  | ErrNotDir
  | ErrIsDir
  | ErrClosedPipe
  | ErrUnexpectedEOF
  | ErrEOF
  | ErrSys nat

text \<open>A call that can panic: \<open>Panic\<close>, or the value the call returns.\<close>

datatype 'a outcome = Panic | Return 'a

fun bindo :: "'a outcome \<Rightarrow> ('a \<Rightarrow> 'b outcome) \<Rightarrow> 'b outcome" where
  "bindo Panic f = Panic"
| "bindo (Return x) f = f x"

fun returned :: "'a outcome \<Rightarrow> bool" where
  "returned Panic = False"
| "returned (Return _) = True"

text \<open>
  \<open>os.IsNotExist\<close> looks through the path errors of the os package but not through
  \<open>fmt.Errorf\<close> wrapping.
\<close>

fun IsNotExist :: "goerr \<Rightarrow> bool" where
  "IsNotExist ErrNotExist = True"
| "IsNotExist _ = False"

section \<open>Messages\<close>

text \<open>A digest names a blob: \<open>repb.Digest\<close> and the \<open>storage.Digest\<close> made from it.\<close>

record Digest =
  Hash :: string
  Size :: int

record OutputFile =
  of_Path :: string
  of_Digest :: Digest
  of_IsExecutable :: bool

record OutputDirectory =
  od_Path :: string
  od_TreeDigest :: Digest
  od_RootDirectoryDigest :: Digest

record ActionResult =
  ExitCode :: int
  StdoutDigest :: "Digest option"
  StderrDigest :: "Digest option"
  OutputFiles :: "OutputFile list"
  OutputDirectories :: "OutputDirectory list"
  ExecutionCompletedTimestamp :: gotime

record ExecuteResponse =
  resp_Result :: ActionResult
  resp_CachedResult :: bool

section \<open>Collections of lemmas\<close>

named_theorems sched_defs \<open>definitions of the scheduler's operations\<close>
named_theorems os_defs \<open>definitions of the system calls\<close>
named_theorems store_defs \<open>definitions of the stores' operations\<close>
named_theorems cluster_defs \<open>definitions of the cluster manager's operations\<close>

section \<open>Generic lemmas\<close>

lemma bindo_Return_iff:
  "bindo x f = Return y \<longleftrightarrow> (\<exists>a. x = Return a \<and> f a = Return y)"
  by (cases x) auto

lemma returned_iff [simp]: "returned x \<longleftrightarrow> (\<exists>y. x = Return y)"
  by (cases x) auto

lemma card_insert_notin: "finite A \<Longrightarrow> x \<notin> A \<Longrightarrow> card (insert x A) = Suc (card A)"
  by simp

lemma takeWhile_append_stop:
  "(\<And>x. x \<in> set xs \<Longrightarrow> P x) \<Longrightarrow> \<not> P y \<Longrightarrow> takeWhile P (xs @ y # ys) = xs"
  by (induction xs) auto

lemma dropWhile_append_stop:
  "(\<And>x. x \<in> set xs \<Longrightarrow> P x) \<Longrightarrow> \<not> P y \<Longrightarrow> dropWhile P (xs @ y # ys) = y # ys"
  by (induction xs) auto

section \<open>State machines\<close>

text \<open>
  A component is run by a sequence of events. A step returns \<open>None\<close> where the code panics, so a
  run that reaches \<open>Some\<close> state did not panic. An invariant that every enabled step keeps, and
  under which no enabled step panics, holds along every run.
\<close>

fun run :: "('s \<Rightarrow> 'e \<Rightarrow> 's option) \<Rightarrow> 's \<Rightarrow> 'e list \<Rightarrow> 's option" where
  "run step s [] = Some s"
| "run step s (e # es) = (case step s e of None \<Rightarrow> None | Some t \<Rightarrow> run step t es)"

text \<open>\<open>enabled_run ok step s es\<close>: every event of \<open>es\<close> meets the guard \<open>ok\<close> in the state it is run in.\<close>

fun enabled_run ::
  "('s \<Rightarrow> 'e \<Rightarrow> bool) \<Rightarrow> ('s \<Rightarrow> 'e \<Rightarrow> 's option) \<Rightarrow> 's \<Rightarrow> 'e list \<Rightarrow> bool" where
  "enabled_run ok step s [] = True"
| "enabled_run ok step s (e # es) =
     (ok s e \<and> (case step s e of None \<Rightarrow> True | Some t \<Rightarrow> enabled_run ok step t es))"

lemma run_append:
  "run step s (es @ fs) = (case run step s es of None \<Rightarrow> None | Some t \<Rightarrow> run step t fs)"
  by (induction es arbitrary: s) (auto split: option.splits)

locale machine =
  fixes ok :: "'s \<Rightarrow> 'e \<Rightarrow> bool"
    and step :: "'s \<Rightarrow> 'e \<Rightarrow> 's option"
    and inv :: "'s \<Rightarrow> bool"
  assumes step_defined: "inv s \<Longrightarrow> ok s e \<Longrightarrow> \<exists>t. step s e = Some t"
    and step_keeps: "inv s \<Longrightarrow> ok s e \<Longrightarrow> step s e = Some t \<Longrightarrow> inv t"
begin

lemma run_defined: "inv s \<Longrightarrow> enabled_run ok step s es \<Longrightarrow> \<exists>t. run step s es = Some t \<and> inv t"
proof (induction es arbitrary: s)
  case Nil
  then show ?case by simp
next
  case (Cons e es)
  from Cons.prems have "ok s e" by simp
  with Cons.prems(1) obtain t where t: "step s e = Some t" using step_defined by blast
  with Cons.prems \<open>ok s e\<close> have "inv t" by (blast intro: step_keeps)
  moreover from t Cons.prems(2) have "enabled_run ok step t es" by simp
  ultimately show ?case using Cons.IH t by simp
qed

lemma run_keeps:
  assumes "inv s" "enabled_run ok step s es" "run step s es = Some t"
  shows "inv t"
  using run_defined [OF assms(1,2)] assms(3) by simp

end

end
