(* ===== verification/Scheduler.thy ===== *)
theory Scheduler
  imports Prelude
begin

text \<open>
  The scheduler (\<^verbatim>\<open>pkg/scheduler/scheduler.go\<close>): operations, the bounded task queue, the
  subscribers' channels and the counter of executing operations. An \<open>*OperationStatus\<close> is shared
  between the operations map and the channels, so the objects live in a heap and both hold
  addresses. Every method runs under the scheduler's mutex and is one step; a step is \<open>None\<close>
  where the code panics (a send on a closed channel, a second close, a nil metadata pointer).
\<close>

section \<open>State\<close>

datatype OperationState = StateQueued | StateExecuting | StateCompleted

datatype ExecutionStage = QUEUED | EXECUTING | COMPLETED

record ExecuteOperationMetadata =
  Stage :: ExecutionStage
  ActionDigest :: Digest

record Task =
  OperationID :: string
  task_ActionDigest :: Digest
  SkipCache :: bool
  QueuedAt :: gotime

record OperationStatus =
  Name :: string
  State :: OperationState
  Metadata :: "ExecuteOperationMetadata option"
  Result :: "ExecuteResponse option"
  Error :: "goerr option"
  CreatedAt :: gotime
  UpdatedAt :: gotime

text \<open>A channel of operation pointers with its buffer; \<open>Subscribe\<close> makes them with capacity 10.\<close>

record channel =
  buf :: "nat list"
  closed :: bool

definition chan_cap :: nat where
  "chan_cap = 10"

text \<open>
  The scheduler. \<open>heap\<close> holds the operation objects; a missing key of the Go map \<open>subscribers\<close>
  reads as the nil slice, here the empty list.
\<close>

record Scheduler =
  heap :: "nat \<Rightarrow> OperationStatus option"
  operations :: "string \<Rightarrow> nat option"
  subscribers :: "string \<Rightarrow> nat list"
  chans :: "nat \<Rightarrow> channel option"
  next_obj :: nat
  next_chan :: nat
  taskQueue :: "Task list"
  queueSize :: nat
  retention :: duration
  nodeID :: string
  executingCount :: int

definition NewScheduler :: "nat \<Rightarrow> string \<Rightarrow> Scheduler" where
  "NewScheduler qsize node =
     \<lparr>heap = Map.empty, operations = Map.empty, subscribers = (\<lambda>_. []), chans = Map.empty,
      next_obj = 0, next_chan = 0, taskQueue = [], queueSize = qsize,
      retention = 10 * minute, nodeID = node, executingCount = 0\<rparr>"

text \<open>
  Protobuf and gRPC status conversion are library code: \<open>anypb.New\<close> on the metadata and on the
  response, and \<open>status.Convert\<close>.
\<close>

record pbcodec =
  any_metadata :: "ExecuteOperationMetadata option \<Rightarrow> goerr + bytes"
  any_response :: "ExecuteResponse \<Rightarrow> goerr + bytes"
  status_convert :: "goerr \<Rightarrow> code \<times> string"

datatype op_result = Operation_Error "code \<times> string" | Operation_Response bytes

record Operation =
  pb_Name :: string
  pb_Metadata :: bytes
  pb_Done :: bool
  pb_Result :: "op_result option"

section \<open>Operations\<close>

definition toProto :: "pbcodec \<Rightarrow> OperationStatus \<Rightarrow> goerr + Operation" where
  "toProto P opr =
     (case any_metadata P (Metadata opr) of
        Inl err \<Rightarrow> Inl (Wrap ''failed to marshal metadata'' err)
      | Inr metadataAny \<Rightarrow>
          (let proto = \<lparr>pb_Name = Name opr, pb_Metadata = metadataAny,
                        pb_Done = (State opr = StateCompleted), pb_Result = None\<rparr>
           in if State opr = StateCompleted
              then (case Error opr of
                      Some e \<Rightarrow> Inr (proto\<lparr>pb_Result := Some (Operation_Error (status_convert P e))\<rparr>)
                    | None \<Rightarrow>
                        (case Result opr of
                           Some r \<Rightarrow>
                             (case any_response P r of
                                Inl err \<Rightarrow> Inl (Wrap ''failed to marshal result'' err)
                              | Inr resultAny \<Rightarrow>
                                  Inr (proto\<lparr>pb_Result := Some (Operation_Response resultAny)\<rparr>))
                         | None \<Rightarrow> Inr proto))
              else Inr proto))"

text \<open>The operation identifier and the operation name that \<open>Enqueue\<close> builds from a fresh UUID.\<close>

definition op_id :: "Scheduler \<Rightarrow> string \<Rightarrow> string \<Rightarrow> string" where
  "op_id s uuid nodeIDOverride =
     (let prefix = (if nodeIDOverride \<noteq> [] then nodeIDOverride else nodeID s)
      in if prefix \<noteq> [] then prefix @ '':'' @ uuid else uuid)"

definition op_name :: "string \<Rightarrow> string" where
  "op_name oid = ''operations/'' @ oid"

definition Enqueue ::
  "pbcodec \<Rightarrow> string \<Rightarrow> gotime \<Rightarrow> Scheduler \<Rightarrow> Digest \<Rightarrow> bool \<Rightarrow> string
     \<Rightarrow> Scheduler \<times> (goerr + Operation)" where
  "Enqueue P uuid now s actionDigest skipCache nodeIDOverride =
     (let operationID = op_id s uuid nodeIDOverride;
          name = op_name operationID;
          task = \<lparr>OperationID = operationID, task_ActionDigest = actionDigest,
                  SkipCache = skipCache, QueuedAt = now\<rparr>;
          opStatus = \<lparr>Name = name, State = StateQueued,
                      Metadata = Some \<lparr>Stage = QUEUED, ActionDigest = actionDigest\<rparr>,
                      Result = None, Error = None, CreatedAt = now, UpdatedAt = now\<rparr>
      in if length (taskQueue s) < queueSize s
         then (s\<lparr>taskQueue := taskQueue s @ [task],
                 heap := (heap s)(next_obj s \<mapsto> opStatus),
                 operations := (operations s)(name \<mapsto> next_obj s),
                 next_obj := Suc (next_obj s)\<rparr>,
               toProto P opStatus)
         else (s, Inl (Status ResourceExhausted ''execution queue is full'')))"

text \<open>
  \<open>Dequeue\<close> selects between the queue and the context. Where both are ready Go chooses at random:
  \<open>recv\<close> is that choice. \<open>None\<close> as the result means that the call blocks.
\<close>

definition Dequeue ::
  "Scheduler \<Rightarrow> bool \<Rightarrow> bool \<Rightarrow> Scheduler \<times> (goerr + Task) option" where
  "Dequeue s ctxDone recv =
     (case taskQueue s of
        [] \<Rightarrow> (s, if ctxDone then Some (Inl CtxErr) else None)
      | task # rest \<Rightarrow>
          if ctxDone \<and> \<not> recv then (s, Some (Inl CtxErr))
          else (s\<lparr>taskQueue := rest\<rparr>, Some (Inr task)))"

text \<open>
  \<open>notifySubscribersLocked\<close> sends without blocking: a full channel (and a nil one) is skipped, a
  closed channel panics.
\<close>

fun send_all :: "(nat \<Rightarrow> channel option) \<Rightarrow> nat list \<Rightarrow> nat \<Rightarrow> (nat \<Rightarrow> channel option) option" where
  "send_all C [] obj = Some C"
| "send_all C (c # cs) obj =
     (case C c of
        None \<Rightarrow> send_all C cs obj
      | Some ch \<Rightarrow>
          if closed ch then None
          else if length (buf ch) < chan_cap
          then send_all (C(c \<mapsto> ch\<lparr>buf := buf ch @ [obj]\<rparr>)) cs obj
          else send_all C cs obj)"

definition notifySubscribersLocked :: "Scheduler \<Rightarrow> string \<Rightarrow> nat \<Rightarrow> Scheduler option" where
  "notifySubscribersLocked s name obj =
     map_option (\<lambda>C. s\<lparr>chans := C\<rparr>) (send_all (chans s) (subscribers s name) obj)"

text \<open>\<open>s.operations[name]\<close>, with the object behind the pointer.\<close>

definition lookup_op :: "Scheduler \<Rightarrow> string \<Rightarrow> (nat \<times> OperationStatus) option" where
  "lookup_op s name =
     (case operations s name of
        None \<Rightarrow> None
      | Some obj \<Rightarrow> map_option (\<lambda>opr. (obj, opr)) (heap s obj))"

definition UpdateState ::
  "gotime \<Rightarrow> Scheduler \<Rightarrow> string \<Rightarrow> OperationState \<Rightarrow> ExecuteOperationMetadata option
     \<Rightarrow> Scheduler option" where
  "UpdateState now s name state metadata =
     (case lookup_op s name of
        None \<Rightarrow> Some s
      | Some (obj, opr) \<Rightarrow>
          (let count = (if State opr \<noteq> StateExecuting \<and> state = StateExecuting
                        then executingCount s + 1
                        else if State opr = StateExecuting \<and> state \<noteq> StateExecuting
                        then executingCount s - 1
                        else executingCount s);
               opr' = opr\<lparr>State := state, Metadata := metadata, UpdatedAt := now\<rparr>
           in notifySubscribersLocked
                (s\<lparr>executingCount := count, heap := (heap s)(obj \<mapsto> opr')\<rparr>) name obj))"

text \<open>\<open>op.Metadata.Stage = COMPLETED\<close> dereferences the metadata pointer.\<close>

definition set_completed_stage :: "ExecuteOperationMetadata option \<Rightarrow> ExecuteOperationMetadata option" where
  "set_completed_stage md = map_option (\<lambda>m. m\<lparr>Stage := COMPLETED\<rparr>) md"

definition Complete :: "gotime \<Rightarrow> Scheduler \<Rightarrow> string \<Rightarrow> ExecuteResponse \<Rightarrow> Scheduler option" where
  "Complete now s name result =
     (case lookup_op s name of
        None \<Rightarrow> Some s
      | Some (obj, opr) \<Rightarrow>
          (let count = (if State opr = StateExecuting then executingCount s - 1
                        else executingCount s)
           in if Metadata opr = None then None
              else notifySubscribersLocked
                     (s\<lparr>executingCount := count,
                        heap := (heap s)(obj \<mapsto>
                          opr\<lparr>State := StateCompleted, Result := Some result,
                              Metadata := set_completed_stage (Metadata opr),
                              UpdatedAt := now\<rparr>)\<rparr>) name obj))"

definition Fail :: "gotime \<Rightarrow> Scheduler \<Rightarrow> string \<Rightarrow> goerr \<Rightarrow> Scheduler option" where
  "Fail now s name err =
     (case lookup_op s name of
        None \<Rightarrow> Some s
      | Some (obj, opr) \<Rightarrow>
          (let count = (if State opr = StateExecuting then executingCount s - 1
                        else executingCount s)
           in if Metadata opr = None then None
              else notifySubscribersLocked
                     (s\<lparr>executingCount := count,
                        heap := (heap s)(obj \<mapsto>
                          opr\<lparr>State := StateCompleted, Error := Some err,
                              Metadata := set_completed_stage (Metadata opr),
                              UpdatedAt := now\<rparr>)\<rparr>) name obj))"

definition GetOperation :: "pbcodec \<Rightarrow> Scheduler \<Rightarrow> string \<Rightarrow> goerr + Operation" where
  "GetOperation P s name =
     (case lookup_op s name of
        None \<Rightarrow> Inl (Status NotFound ''operation not found'')
      | Some (obj, opr) \<Rightarrow> toProto P opr)"

text \<open>
  \<open>ListOperations\<close> ranges over the operations map; Go leaves the order open, so it is an argument.
\<close>

fun ListOperations :: "pbcodec \<Rightarrow> Scheduler \<Rightarrow> string list \<Rightarrow> Operation list" where
  "ListOperations P s [] = []"
| "ListOperations P s (name # names) =
     (case GetOperation P s name of
        Inl err \<Rightarrow> ListOperations P s names
      | Inr proto \<Rightarrow> proto # ListOperations P s names)"

text \<open>The error, where there is one, comes with an unchanged state.\<close>

definition CancelOperation :: "gotime \<Rightarrow> Scheduler \<Rightarrow> string \<Rightarrow> (Scheduler \<times> goerr option) option" where
  "CancelOperation now s name =
     (case lookup_op s name of
        None \<Rightarrow> Some (s, Some (Status NotFound ''operation not found''))
      | Some (obj, opr) \<Rightarrow>
          if State opr \<noteq> StateQueued
          then Some (s, Some (Status FailedPrecondition ''can only cancel queued operations''))
          else if Metadata opr = None then None
          else map_option (\<lambda>t. (t, None))
                 (notifySubscribersLocked
                    (s\<lparr>heap := (heap s)(obj \<mapsto>
                       opr\<lparr>State := StateCompleted,
                           Error := Some (Status Canceled ''operation cancelled''),
                           Metadata := set_completed_stage (Metadata opr),
                           UpdatedAt := now\<rparr>)\<rparr>) name obj))"

definition DeleteOperation :: "Scheduler \<Rightarrow> string \<Rightarrow> Scheduler \<times> goerr option" where
  "DeleteOperation s name =
     (if operations s name = None
      then (s, Some (Status NotFound ''operation not found''))
      else (s\<lparr>operations := (operations s)(name := None)\<rparr>, None))"

text \<open>\<open>Subscribe\<close> returns the new channel; the closure it returns is \<open>unsubscribe\<close>.\<close>

definition Subscribe :: "Scheduler \<Rightarrow> string \<Rightarrow> Scheduler \<times> nat" where
  "Subscribe s name =
     (let ch = next_chan s;
          first = (case operations s name of None \<Rightarrow> [] | Some obj \<Rightarrow> [obj])
      in (s\<lparr>subscribers := (subscribers s)(name := subscribers s name @ [ch]),
            chans := (chans s)(ch \<mapsto> \<lparr>buf = first, closed = False\<rparr>),
            next_chan := Suc ch\<rparr>, ch))"

definition unsubscribe :: "Scheduler \<Rightarrow> string \<Rightarrow> nat \<Rightarrow> Scheduler option" where
  "unsubscribe s name ch =
     (if ch \<in> set (subscribers s name)
      then (case chans s ch of
              None \<Rightarrow> None
            | Some c \<Rightarrow>
                if closed c then None
                else Some (s\<lparr>subscribers := (subscribers s)(name := remove1 ch (subscribers s name)),
                             chans := (chans s)(ch \<mapsto> c\<lparr>closed := True\<rparr>)\<rparr>))
      else Some s)"

text \<open>A subscriber receives from its channel: \<open>None\<close> as the message when nothing is buffered.\<close>

definition Receive :: "Scheduler \<Rightarrow> nat \<Rightarrow> Scheduler \<times> nat option" where
  "Receive s ch =
     (case chans s ch of
        Some c \<Rightarrow> (case buf c of
                     [] \<Rightarrow> (s, None)
                   | obj # rest \<Rightarrow> (s\<lparr>chans := (chans s)(ch \<mapsto> c\<lparr>buf := rest\<rparr>)\<rparr>, Some obj))
      | None \<Rightarrow> (s, None))"

definition expired :: "gotime \<Rightarrow> Scheduler \<Rightarrow> string \<Rightarrow> bool" where
  "expired now s name =
     (case lookup_op s name of
        None \<Rightarrow> False
      | Some (obj, opr) \<Rightarrow> State opr = StateCompleted \<and> UpdatedAt opr < now - retention s)"

definition CleanupExpired :: "gotime \<Rightarrow> Scheduler \<Rightarrow> Scheduler" where
  "CleanupExpired now s =
     s\<lparr>operations := (\<lambda>name. if expired now s name then None else operations s name),
       subscribers := (\<lambda>name. if expired now s name then [] else subscribers s name)\<rparr>"

text \<open>
  \<open>Run\<close>: what its select finds, round by round: the time of a tick, or \<open>None\<close> for the end of the context. At the
  end of the list the loop still waits.
\<close>

fun Run :: "Scheduler \<Rightarrow> gotime option list \<Rightarrow> Scheduler \<times> goerr option" where
  "Run s [] = (s, None)"
| "Run s (Some now # rounds) = Run (CleanupExpired now s) rounds"
| "Run s (None # rounds) = (s, Some CtxErr)"

definition NodeID_sched :: "Scheduler \<Rightarrow> string" where
  "NodeID_sched s = nodeID s"

definition GetPendingTaskCount :: "Scheduler \<Rightarrow> int" where
  "GetPendingTaskCount s = int (length (taskQueue s)) + executingCount s"

text \<open>The scan for the first colon, with the bytes before it in reverse.\<close>

fun scan_colon :: "string \<Rightarrow> string \<Rightarrow> (string \<times> string) option" where
  "scan_colon acc [] = None"
| "scan_colon acc (c # cs) = (if c = CHR '':'' then Some (rev acc, cs) else scan_colon (c # acc) cs)"

definition ParseOperationNodeID :: "string \<Rightarrow> string \<times> string" where
  "ParseOperationNodeID operationName =
     (let name = (if 11 < length operationName \<and> take 11 operationName = ''operations/''
                  then drop 11 operationName else operationName)
      in case scan_colon [] name of Some r \<Rightarrow> r | None \<Rightarrow> ([], name))"

section \<open>The scheduler as a state machine\<close>

datatype sched_event =
    EvEnqueue gotime string Digest bool string
  | EvDequeue bool bool
  | EvUpdateState gotime string OperationState "ExecuteOperationMetadata option"
  | EvComplete gotime string ExecuteResponse
  | EvFail gotime string goerr
  | EvCancel gotime string
  | EvDelete string
  | EvSubscribe string
  | EvUnsubscribe string nat
  | EvReceive nat
  | EvCleanup gotime

fun sched_step :: "pbcodec \<Rightarrow> Scheduler \<Rightarrow> sched_event \<Rightarrow> Scheduler option" where
  "sched_step P s (EvEnqueue now uuid d skip node) = Some (fst (Enqueue P uuid now s d skip node))"
| "sched_step P s (EvDequeue ctxDone recv) = Some (fst (Dequeue s ctxDone recv))"
| "sched_step P s (EvUpdateState now name st md) = UpdateState now s name st md"
| "sched_step P s (EvComplete now name r) = Complete now s name r"
| "sched_step P s (EvFail now name e) = Fail now s name e"
| "sched_step P s (EvCancel now name) = map_option fst (CancelOperation now s name)"
| "sched_step P s (EvDelete name) = Some (fst (DeleteOperation s name))"
| "sched_step P s (EvSubscribe name) = Some (fst (Subscribe s name))"
| "sched_step P s (EvUnsubscribe name ch) = unsubscribe s name ch"
| "sched_step P s (EvReceive ch) = Some (fst (Receive s ch))"
| "sched_step P s (EvCleanup now) = Some (CleanupExpired now s)"

text \<open>
  What the callers provide: \<open>uuid.New\<close> does not repeat a name that is still tracked, and the
  worker passes a metadata pointer that is not nil.
\<close>

fun sched_ok :: "Scheduler \<Rightarrow> sched_event \<Rightarrow> bool" where
  "sched_ok s (EvEnqueue now uuid d skip node) = (operations s (op_name (op_id s uuid node)) = None)"
| "sched_ok s (EvUpdateState now name st md) = (md \<noteq> None)"
| "sched_ok s e = True"

text \<open>The names of the tracked operations in state executing.\<close>

definition executing :: "Scheduler \<Rightarrow> string set" where
  "executing s = {name. \<exists>obj opr. lookup_op s name = Some (obj, opr) \<and> State opr = StateExecuting}"

definition ops_inv :: "Scheduler \<Rightarrow> bool" where
  "ops_inv s \<longleftrightarrow>
     finite (dom (operations s)) \<and>
     (\<forall>name obj. operations s name = Some obj \<longrightarrow> (\<exists>opr. heap s obj = Some opr \<and> Name opr = name)) \<and>
     (\<forall>obj opr. heap s obj = Some opr \<longrightarrow> obj < next_obj s \<and> Metadata opr \<noteq> None)"

definition chans_inv :: "Scheduler \<Rightarrow> bool" where
  "chans_inv s \<longleftrightarrow>
     (\<forall>name c. c \<in> set (subscribers s name) \<longrightarrow> (\<exists>ch. chans s c = Some ch \<and> \<not> closed ch)) \<and>
     (\<forall>name. distinct (subscribers s name)) \<and>
     (\<forall>name name' c. c \<in> set (subscribers s name) \<and> c \<in> set (subscribers s name') \<longrightarrow> name = name') \<and>
     (\<forall>c ch. chans s c = Some ch \<longrightarrow> c < next_chan s \<and> length (buf ch) \<le> chan_cap)"

definition sched_inv :: "Scheduler \<Rightarrow> bool" where
  "sched_inv s \<longleftrightarrow> ops_inv s \<and> chans_inv s \<and> length (taskQueue s) \<le> queueSize s"

section \<open>Channels\<close>

definition push :: "nat \<Rightarrow> channel \<Rightarrow> channel" where
  "push obj ch = (if length (buf ch) < chan_cap then ch\<lparr>buf := buf ch @ [obj]\<rparr> else ch)"

lemma closed_push [simp]: "closed (push obj ch) = closed ch"
  by (simp add: push_def)

lemma length_push: "length (buf ch) \<le> chan_cap \<Longrightarrow> length (buf (push obj ch)) \<le> chan_cap"
  by (auto simp: push_def)

text \<open>On open, distinct channels a broadcast pushes the pointer once on each and on no other.\<close>

lemma send_all_open:
  assumes "\<forall>c \<in> set cs. \<exists>ch. C c = Some ch \<and> \<not> closed ch" and "distinct cs"
  shows "send_all C cs obj = Some (\<lambda>c. if c \<in> set cs then map_option (push obj) (C c) else C c)"
  using assms
proof (induction cs arbitrary: C)
  case Nil
  then show ?case by simp
next
  case (Cons c cs)
  then obtain ch where ch: "C c = Some ch" "\<not> closed ch" by auto
  let ?D = "C(c \<mapsto> push obj ch)"
  have "\<forall>x \<in> set cs. \<exists>ch. ?D x = Some ch \<and> \<not> closed ch" using Cons.prems by auto
  then have IH: "send_all ?D cs obj =
      Some (\<lambda>x. if x \<in> set cs then map_option (push obj) (?D x) else ?D x)"
    using Cons.IH Cons.prems(2) by simp
  have "send_all C (c # cs) obj = send_all ?D cs obj"
    using ch by (simp add: push_def fun_upd_idem)
  with IH show ?case using ch Cons.prems(2) by (auto simp: fun_eq_iff)
qed

lemma notify_open:
  assumes "chans_inv s"
  shows "notifySubscribersLocked s name obj =
    Some (s\<lparr>chans := (\<lambda>c. if c \<in> set (subscribers s name) then map_option (push obj) (chans s c)
                           else chans s c)\<rparr>)"
  using assms by (simp add: notifySubscribersLocked_def chans_inv_def send_all_open)

lemma chans_inv_push:
  assumes "chans_inv s"
  shows "chans_inv (s\<lparr>chans := (\<lambda>c. if c \<in> set cs then map_option (push obj) (chans s c)
                                  else chans s c)\<rparr>)"
proof -
  let ?C = "\<lambda>c. if c \<in> set cs then map_option (push obj) (chans s c) else chans s c"
  have "\<exists>ch. ?C c = Some ch \<and> \<not> closed ch" if "c \<in> set (subscribers s name)" for name c
    using assms that by (fastforce simp: chans_inv_def)
  moreover have "c < next_chan s \<and> length (buf ch) \<le> chan_cap" if "?C c = Some ch" for c ch
    using assms that by (auto simp: chans_inv_def length_push split: if_splits)
  ultimately show ?thesis using assms unfolding chans_inv_def by simp
qed
section \<open>Writing an operation object\<close>

lemma lookup_op_heap:
  "lookup_op s name = Some (obj, opr) \<longleftrightarrow> operations s name = Some obj \<and> heap s obj = Some opr"
  by (auto simp: lookup_op_def split: option.splits)

lemma ops_invD:
  "ops_inv s \<Longrightarrow> operations s n = Some obj \<Longrightarrow> \<exists>opr. heap s obj = Some opr \<and> Name opr = n"
  unfolding ops_inv_def by blast

lemma lookup_op_None:
  "ops_inv s \<Longrightarrow> lookup_op s name = None \<longleftrightarrow> operations s name = None"
  by (cases "operations s name") (auto simp: lookup_op_def dest: ops_invD)

lemma ops_inv_Metadata:
  "ops_inv s \<Longrightarrow> lookup_op s name = Some (obj, opr) \<Longrightarrow> Metadata opr \<noteq> None"
  unfolding ops_inv_def lookup_op_heap by blast

text \<open>Two names never share an object: the object holds its name.\<close>

lemma lookup_op_Name:
  "ops_inv s \<Longrightarrow> operations s n = Some obj \<Longrightarrow> heap s obj = Some opr \<Longrightarrow> Name opr = n"
  using ops_invD [of s n obj] by simp

lemma lookup_op_inj:
  "ops_inv s \<Longrightarrow> operations s n = Some obj \<Longrightarrow> operations s m = Some obj \<Longrightarrow> n = m"
  using ops_invD [of s n obj] ops_invD [of s m obj] by auto

lemma ops_inv_write:
  assumes "ops_inv s" "lookup_op s name = Some (obj, opr)" "Name opr' = Name opr" "Metadata opr' \<noteq> None"
  shows "ops_inv (s\<lparr>executingCount := k, heap := (heap s)(obj \<mapsto> opr')\<rparr>)"
proof -
  have heap: "heap s obj = Some opr" using assms(2) by (simp add: lookup_op_heap)
  then have lt: "obj < next_obj s" using assms(1) unfolding ops_inv_def by blast
  have "\<exists>q. ((heap s)(obj \<mapsto> opr')) p = Some q \<and> Name q = n" if "operations s n = Some p" for n p
    using ops_invD [OF assms(1) that] heap assms(3) by auto
  with lt assms(1,4) show ?thesis unfolding ops_inv_def by simp
qed

lemma executing_write:
  assumes "ops_inv s" "lookup_op s name = Some (obj, opr)"
    "operations t = operations s" "heap t = (heap s)(obj \<mapsto> opr')"
  shows "executing t = (if State opr' = StateExecuting then insert name (executing s)
                        else executing s - {name})"
proof -
  have "lookup_op t n = (if n = name then Some (obj, opr') else lookup_op s n)" for n
    using assms lookup_op_inj [of s n obj name]
    by (auto simp: lookup_op_def lookup_op_heap split: option.splits)
  then show ?thesis by (auto simp: executing_def)
qed

text \<open>
  The shared shape of \<open>UpdateState\<close>, \<open>Complete\<close>, \<open>Fail\<close> and \<open>CancelOperation\<close>: one object is
  replaced, the counter set, and the name's subscribers notified.
\<close>

definition write_notify ::
  "Scheduler \<Rightarrow> int \<Rightarrow> string \<Rightarrow> nat \<Rightarrow> OperationStatus \<Rightarrow> Scheduler" where
  "write_notify s k name obj opr' =
     s\<lparr>executingCount := k, heap := (heap s)(obj \<mapsto> opr'),
       chans := (\<lambda>c. if c \<in> set (subscribers s name) then map_option (push obj) (chans s c)
                    else chans s c)\<rparr>"

lemma notify_write:
  assumes "chans_inv s"
  shows "notifySubscribersLocked (s\<lparr>executingCount := k, heap := (heap s)(obj \<mapsto> opr')\<rparr>) name obj
         = Some (write_notify s k name obj opr')"
proof -
  have "chans_inv (s\<lparr>executingCount := k, heap := (heap s)(obj \<mapsto> opr')\<rparr>)"
    using assms by (simp add: chans_inv_def)
  then show ?thesis by (simp add: notify_open write_notify_def cong: if_cong)
qed

lemma notify_write_count:
  assumes "chans_inv s"
  shows "notifySubscribersLocked (s\<lparr>heap := (heap s)(obj \<mapsto> opr')\<rparr>) name obj
         = Some (write_notify s (executingCount s) name obj opr')"
  using notify_write [OF assms, where k = "executingCount s" and obj = obj and opr' = opr' and name = name]
  by simp

lemma write_notify_frame [simp]:
  "operations (write_notify s k name obj opr') = operations s"
  "heap (write_notify s k name obj opr') = (heap s)(obj \<mapsto> opr')"
  "subscribers (write_notify s k name obj opr') = subscribers s"
  "taskQueue (write_notify s k name obj opr') = taskQueue s"
  "queueSize (write_notify s k name obj opr') = queueSize s"
  "executingCount (write_notify s k name obj opr') = k"
  "retention (write_notify s k name obj opr') = retention s"
  "nodeID (write_notify s k name obj opr') = nodeID s"
  by (simp_all add: write_notify_def)

lemma sched_inv_write:
  assumes "sched_inv s" "lookup_op s name = Some (obj, opr)" "Name opr' = Name opr" "Metadata opr' \<noteq> None"
  shows "sched_inv (write_notify s k name obj opr')"
proof -
  let ?t = "s\<lparr>executingCount := k, heap := (heap s)(obj \<mapsto> opr')\<rparr>"
  have inv: "ops_inv s" "chans_inv s" using assms(1) by (simp_all add: sched_inv_def)
  have "chans_inv ?t" using inv(2) by (simp add: chans_inv_def)
  then have "chans_inv (write_notify s k name obj opr')"
    using chans_inv_push [of ?t "subscribers s name" obj] by (simp add: write_notify_def cong: if_cong)
  moreover have "ops_inv (write_notify s k name obj opr')"
    using ops_inv_write [OF inv(1) assms(2-4), of k] by (simp add: ops_inv_def write_notify_def)
  ultimately show ?thesis using assms(1) by (simp add: sched_inv_def)
qed

section \<open>Every operation under the invariant\<close>

text \<open>
  By how much the counter exceeds the number of tracked executing operations, and the event that
  changes the difference: deleting an operation that is executing.
\<close>

definition drift :: "Scheduler \<Rightarrow> int" where
  "drift s = executingCount s - int (card (executing s))"

fun leaks :: "Scheduler \<Rightarrow> sched_event \<Rightarrow> int" where
  "leaks s (EvDelete name) = (if name \<in> executing s then 1 else 0)"
| "leaks s e = 0"

lemma finite_executing: "ops_inv s \<Longrightarrow> finite (executing s)"
  by (rule finite_subset [of _ "dom (operations s)"])
    (auto simp: executing_def lookup_op_heap ops_inv_def)

lemma in_executing: "lookup_op s name = Some (obj, opr) \<Longrightarrow> name \<in> executing s \<longleftrightarrow> State opr = StateExecuting"
  by (simp add: executing_def)

lemma drift_write:
  assumes "sched_inv s" "lookup_op s name = Some (obj, opr)"
  shows "drift (write_notify s
      (executingCount s + of_bool (State opr' = StateExecuting) - of_bool (State opr = StateExecuting))
      name obj opr') = drift s"
proof -
  have inv: "ops_inv s" using assms(1) by (simp add: sched_inv_def)
  note fin = finite_executing [OF inv]
  let ?t = "write_notify s
      (executingCount s + of_bool (State opr' = StateExecuting) - of_bool (State opr = StateExecuting))
      name obj opr'"
  have ex: "executing ?t = (if State opr' = StateExecuting then insert name (executing s)
                        else executing s - {name})"
    by (rule executing_write [OF inv assms(2)]) simp_all
  have mem: "name \<in> executing s \<longleftrightarrow> State opr = StateExecuting" by (rule in_executing [OF assms(2)])
  have "int (card (executing ?t)) = int (card (executing s)) +
      of_bool (State opr' = StateExecuting) - of_bool (State opr = StateExecuting)"
  proof (cases "State opr = StateExecuting")
    case True
    with mem have "executing s \<noteq> {}" and "name \<in> executing s" by auto
    with fin have "0 < card (executing s)" by (simp add: card_gt_0_iff)
    with True mem fin ex show ?thesis by (auto simp: insert_absorb card_Diff_singleton)
  next
    case False
    with mem fin ex show ?thesis by simp
  qed
  then show ?thesis by (simp add: drift_def)
qed

lemma UpdateState_inv:
  assumes "sched_inv s"
  shows "UpdateState now s name st md =
    Some (case lookup_op s name of
            None \<Rightarrow> s
          | Some (obj, opr) \<Rightarrow>
              write_notify s
                (executingCount s + of_bool (st = StateExecuting) - of_bool (State opr = StateExecuting))
                name obj (opr\<lparr>State := st, Metadata := md, UpdatedAt := now\<rparr>))"
proof -
  have "chans_inv s" using assms by (simp add: sched_inv_def)
  note nw = notify_write [OF this]
  show ?thesis
    by (auto simp: UpdateState_def nw split: option.splits)
qed

lemma Complete_inv:
  assumes "sched_inv s"
  shows "Complete now s name r =
    Some (case lookup_op s name of
            None \<Rightarrow> s
          | Some (obj, opr) \<Rightarrow>
              write_notify s (executingCount s - of_bool (State opr = StateExecuting)) name obj
                (opr\<lparr>State := StateCompleted, Result := Some r,
                     Metadata := set_completed_stage (Metadata opr), UpdatedAt := now\<rparr>))"
proof -
  have inv: "chans_inv s" "ops_inv s" using assms by (simp_all add: sched_inv_def)
  note nw = notify_write [OF inv(1)] and md = ops_inv_Metadata [OF inv(2)]
  show ?thesis
    by (cases "lookup_op s name") (auto simp: Complete_def nw dest: md)
qed

lemma Fail_inv:
  assumes "sched_inv s"
  shows "Fail now s name e =
    Some (case lookup_op s name of
            None \<Rightarrow> s
          | Some (obj, opr) \<Rightarrow>
              write_notify s (executingCount s - of_bool (State opr = StateExecuting)) name obj
                (opr\<lparr>State := StateCompleted, Error := Some e,
                     Metadata := set_completed_stage (Metadata opr), UpdatedAt := now\<rparr>))"
proof -
  have inv: "chans_inv s" "ops_inv s" using assms by (simp_all add: sched_inv_def)
  note nw = notify_write [OF inv(1)] and md = ops_inv_Metadata [OF inv(2)]
  show ?thesis
    by (cases "lookup_op s name") (auto simp: Fail_def nw dest: md)
qed

lemma CancelOperation_inv:
  assumes "sched_inv s"
  shows "CancelOperation now s name =
    Some (case lookup_op s name of
            None \<Rightarrow> (s, Some (Status NotFound ''operation not found''))
          | Some (obj, opr) \<Rightarrow>
              if State opr \<noteq> StateQueued
              then (s, Some (Status FailedPrecondition ''can only cancel queued operations''))
              else (write_notify s (executingCount s) name obj
                (opr\<lparr>State := StateCompleted, Error := Some (Status Canceled ''operation cancelled''),
                     Metadata := set_completed_stage (Metadata opr), UpdatedAt := now\<rparr>), None))"
proof -
  have inv: "chans_inv s" "ops_inv s" using assms by (simp_all add: sched_inv_def)
  note nw = notify_write_count [OF inv(1)] and md = ops_inv_Metadata [OF inv(2)]
  show ?thesis
    by (cases "lookup_op s name") (auto simp: CancelOperation_def nw dest: md)
qed

lemmas op_invs = UpdateState_inv Complete_inv Fail_inv CancelOperation_inv

lemma set_completed_stage_None [simp]: "set_completed_stage md = None \<longleftrightarrow> md = None"
  by (simp add: set_completed_stage_def)

lemma Enqueue_inv:
  assumes "sched_inv s" "operations s (op_name (op_id s uuid node)) = None"
  shows "sched_inv (fst (Enqueue P uuid now s d skip node))"
    and "drift (fst (Enqueue P uuid now s d skip node)) = drift s"
proof -
  let ?n = "op_name (op_id s uuid node)"
  let ?t = "fst (Enqueue P uuid now s d skip node)"
  have inv: "ops_inv s" "chans_inv s" "length (taskQueue s) \<le> queueSize s"
    using assms(1) by (simp_all add: sched_inv_def)
  have fresh: "heap s (next_obj s) = None"
    using inv(1) unfolding ops_inv_def by (metis less_irrefl not_Some_eq)
  have lt: "p < next_obj s" if "operations s n = Some p" for n p
    using ops_invD [OF inv(1) that] inv(1) unfolding ops_inv_def by blast
  show "sched_inv ?t"
  proof (cases "length (taskQueue s) < queueSize s")
    case True
    have "chans_inv ?t" using True inv(2) by (simp add: Enqueue_def Let_def chans_inv_def)
    moreover have "\<exists>q. heap ?t p = Some q \<and> Name q = n" if "operations ?t n = Some p" for n p
    proof (cases "n = ?n")
      case n: True
      with that True show ?thesis by (simp add: Enqueue_def Let_def)
    next
      case n: False
      with that True have p: "operations s n = Some p" by (simp add: Enqueue_def Let_def)
      with lt [OF p] ops_invD [OF inv(1) p] True show ?thesis by (auto simp: Enqueue_def Let_def)
    qed
    moreover have "q < next_obj ?t \<and> Metadata opr \<noteq> None" if "heap ?t q = Some opr" for q opr
    proof (cases "q = next_obj s")
      case q: True
      with that True show ?thesis by (auto simp: Enqueue_def Let_def)
    next
      case q: False
      with that True have "heap s q = Some opr" by (simp add: Enqueue_def Let_def)
      with inv(1) have "q < next_obj s \<and> Metadata opr \<noteq> None" unfolding ops_inv_def by blast
      with True show ?thesis by (simp add: Enqueue_def Let_def)
    qed
    moreover have "finite (dom (operations ?t))"
      using True inv(1) by (simp add: Enqueue_def Let_def ops_inv_def)
    ultimately have "ops_inv ?t \<and> chans_inv ?t" unfolding ops_inv_def by blast
    then show ?thesis using True by (simp add: sched_inv_def Enqueue_def Let_def)
  next
    case False
    then show ?thesis using assms(1) by (simp add: Enqueue_def Let_def)
  qed
  have "executing ?t = executing s"
  proof (cases "length (taskQueue s) < queueSize s")
    case True
    have "lookup_op ?t n = lookup_op s n" if "n \<noteq> ?n" for n
      using that True lt by (auto simp: lookup_op_def Enqueue_def Let_def split: option.splits)
    moreover have "?n \<notin> executing ?t" "?n \<notin> executing s"
      using assms(2) True by (auto simp: executing_def lookup_op_def Enqueue_def Let_def)
    ultimately have "n \<in> executing ?t \<longleftrightarrow> n \<in> executing s" for n
      by (cases "n = ?n") (simp, simp add: executing_def)
    then show ?thesis by blast
  next
    case False
    then show ?thesis by (simp add: Enqueue_def Let_def)
  qed
  then show "drift ?t = drift s" by (simp add: drift_def Enqueue_def Let_def)
qed

lemma executing_cong:
  "operations t = operations s \<Longrightarrow> heap t = heap s \<Longrightarrow> executing t = executing s"
  by (simp add: executing_def lookup_op_heap)

text \<open>Forgetting operations, with the objects left in place, keeps the invariant.\<close>

lemma ops_inv_forget:
  assumes "ops_inv s" "operations t \<subseteq>\<^sub>m operations s" "heap t = heap s" "next_obj t = next_obj s"
  shows "ops_inv t"
proof -
  have sub: "operations s n = Some p" if "operations t n = Some p" for n p
    using assms(2) that by (auto simp: map_le_def dom_def)
  have "finite (dom (operations t))"
    using assms(1) map_le_implies_dom_le [OF assms(2)] by (auto simp: ops_inv_def intro: finite_subset)
  moreover have "\<exists>q. heap t p = Some q \<and> Name q = n" if "operations t n = Some p" for n p
    using ops_invD [OF assms(1) sub [OF that]] assms(3) by simp
  ultimately show ?thesis using assms(1,3,4) by (simp add: ops_inv_def)
qed

lemma Dequeue_inv:
  assumes "sched_inv s"
  shows "sched_inv (fst (Dequeue s ctxDone recv))" "drift (fst (Dequeue s ctxDone recv)) = drift s"
proof -
  let ?t = "fst (Dequeue s ctxDone recv)"
  have "\<exists>q. ?t = s\<lparr>taskQueue := q\<rparr> \<and> length q \<le> length (taskQueue s)"
    by (cases "taskQueue s") (auto simp: Dequeue_def intro: exI [of _ "taskQueue s"])
  then obtain q where q: "?t = s\<lparr>taskQueue := q\<rparr>" "length q \<le> length (taskQueue s)" by blast
  with assms show "sched_inv ?t"
    by (simp add: sched_inv_def ops_inv_def chans_inv_def)
  from q show "drift ?t = drift s" by (simp add: drift_def executing_def lookup_op_heap)
qed

lemma DeleteOperation_inv:
  assumes "sched_inv s"
  shows "sched_inv (fst (DeleteOperation s name))"
    and "drift (fst (DeleteOperation s name)) = drift s + leaks s (EvDelete name)"
proof -
  let ?t = "fst (DeleteOperation s name)"
  have inv: "ops_inv s" "chans_inv s" using assms by (simp_all add: sched_inv_def)
  have "ops_inv ?t"
    by (rule ops_inv_forget [OF inv(1)]) (auto simp: DeleteOperation_def map_le_def)
  moreover have "chans_inv ?t" using inv(2) by (simp add: DeleteOperation_def chans_inv_def)
  ultimately show "sched_inv ?t" using assms by (simp add: sched_inv_def DeleteOperation_def)
  have "executing ?t = executing s - {name}"
    by (auto simp: executing_def lookup_op_def DeleteOperation_def split: option.splits if_splits)
  then have "int (card (executing ?t)) = int (card (executing s)) - leaks s (EvDelete name)"
  proof (cases "name \<in> executing s")
    case True
    note fin = finite_executing [OF inv(1)]
    from card_Suc_Diff1 [OF fin True] True \<open>executing ?t = executing s - {name}\<close>
    show ?thesis by simp
  qed simp
  then show "drift ?t = drift s + leaks s (EvDelete name)"
    by (simp add: drift_def DeleteOperation_def)
qed

lemma CleanupExpired_inv:
  assumes "sched_inv s"
  shows "sched_inv (CleanupExpired now s)" "drift (CleanupExpired now s) = drift s"
proof -
  let ?t = "CleanupExpired now s"
  have inv: "ops_inv s" "chans_inv s" using assms by (simp_all add: sched_inv_def)
  have "ops_inv ?t"
    by (rule ops_inv_forget [OF inv(1)])
      (auto simp: CleanupExpired_def map_le_def dom_def split: if_splits)
  moreover have "chans_inv ?t" using inv(2) unfolding chans_inv_def by (simp add: CleanupExpired_def)
  ultimately show "sched_inv ?t" using assms by (simp add: sched_inv_def CleanupExpired_def)
  have "executing ?t = executing s"
    by (auto simp: executing_def lookup_op_def CleanupExpired_def expired_def split: option.splits if_splits)
  then show "drift ?t = drift s" by (simp add: drift_def CleanupExpired_def)
qed


lemma chans_invD:
  assumes "chans_inv s"
  shows "c \<in> set (subscribers s n) \<Longrightarrow> \<exists>ch. chans s c = Some ch \<and> \<not> closed ch"
    and "distinct (subscribers s n)"
    and "c \<in> set (subscribers s n) \<Longrightarrow> c \<in> set (subscribers s m) \<Longrightarrow> n = m"
    and "chans s c = Some ch \<Longrightarrow> c < next_chan s \<and> length (buf ch) \<le> chan_cap"
  using assms unfolding chans_inv_def by blast+

lemma Subscribe_inv:
  assumes "sched_inv s"
  shows "sched_inv (fst (Subscribe s name))" "drift (fst (Subscribe s name)) = drift s"
proof -
  let ?t = "fst (Subscribe s name)"
  have inv: "ops_inv s" "chans_inv s" using assms by (simp_all add: sched_inv_def)
  have old: "c < next_chan s" if "c \<in> set (subscribers s n)" for n c
    using chans_invD(1,4) [OF inv(2)] that by blast
  have "\<exists>ch. chans ?t c = Some ch \<and> \<not> closed ch" if "c \<in> set (subscribers ?t n)" for n c
  proof (cases "c = next_chan s")
    case False
    with that have "c \<in> set (subscribers s n)"
      by (auto simp: Subscribe_def Let_def split: if_splits)
    with inv(2) False show ?thesis unfolding chans_inv_def by (simp add: Subscribe_def Let_def)
  qed (simp add: Subscribe_def Let_def)
  moreover have "distinct (subscribers ?t n)" for n
    using inv(2) old [of "next_chan s" name] by (auto simp: Subscribe_def Let_def chans_inv_def)
  moreover have "n = m" if "c \<in> set (subscribers ?t n)" "c \<in> set (subscribers ?t m)" for n m c
    using that chans_invD(3) [OF inv(2)] old [of c n] old [of c m]
    by (auto simp: Subscribe_def Let_def split: if_splits)
  moreover have "c < next_chan ?t \<and> length (buf ch) \<le> chan_cap" if "chans ?t c = Some ch" for c ch
  proof (cases "c = next_chan s")
    case True
    with that show ?thesis by (auto simp: Subscribe_def Let_def chan_cap_def split: option.splits)
  next
    case False
    with that have "chans s c = Some ch" by (simp add: Subscribe_def Let_def)
    with inv(2) have "c < next_chan s \<and> length (buf ch) \<le> chan_cap" unfolding chans_inv_def by blast
    then show ?thesis by (simp add: Subscribe_def Let_def)
  qed
  ultimately have "chans_inv ?t" unfolding chans_inv_def by blast
  moreover have "ops_inv ?t"
    by (rule ops_inv_forget [OF inv(1)]) (simp_all add: Subscribe_def Let_def)
  ultimately show "sched_inv ?t" using assms by (simp add: sched_inv_def Subscribe_def Let_def)
  show "drift ?t = drift s"
    by (simp add: drift_def executing_def lookup_op_heap Subscribe_def Let_def)
qed

lemma unsubscribe_inv:
  assumes "sched_inv s"
  shows "\<exists>t. unsubscribe s name c = Some t \<and> sched_inv t \<and> drift t = drift s"
proof (cases "c \<in> set (subscribers s name)")
  case True
  have inv: "ops_inv s" "chans_inv s" using assms by (simp_all add: sched_inv_def)
  then obtain ch where ch: "chans s c = Some ch" "\<not> closed ch"
    using True unfolding chans_inv_def by blast
  let ?t = "s\<lparr>subscribers := (subscribers s)(name := remove1 c (subscribers s name)),
                             chans := (chans s)(c \<mapsto> ch\<lparr>closed := True\<rparr>)\<rparr>"
  have t: "unsubscribe s name c = Some ?t" using True ch by (simp add: unsubscribe_def)
  have "c \<notin> set (subscribers ?t n)" for n
    using chans_invD(2,3) [OF inv(2)] True by (auto simp: set_remove1_eq)
  then have "\<exists>x. chans ?t d = Some x \<and> \<not> closed x" if "d \<in> set (subscribers ?t n)" for n d
    using that inv(2) notin_set_remove1 unfolding chans_inv_def
    by (cases "d = c") (auto split: if_splits)
  moreover have "distinct (subscribers ?t n)" for n
    using inv(2) by (simp add: chans_inv_def distinct_remove1)
  moreover have "n = m" if "d \<in> set (subscribers ?t n)" "d \<in> set (subscribers ?t m)" for n m d
    using that chans_invD(3) [OF inv(2)] set_remove1_subset [of c "subscribers s name"]
    by (auto split: if_splits)
  moreover have "d < next_chan ?t \<and> length (buf x) \<le> chan_cap" if "chans ?t d = Some x" for d x
    using that inv(2) ch unfolding chans_inv_def by (auto split: if_splits)
  ultimately have "chans_inv ?t" unfolding chans_inv_def by blast
  moreover have "ops_inv ?t" by (rule ops_inv_forget [OF inv(1)]) simp_all
  moreover have "drift ?t = drift s" by (simp add: drift_def executing_def lookup_op_heap)
  ultimately show ?thesis using t assms by (simp add: sched_inv_def)
next
  case False
  then show ?thesis using assms by (simp add: unsubscribe_def)
qed

lemma Receive_inv:
  assumes "sched_inv s"
  shows "sched_inv (fst (Receive s c))" "drift (fst (Receive s c)) = drift s"
proof -
  let ?t = "fst (Receive s c)"
  have inv: "ops_inv s" "chans_inv s" using assms by (simp_all add: sched_inv_def)
  have chan: "\<exists>ch. chans s d = Some ch \<and> closed x = closed ch \<and> length (buf x) \<le> length (buf ch)"
    if "chans ?t d = Some x" for d x
    using that by (auto simp: Receive_def split: option.splits list.splits if_splits)
  have dom: "chans ?t d = None \<longleftrightarrow> chans s d = None" for d
    by (auto simp: Receive_def split: option.splits list.splits)
  have frame: "subscribers ?t = subscribers s" "next_chan ?t = next_chan s" "operations ?t = operations s"
    "heap ?t = heap s" "next_obj ?t = next_obj s" "executingCount ?t = executingCount s"
    "taskQueue ?t = taskQueue s" "queueSize ?t = queueSize s"
    by (simp_all add: Receive_def split: option.splits list.splits)
  have "\<exists>x. chans ?t d = Some x \<and> \<not> closed x" if d: "d \<in> set (subscribers s n)" for n d
  proof -
    obtain ch where ch: "chans s d = Some ch" "\<not> closed ch"
      using chans_invD(1) [OF inv(2) d] by blast
    then obtain x where "chans ?t d = Some x" using dom [of d] by auto
    with chan [OF this] ch show ?thesis by auto
  qed
  moreover have "d < next_chan s \<and> length (buf x) \<le> chan_cap" if x: "chans ?t d = Some x" for d x
  proof -
    obtain ch where ch: "chans s d = Some ch" "length (buf x) \<le> length (buf ch)"
      using chan [OF x] by blast
    then have "d < next_chan s \<and> length (buf ch) \<le> chan_cap"
      using inv(2) unfolding chans_inv_def by blast
    with ch(2) show ?thesis by simp
  qed
  ultimately have "chans_inv ?t" using inv(2) unfolding chans_inv_def frame by blast
  moreover have "ops_inv ?t" by (rule ops_inv_forget [OF inv(1)]) (simp_all add: frame)
  ultimately show "sched_inv ?t" using assms by (simp add: sched_inv_def frame)
  show "drift ?t = drift s" by (simp add: drift_def executing_cong [OF frame(3,4)] frame)
qed

section \<open>The invariant along every run\<close>

lemma lookup_Metadata:
  "sched_inv s \<Longrightarrow> lookup_op s name = Some (obj, opr) \<Longrightarrow> \<exists>m. Metadata opr = Some m"
  using ops_inv_Metadata by (fastforce simp: sched_inv_def)

lemma set_completed_stage_Some [simp]:
  "(\<exists>m. set_completed_stage md = Some m) \<longleftrightarrow> (\<exists>m. md = Some m)"
  by (auto simp: set_completed_stage_def)

lemma write_ok:
  assumes "sched_inv s"
    "case lookup_op s name of None \<Rightarrow> False
     | Some (p, opr) \<Rightarrow> p = obj \<and> Name opr' = Name opr \<and> (Metadata opr \<noteq> None \<longrightarrow> Metadata opr' \<noteq> None) \<and>
         k = executingCount s + of_bool (State opr' = StateExecuting) - of_bool (State opr = StateExecuting)"
  shows "sched_inv (write_notify s k name obj opr')" "drift (write_notify s k name obj opr') = drift s"
  using assms(2) sched_inv_write [OF assms(1)] drift_write [OF assms(1)] lookup_Metadata [OF assms(1)]
  by (fastforce split: option.splits prod.splits)+

lemma sched_step_inv:
  assumes "sched_inv s" "sched_ok s e"
  shows "\<exists>t. sched_step P s e = Some t \<and> sched_inv t \<and> drift t = drift s + leaks s e"
proof (cases e)
  case (EvUpdateState now name st md)
  with assms show ?thesis
    by (cases "lookup_op s name") (auto simp: UpdateState_inv write_ok)
next
  case (EvComplete now name r)
  with assms show ?thesis
    by (cases "lookup_op s name")
      (auto simp: Complete_inv write_ok)
next
  case (EvFail now name x)
  with assms show ?thesis
    by (cases "lookup_op s name")
      (auto simp: Fail_inv write_ok)
next
  case (EvCancel now name)
  with assms show ?thesis
    by (cases "lookup_op s name")
      (auto simp: CancelOperation_inv write_ok)
qed (use assms in \<open>simp_all add: Enqueue_inv Dequeue_inv DeleteOperation_inv Subscribe_inv
        unsubscribe_inv Receive_inv CleanupExpired_inv\<close>)

interpretation sched: machine sched_ok "sched_step P" sched_inv for P
proof unfold_locales
  show "\<exists>t. sched_step P s e = Some t" if "sched_inv s" "sched_ok s e" for s e
    using sched_step_inv [OF that, of P] by blast
  show "sched_inv t" if "sched_inv s" "sched_ok s e" "sched_step P s e = Some t" for s e t
    using sched_step_inv [OF that(1,2), of P] that(3) by auto
qed

lemma sched_inv_New: "sched_inv (NewScheduler q node)"
  by (simp add: sched_inv_def ops_inv_def chans_inv_def NewScheduler_def)

section \<open>Runs: accounting and order\<close>

fun leaked :: "pbcodec \<Rightarrow> Scheduler \<Rightarrow> sched_event list \<Rightarrow> int" where
  "leaked P s [] = 0"
| "leaked P s (e # es) =
     leaks s e + (case sched_step P s e of None \<Rightarrow> 0 | Some t \<Rightarrow> leaked P t es)"

text \<open>The task an event adds to the queue and the task an event takes from it.\<close>

fun added :: "Scheduler \<Rightarrow> sched_event \<Rightarrow> Task list" where
  "added s (EvEnqueue now uuid d skip node) =
     (if length (taskQueue s) < queueSize s
      then [\<lparr>OperationID = op_id s uuid node, task_ActionDigest = d, SkipCache = skip, QueuedAt = now\<rparr>]
      else [])"
| "added s e = []"

fun taken :: "Scheduler \<Rightarrow> sched_event \<Rightarrow> Task list" where
  "taken s (EvDequeue ctxDone recv) =
     (case snd (Dequeue s ctxDone recv) of Some (Inr task) \<Rightarrow> [task] | _ \<Rightarrow> [])"
| "taken s e = []"

fun along :: "pbcodec \<Rightarrow> (Scheduler \<Rightarrow> sched_event \<Rightarrow> Task list) \<Rightarrow> Scheduler \<Rightarrow> sched_event list \<Rightarrow> Task list" where
  "along P f s [] = []"
| "along P f s (e # es) =
     f s e @ (case sched_step P s e of None \<Rightarrow> [] | Some t \<Rightarrow> along P f t es)"

lemma leaks_nonneg: "0 \<le> leaks s e"
  by (cases e) simp_all

lemma leaked_nonneg: "0 \<le> leaked P s es"
  by (induction es arbitrary: s) (auto simp: leaks_nonneg split: option.splits)

lemma drift_run:
  assumes "sched_inv s" "enabled_run sched_ok (sched_step P) s es" "run (sched_step P) s es = Some t"
  shows "drift t = drift s + leaked P s es"
  using assms
proof (induction es arbitrary: s)
  case Nil
  then show ?case by simp
next
  case (Cons e es)
  then have ok: "sched_ok s e" by simp
  obtain u where u: "sched_step P s e = Some u" "sched_inv u" "drift u = drift s + leaks s e"
    using sched_step_inv [OF Cons.prems(1) ok, of P] by blast
  with Cons.prems(2,3) have "drift t = drift u + leaked P u es" by (intro Cons.IH) simp_all
  with u show ?case by simp
qed

lemma notify_frame:
  "notifySubscribersLocked s name obj = Some t \<Longrightarrow>
     taskQueue t = taskQueue s \<and> queueSize t = queueSize s"
  by (auto simp: notifySubscribersLocked_def)

lemma sched_step_queue:
  "sched_step P s e = Some t \<Longrightarrow>
     taskQueue s @ added s e = taken s e @ taskQueue t \<and> queueSize t = queueSize s"
proof (cases e)
  case (EvDequeue ctxDone recv)
  then show "sched_step P s e = Some t \<Longrightarrow> ?thesis"
    by (cases "taskQueue s") (auto simp: Dequeue_def)
qed (auto simp: Enqueue_def Let_def UpdateState_def Complete_def Fail_def CancelOperation_def
    DeleteOperation_def Subscribe_def unsubscribe_def Receive_def CleanupExpired_def
    dest!: notify_frame split: option.splits if_splits list.splits)

lemma run_queue:
  "run (sched_step P) s es = Some t \<Longrightarrow>
     taskQueue s @ along P added s es = along P taken s es @ taskQueue t \<and> queueSize t = queueSize s"
proof (induction es arbitrary: s)
  case Nil
  then show ?case by simp
next
  case (Cons e es)
  then obtain u where u: "sched_step P s e = Some u" "run (sched_step P) u es = Some t"
    by (auto split: option.splits)
  from sched_step_queue [OF u(1)] Cons.IH [OF u(2)] u(1) show ?case
    by (simp) (metis append.assoc)
qed

section \<open>Properties\<close>

text \<open>C2: From a new scheduler every sequence of calls whose callers keep their side (a fresh UUID, a
  metadata pointer) runs without a panic, and ends with a queue within its capacity, every
  tracked operation stored under its own name, and every subscribed channel open: no broadcast
  ever sends on a closed channel.\<close>

theorem sched_run_safe:
  assumes "enabled_run sched_ok (sched_step P) (NewScheduler q node) es"
  shows "\<exists>t. run (sched_step P) (NewScheduler q node) es = Some t \<and>
           length (taskQueue t) \<le> q \<and> ops_inv t \<and> chans_inv t"
proof -
  obtain t where t: "run (sched_step P) (NewScheduler q node) es = Some t" "sched_inv t"
    using sched.run_defined [OF sched_inv_New assms] by blast
  moreover from run_queue [OF t(1)] have "queueSize t = q" by (simp add: NewScheduler_def)
  ultimately show ?thesis by (auto simp: sched_inv_def)
qed

definition codec0 :: pbcodec where
  "codec0 = \<lparr>any_metadata = (\<lambda>_. Inr []), any_response = (\<lambda>_. Inr []),
             status_convert = (\<lambda>_. (Unknown, []))\<rparr>"

definition digest0 :: Digest where
  "digest0 = \<lparr>Hash = ''aabb'', Size = 1\<rparr>"

definition run0 :: "sched_event list" where
  "run0 = [EvEnqueue 0 ''u1'' digest0 False '''', EvSubscribe ''operations/n:u1'', EvDequeue False True,
           EvUpdateState 1 ''operations/n:u1'' StateExecuting (Some \<lparr>Stage = EXECUTING, ActionDigest = digest0\<rparr>),
           EvDelete ''operations/n:u1'', EvUnsubscribe ''operations/n:u1'' 0]"

lemmas run0_simps = run0_def codec0_def NewScheduler_def Enqueue_def Dequeue_def UpdateState_def
  Complete_def Fail_def CancelOperation_def DeleteOperation_def Subscribe_def unsubscribe_def
  lookup_op_def op_id_def op_name_def notifySubscribersLocked_def chan_cap_def Let_def

lemma run0_enabled: "enabled_run sched_ok (sched_step codec0) (NewScheduler 2 ''n'') run0"
  by (simp add: run0_simps)

theorem sched_run_safe_witness:
  "\<exists>t. run (sched_step codec0) (NewScheduler 2 ''n'') run0 = Some t \<and>
           length (taskQueue t) \<le> 2 \<and> ops_inv t \<and> chans_inv t"
  by (rule sched_run_safe [OF run0_enabled])

text \<open>C3: After any such run the executing counter is the number of tracked executing operations plus
  the number of operations that were deleted while executing (each of them stays counted for
  ever), so the reported load is never below the real one and is exact when no executing
  operation is deleted.\<close>

theorem executing_count_run:
  assumes "enabled_run sched_ok (sched_step P) (NewScheduler q node) es"
    and "run (sched_step P) (NewScheduler q node) es = Some t"
  shows "GetPendingTaskCount t =
           int (length (taskQueue t)) + int (card (executing t)) + leaked P (NewScheduler q node) es
         \<and> 0 \<le> leaked P (NewScheduler q node) es"
proof -
  have "drift (NewScheduler q node) = 0"
    by (simp add: drift_def executing_def lookup_op_def NewScheduler_def)
  with drift_run [OF sched_inv_New assms] have "drift t = leaked P (NewScheduler q node) es" by simp
  then show ?thesis using leaked_nonneg by (simp add: GetPendingTaskCount_def drift_def)
qed

theorem executing_count_run_witness:
  "\<exists>t. run (sched_step codec0) (NewScheduler 2 ''n'') run0 = Some t \<and>
       GetPendingTaskCount t = 1 \<and> executing t = {}"
proof -
  obtain t where t: "run (sched_step codec0) (NewScheduler 2 ''n'') run0 = Some t"
    using sched.run_defined [OF sched_inv_New run0_enabled] by blast
  have "leaked codec0 (NewScheduler 2 ''n'') run0 = 1"
    by (simp add: run0_simps executing_def)
  moreover have "taskQueue t = []" "executing t = {}"
    using t by (auto simp: run0_simps executing_def split: if_splits)
  ultimately show ?thesis using t executing_count_run [OF run0_enabled t] by simp
qed

text \<open>C4: The task queue is first in, first out and loses nothing: along any run, the tasks that were
  queued at the start followed by the tasks accepted since are the tasks handed out so far
  followed by the tasks still queued.\<close>

theorem queue_fifo:
  assumes "run (sched_step P) s es = Some t"
  shows "taskQueue s @ along P added s es = along P taken s es @ taskQueue t"
  using run_queue [OF assms] by simp

theorem queue_fifo_witness:
  "\<exists>t. run (sched_step codec0) (NewScheduler 2 ''n'') run0 = Some t \<and>
     along codec0 added (NewScheduler 2 ''n'') run0 =
       along codec0 taken (NewScheduler 2 ''n'') run0 @ taskQueue t"
proof -
  obtain t where t: "run (sched_step codec0) (NewScheduler 2 ''n'') run0 = Some t"
    using sched.run_defined [OF sched_inv_New run0_enabled] by blast
  from queue_fifo [OF t] t show ?thesis by (simp add: NewScheduler_def)
qed

lemma scan_colon_append:
  "CHR '':'' \<notin> set xs \<Longrightarrow> scan_colon acc (xs @ CHR '':'' # ys) = Some (rev acc @ xs, ys)"
  by (induction xs arbitrary: acc) auto

lemma scan_colon_None: "CHR '':'' \<notin> set xs \<Longrightarrow> scan_colon acc xs = None"
  by (induction xs arbitrary: acc) auto

lemma toProto_Name: "toProto P opr = Inr p \<Longrightarrow> pb_Name p = Name opr"
  by (auto simp: toProto_def Let_def split: sum.splits option.splits if_splits)

lemma Parse_op_name:
  assumes "CHR '':'' \<notin> set prefix" "CHR '':'' \<notin> set uuid" "uuid \<noteq> []"
  shows "ParseOperationNodeID (op_name (if prefix \<noteq> [] then prefix @ '':'' @ uuid else uuid)) = (prefix, uuid)"
proof -
  let ?oid = "if prefix \<noteq> [] then prefix @ '':'' @ uuid else uuid"
  have "11 < length (op_name ?oid)" using assms(3) by (simp add: op_name_def)
  moreover have "take 11 (op_name ?oid) = ''operations/''" "drop 11 (op_name ?oid) = ?oid"
    by (simp_all add: op_name_def)
  ultimately have "ParseOperationNodeID (op_name ?oid) =
      (case scan_colon [] ?oid of Some r \<Rightarrow> r | None \<Rightarrow> ([], ?oid))"
    by (simp add: ParseOperationNodeID_def Let_def)
  then show ?thesis using assms by (auto simp: scan_colon_append scan_colon_None)
qed

text \<open>C6: The name of an enqueued operation parses back to the node it was enqueued for (the override
  if there is one, the scheduler's own identifier otherwise) and to the UUID, provided
  neither contains a colon.\<close>

theorem operation_name_roundtrip:
  assumes "snd (Enqueue P uuid now s d skip override) = Inr p"
    and "prefix = (if override \<noteq> [] then override else nodeID s)"
    and "CHR '':'' \<notin> set prefix" "CHR '':'' \<notin> set uuid" "uuid \<noteq> []"
  shows "ParseOperationNodeID (pb_Name p) = (prefix, uuid)"
proof -
  have "pb_Name p = op_name (op_id s uuid override)"
    using assms(1) by (auto simp: Enqueue_def Let_def dest: toProto_Name split: if_splits)
  also have "op_id s uuid override = (if prefix \<noteq> [] then prefix @ '':'' @ uuid else uuid)"
    by (simp add: op_id_def assms(2) Let_def)
  finally show ?thesis using Parse_op_name [OF assms(3-5)] by simp
qed

theorem operation_name_roundtrip_witness:
  "ParseOperationNodeID ''operations/node-b:123e'' = (''node-b'', ''123e'')"
  using operation_name_roundtrip
    [of codec0 "''123e''" 0 "NewScheduler 1 ''node-a''" digest0 False "''node-b''"
      "\<lparr>pb_Name = ''operations/node-b:123e'', pb_Metadata = [], pb_Done = False, pb_Result = None\<rparr>"
      "''node-b''"]
  by (simp add: run0_simps toProto_def)

lemma lookup_write [simp]:
  "lookup_op s name = Some (obj, opr) \<Longrightarrow> lookup_op (write_notify s k name obj opr') name = Some (obj, opr')"
  by (simp add: lookup_op_heap)

lemma chans_write:
  "chans (write_notify s k name obj opr') c =
     (if c \<in> set (subscribers s name) then map_option (push obj) (chans s c) else chans s c)"
  by (simp add: write_notify_def)

lemma cancel_queued:
  assumes "sched_inv s" "lookup_op s name = Some (obj, opr)" "State opr = StateQueued"
  shows "\<exists>t opr'. CancelOperation now s name = Some (t, None) \<and> taskQueue t = taskQueue s \<and>
     lookup_op t name = Some (obj, opr') \<and> State opr' = StateCompleted \<and>
     Error opr' = Some (Status Canceled ''operation cancelled'') \<and> UpdatedAt opr' = now"
  using assms(2,3) by (simp add: CancelOperation_inv [OF assms(1)])

text \<open>Cancelling an unknown operation reports NotFound and one that is no longer queued reports
  FailedPrecondition, both without any change; cancelling a queued operation completes it
  with the error Canceled. In every case the task queue stays as it was.\<close>

theorem cancel_operation:
  assumes "sched_inv s"
  shows "\<exists>t r. CancelOperation now s name = Some (t, r) \<and> taskQueue t = taskQueue s \<and>
    (case lookup_op s name of
       None \<Rightarrow> r = Some (Status NotFound ''operation not found'') \<and> t = s
     | Some (obj, opr) \<Rightarrow>
         if State opr = StateQueued
         then r = None \<and> (\<exists>opr'. lookup_op t name = Some (obj, opr') \<and> State opr' = StateCompleted \<and>
                Error opr' = Some (Status Canceled ''operation cancelled'') \<and> UpdatedAt opr' = now)
         else r = Some (Status FailedPrecondition ''can only cancel queued operations'') \<and> t = s)"
proof (cases "lookup_op s name")
  case None
  then show ?thesis by (simp add: CancelOperation_inv [OF assms])
next
  case (Some p)
  obtain obj opr where p: "p = (obj, opr)" by (cases p)
  with Some show ?thesis
    using cancel_queued [OF assms, of name obj opr now]
    by (cases "State opr = StateQueued") (auto simp: CancelOperation_inv [OF assms])
qed

definition sched1 :: Scheduler where
  "sched1 = fst (Enqueue codec0 ''u1'' 0 (NewScheduler 2 ''n'') digest0 False '''')"

lemma sched1_inv: "sched_inv sched1"
  unfolding sched1_def
  by (rule Enqueue_inv) (simp_all add: sched_inv_New, simp add: NewScheduler_def)

lemma sched1_lookup:
  "lookup_op sched1 ''operations/n:u1'' =
     Some (0, \<lparr>Name = ''operations/n:u1'', State = StateQueued,
               Metadata = Some \<lparr>Stage = QUEUED, ActionDigest = digest0\<rparr>, Result = None,
               Error = None, CreatedAt = 0, UpdatedAt = 0\<rparr>)"
  by (simp add: sched1_def run0_simps)

theorem cancel_operation_witness:
  "\<exists>t opr. CancelOperation 5 sched1 ''operations/n:u1'' = Some (t, None) \<and>
     lookup_op t ''operations/n:u1'' = Some (0, opr) \<and> State opr = StateCompleted"
  using cancel_operation [OF sched1_inv, of 5 "''operations/n:u1''"] by (auto simp: sched1_lookup)

text \<open>Cancelling does not take the task out of the queue, and the worker does not look at the
  operation's state: the worker that takes the task of a cancelled operation moves the
  operation from completed back to executing, so a finished operation is reported as not done.\<close>

theorem cancelled_task_still_runs:
  assumes "sched_inv s" "taskQueue s = task # rest"
    and "name = op_name (OperationID task)" "lookup_op s name = Some (obj, opr)" "State opr = StateQueued"
  shows "\<exists>t1 t2 t3 opr3. CancelOperation now s name = Some (t1, None) \<and>
     Dequeue t1 False recv = (t2, Some (Inr task)) \<and>
     UpdateState later t2 name StateExecuting (Some md) = Some t3 \<and>
     lookup_op t3 name = Some (obj, opr3) \<and> State opr3 = StateExecuting"
proof -
  obtain t1 opr1 where t1: "CancelOperation now s name = Some (t1, None)" "taskQueue t1 = taskQueue s"
    "lookup_op t1 name = Some (obj, opr1)"
    using cancel_queued [OF assms(1,4,5), of now] by blast
  have inv1: "sched_inv t1"
    using sched_step_inv [OF assms(1), of "EvCancel now name" codec0] t1(1) by auto
  define t2 where "t2 = t1\<lparr>taskQueue := rest\<rparr>"
  have d: "Dequeue t1 False recv = (t2, Some (Inr task))"
    using t1(2) assms(2) by (simp add: Dequeue_def t2_def)
  then have inv2: "sched_inv t2" using Dequeue_inv(1) [OF inv1, of False recv] by simp
  have l2: "lookup_op t2 name = Some (obj, opr1)" using t1(3) by (simp add: t2_def lookup_op_heap)
  obtain t3 where "UpdateState later t2 name StateExecuting (Some md) = Some t3"
    "lookup_op t3 name = Some (obj, opr1\<lparr>State := StateExecuting, Metadata := Some md, UpdatedAt := later\<rparr>)"
    using l2 by (simp add: UpdateState_inv [OF inv2])
  then show ?thesis using t1(1) d by fastforce
qed

theorem cancelled_task_still_runs_witness:
  "\<exists>t1 t2 t3 opr3. CancelOperation 1 sched1 ''operations/n:u1'' = Some (t1, None) \<and>
     Dequeue t1 False True = (t2, Some (Inr \<lparr>OperationID = ''n:u1'', task_ActionDigest = digest0,
        SkipCache = False, QueuedAt = 0\<rparr>)) \<and>
     UpdateState 2 t2 ''operations/n:u1'' StateExecuting
       (Some \<lparr>Stage = EXECUTING, ActionDigest = digest0\<rparr>) = Some t3 \<and>
     lookup_op t3 ''operations/n:u1'' = Some (0, opr3) \<and> State opr3 = StateExecuting"
  by (rule cancelled_task_still_runs [OF sched1_inv _ _ sched1_lookup])
    (simp_all add: sched1_def run0_simps)

text \<open>A cleanup at time \<open>now\<close> forgets exactly the completed operations last updated more than the
  retention time before; every other operation stays with its status.\<close>

theorem cleanup_exact:
  "lookup_op (CleanupExpired now s) name =
     (case lookup_op s name of
        None \<Rightarrow> None
      | Some (obj, opr) \<Rightarrow>
          if State opr = StateCompleted \<and> UpdatedAt opr < now - retention s then None
          else Some (obj, opr))"
  by (auto simp: CleanupExpired_def lookup_op_def expired_def split: option.splits)

text \<open>C5: Completing a tracked operation that has no error makes \<open>GetOperation\<close> report it done with the
  packed response and the stage COMPLETED, wherever protobuf can pack both; failing it makes
  \<open>GetOperation\<close> report it done with the converted error.\<close>

theorem finish_reported:
  assumes "sched_inv s" "lookup_op s name = Some (obj, opr)"
    and "any_metadata P (set_completed_stage (Metadata opr)) = Inr m" "any_response P r = Inr b"
  shows "(\<exists>t. Fail now s name e = Some t \<and> GetOperation P t name =
           Inr \<lparr>pb_Name = Name opr, pb_Metadata = m, pb_Done = True,
                pb_Result = Some (Operation_Error (status_convert P e))\<rparr>) \<and>
         (Error opr = None \<longrightarrow>
           (\<exists>t. Complete now s name r = Some t \<and> GetOperation P t name =
             Inr \<lparr>pb_Name = Name opr, pb_Metadata = m, pb_Done = True,
                  pb_Result = Some (Operation_Response b)\<rparr>))"
  using assms(2-4)
  by (simp add: Fail_inv [OF assms(1)] Complete_inv [OF assms(1)] GetOperation_def toProto_def)

definition resp0 :: ExecuteResponse where
  "resp0 = \<lparr>resp_Result = \<lparr>ExitCode = 0, StdoutDigest = None, StderrDigest = None, OutputFiles = [],
              OutputDirectories = [], ExecutionCompletedTimestamp = 0\<rparr>, resp_CachedResult = False\<rparr>"

theorem finish_reported_witness:
  "\<exists>t. Complete 3 sched1 ''operations/n:u1'' resp0 = Some t \<and>
     GetOperation codec0 t ''operations/n:u1'' =
       Inr \<lparr>pb_Name = ''operations/n:u1'', pb_Metadata = [], pb_Done = True,
            pb_Result = Some (Operation_Response [])\<rparr>"
  using finish_reported [OF sched1_inv sched1_lookup, of codec0 "[]" resp0 "[]" 3 CtxErr]
  by (simp add: codec0_def)

text \<open>A client that subscribes to a tracked operation and is not reading misses nothing: when the
  operation then completes, its channel is open and holds the operation first for the state at
  subscription and then for the completion, and the object both point to is completed.\<close>

theorem subscriber_sees_completion:
  assumes "sched_inv s" "lookup_op s name = Some (obj, opr)" "Subscribe s name = (s1, c)"
  shows "\<exists>t opr'. Complete now s1 name r = Some t \<and>
     chans t c = Some \<lparr>buf = [obj, obj], closed = False\<rparr> \<and>
     lookup_op t name = Some (obj, opr') \<and> State opr' = StateCompleted \<and> Result opr' = Some r"
proof -
  have inv1: "sched_inv s1" using Subscribe_inv(1) [OF assms(1), of name] assms(3) by simp
  have l1: "lookup_op s1 name = Some (obj, opr)" and c: "c \<in> set (subscribers s1 name)"
    "chans s1 c = Some \<lparr>buf = [obj], closed = False\<rparr>"
    using assms(2,3) by (auto simp: Subscribe_def Let_def lookup_op_heap)
  then show ?thesis
    by (simp add: Complete_inv [OF inv1] chans_write push_def chan_cap_def)
qed

theorem subscriber_sees_completion_witness:
  "\<exists>t opr'. Complete 3 (fst (Subscribe sched1 ''operations/n:u1'')) ''operations/n:u1'' resp0 = Some t \<and>
     chans t 0 = Some \<lparr>buf = [0, 0], closed = False\<rparr> \<and>
     lookup_op t ''operations/n:u1'' = Some (0, opr') \<and> State opr' = StateCompleted \<and>
     Result opr' = Some resp0"
  by (rule subscriber_sees_completion [OF sched1_inv sched1_lookup])
    (simp add: prod_eq_iff sched1_def run0_simps)

end
