(* ===== verification/OS.thy ===== *)
theory OS
  imports Prelude "HOL-Library.AList"
begin

text \<open>
  The operating system calls the stores and the worker make (package \<^verbatim>\<open>os\<close> and
  \<^verbatim>\<open>path/filepath\<close>). A path is kept in the form \<open>filepath.Clean\<close> gives it: rooted or not,
  and its components. The file system maps paths to directories, symbolic links and regular
  files; a regular file is the number of an inode, so that hard links share contents and
  permissions. Every call may fail for a reason outside the program (a full disk, a lost
  permission): \<open>fault n\<close> is the error of the \<open>n\<close>-th call, and a write that fails leaves a
  prefix of the data. Symbolic links are followed in the last component of a path only, and an
  access time changes only by creation and by \<open>os.Chtimes\<close>.
\<close>

section \<open>Paths\<close>

datatype path = Path (rooted: bool) (comps: "string list")

fun split_on :: "char \<Rightarrow> string \<Rightarrow> string list" where
  "split_on d [] = [[]]"
| "split_on d (c # cs) =
     (if c = d then [] # split_on d cs
      else case split_on d cs of [] \<Rightarrow> [[c]] | x # xs \<Rightarrow> (c # x) # xs)"

text \<open>One component of \<open>filepath.Clean\<close>, on the components kept so far in reverse.\<close>

fun clean_step :: "bool \<Rightarrow> string list \<Rightarrow> string \<Rightarrow> string list" where
  "clean_step r acc c =
     (if c = [] \<or> c = ''.'' then acc
      else if c = ''..''
      then (case acc of
              [] \<Rightarrow> if r then [] else [''..'']
            | x # xs \<Rightarrow> if x = ''..'' then ''..'' # acc else xs)
      else c # acc)"

definition Clean :: "bool \<Rightarrow> string list \<Rightarrow> string list" where
  "Clean r cs = rev (foldl (clean_step r) [] cs)"

text \<open>\<open>filepath.Join(p, s)\<close>, and \<open>Join\<close> of several elements.\<close>

definition Join :: "path \<Rightarrow> string \<Rightarrow> path" where
  "Join p s = Path (rooted p) (Clean (rooted p) (comps p @ split_on (CHR ''/'') s))"

definition JoinAll :: "path \<Rightarrow> string list \<Rightarrow> path" where
  "JoinAll p ss = foldl Join p ss"

text \<open>\<open>filepath.Dir\<close>.\<close>

definition parent :: "path \<Rightarrow> path" where
  "parent p = Path (rooted p) (butlast (comps p))"

text \<open>A path element that names one entry of a directory.\<close>

definition plain :: "string \<Rightarrow> bool" where
  "plain c \<longleftrightarrow> c \<noteq> [] \<and> c \<noteq> ''.'' \<and> c \<noteq> ''..'' \<and> CHR ''/'' \<notin> set c"

definition clean_path :: "path \<Rightarrow> bool" where
  "clean_path p \<longleftrightarrow> Clean (rooted p) (comps p) = comps p"

text \<open>Decimal digits of a number, for \<open>fmt.Sprintf("%d", n)\<close>.\<close>

fun digits :: "nat \<Rightarrow> nat list" where
  "digits n = (if 10 \<le> n then digits (n div 10) @ [n mod 10] else [n])"

declare digits.simps [simp del]

definition show_nat :: "nat \<Rightarrow> string" where
  "show_nat n = map (\<lambda>d. char_of (48 + d)) (digits n)"

definition show_int :: "int \<Rightarrow> string" where
  "show_int i = (if i < 0 then ''-'' @ show_nat (nat (- i)) else show_nat (nat i))"

section \<open>The file system\<close>

record inode =
  content :: bytes
  mode :: nat
  atime :: gotime

datatype node = DirNode | RegNode nat | SymNode string gotime

record fsys =
  nodes :: "(path \<times> node) list"
  inodes :: "nat \<Rightarrow> inode option"
  next_ino :: nat
  sysno :: nat
  fault :: "nat \<Rightarrow> goerr option"
  short :: "nat \<Rightarrow> nat"
  rnd :: "nat \<Rightarrow> nat"
  clock :: "nat \<Rightarrow> gotime"

text \<open>\<open>time.Now()\<close>.\<close>

definition Now :: "fsys \<Rightarrow> gotime" where
  "Now s = clock s (sysno s)"

definition lookup :: "fsys \<Rightarrow> path \<Rightarrow> node option" where
  "lookup s p = map_of (nodes s) p"

definition file_at :: "fsys \<Rightarrow> path \<Rightarrow> inode option" where
  "file_at s p = (case lookup s p of Some (RegNode i) \<Rightarrow> inodes s i | _ \<Rightarrow> None)"

definition is_dir :: "fsys \<Rightarrow> path \<Rightarrow> bool" where
  "is_dir s p \<longleftrightarrow> comps p = [] \<or> lookup s p = Some DirNode"

definition set_node :: "fsys \<Rightarrow> path \<Rightarrow> node \<Rightarrow> fsys" where
  "set_node s p n = s\<lparr>nodes := AList.update p n (nodes s)\<rparr>"

definition del_node :: "fsys \<Rightarrow> path \<Rightarrow> fsys" where
  "del_node s p = s\<lparr>nodes := AList.delete p (nodes s)\<rparr>"

text \<open>A system call: it fails if the environment says so, and runs otherwise.\<close>

definition syscall :: "fsys \<Rightarrow> (fsys \<Rightarrow> fsys \<times> (goerr + 'a)) \<Rightarrow> fsys \<times> (goerr + 'a)" where
  "syscall s f =
     (let t = s\<lparr>sysno := Suc (sysno s)\<rparr>
      in case fault s (sysno s) of Some e \<Rightarrow> (t, Inl e) | None \<Rightarrow> f t)"

text \<open>Symbolic links in the last component; after 40 of them the kernel gives up.\<close>

definition link_target :: "path \<Rightarrow> string \<Rightarrow> path" where
  "link_target p t =
     (case t of
        c # _ \<Rightarrow> if c = CHR ''/'' then Path True (Clean True (split_on (CHR ''/'') t)) else Join (parent p) t
      | [] \<Rightarrow> Join (parent p) t)"

fun follow :: "nat \<Rightarrow> fsys \<Rightarrow> path \<Rightarrow> goerr + path" where
  "follow 0 s p = Inl (ErrSys 40)"
| "follow (Suc k) s p =
     (case lookup s p of Some (SymNode t _) \<Rightarrow> follow k s (link_target p t) | _ \<Rightarrow> Inr p)"

text \<open>What \<open>os.Stat\<close> says of a file.\<close>

datatype fileinfo = IsDirectory | IsRegular inode

definition Stat :: "fsys \<Rightarrow> path \<Rightarrow> fsys \<times> (goerr + fileinfo)" where
  "Stat s p = syscall s (\<lambda>s.
     case follow 40 s p of
       Inl e \<Rightarrow> (s, Inl e)
     | Inr q \<Rightarrow>
         if is_dir s q then (s, Inr IsDirectory)
         else (case file_at s q of
                 Some ino \<Rightarrow> (s, Inr (IsRegular ino))
               | None \<Rightarrow> (s, Inl ErrNotExist)))"

text \<open>An open file: the inode it reads from and writes to, or a directory.\<close>

datatype handle = HFile nat | HDir

definition Open :: "fsys \<Rightarrow> path \<Rightarrow> fsys \<times> (goerr + handle)" where
  "Open s p = syscall s (\<lambda>s.
     case follow 40 s p of
       Inl e \<Rightarrow> (s, Inl e)
     | Inr q \<Rightarrow>
         if is_dir s q then (s, Inr HDir)
         else (case lookup s q of
                 Some (RegNode i) \<Rightarrow> (s, Inr (HFile i))
               | _ \<Rightarrow> (s, Inl ErrNotExist)))"

text \<open>A reader: the bytes it gives, then end of file or an error.\<close>

record reader =
  rd_bytes :: bytes
  rd_err :: "goerr option"

text \<open>Reading an open file to its end; a read that fails has given a prefix.\<close>

definition read_handle :: "fsys \<Rightarrow> handle \<Rightarrow> fsys \<times> reader" where
  "read_handle s h =
     (let t = s\<lparr>sysno := Suc (sysno s)\<rparr>
      in case h of
           HDir \<Rightarrow> (t, \<lparr>rd_bytes = [], rd_err = Some ErrIsDir\<rparr>)
         | HFile i \<Rightarrow>
             (let c = (case inodes s i of Some ino \<Rightarrow> content ino | None \<Rightarrow> [])
              in case fault s (sysno s) of
                   Some e \<Rightarrow> (t, \<lparr>rd_bytes = take (short s (sysno s)) c, rd_err = Some e\<rparr>)
                 | None \<Rightarrow> (t, \<lparr>rd_bytes = c, rd_err = None\<rparr>)))"

definition ReadFile :: "fsys \<Rightarrow> path \<Rightarrow> fsys \<times> (goerr + bytes)" where
  "ReadFile s p =
     (case Open s p of
        (s, Inl e) \<Rightarrow> (s, Inl e)
      | (s, Inr h) \<Rightarrow>
          (case read_handle s h of
             (s, rd) \<Rightarrow> (case rd_err rd of Some e \<Rightarrow> (s, Inl e) | None \<Rightarrow> (s, Inr (rd_bytes rd)))))"

definition upd_inode :: "fsys \<Rightarrow> nat \<Rightarrow> (inode \<Rightarrow> inode) \<Rightarrow> fsys" where
  "upd_inode s i f = s\<lparr>inodes := (inodes s)(i := map_option f (inodes s i))\<rparr>"

text \<open>\<open>os.Chmod\<close> and \<open>os.Chtimes\<close> change the inode behind the path.\<close>

definition on_file :: "(inode \<Rightarrow> inode) \<Rightarrow> fsys \<Rightarrow> path \<Rightarrow> fsys \<times> (goerr + unit)" where
  "on_file f s p = syscall s (\<lambda>s.
     case follow 40 s p of
       Inl e \<Rightarrow> (s, Inl e)
     | Inr q \<Rightarrow>
         if is_dir s q then (s, Inr ())
         else (case lookup s q of
                 Some (RegNode i) \<Rightarrow> (upd_inode s i f, Inr ())
               | _ \<Rightarrow> (s, Inl ErrNotExist)))"

definition Chmod :: "nat \<Rightarrow> fsys \<Rightarrow> path \<Rightarrow> fsys \<times> (goerr + unit)" where
  "Chmod m = on_file (mode_update (\<lambda>_. m))"

definition Chtimes :: "gotime \<Rightarrow> fsys \<Rightarrow> path \<Rightarrow> fsys \<times> (goerr + unit)" where
  "Chtimes t = on_file (atime_update (\<lambda>_. t))"

text \<open>\<open>os.MkdirAll\<close>: one call per missing directory, from the top.\<close>

fun mkdirs :: "fsys \<Rightarrow> bool \<Rightarrow> string list \<Rightarrow> string list \<Rightarrow> fsys \<times> (goerr + unit)" where
  "mkdirs s r pre [] = (s, Inr ())"
| "mkdirs s r pre (c # cs) =
     (let p = Path r (pre @ [c])
      in case lookup s p of
           Some DirNode \<Rightarrow> mkdirs s r (pre @ [c]) cs
         | Some _ \<Rightarrow> (s, Inl ErrNotDir)
         | None \<Rightarrow>
             (case syscall s (\<lambda>s. (set_node s p DirNode, Inr ())) of
                (s, Inl e) \<Rightarrow> (s, Inl e)
              | (s, Inr _) \<Rightarrow> mkdirs s r (pre @ [c]) cs))"

definition MkdirAll :: "fsys \<Rightarrow> path \<Rightarrow> fsys \<times> (goerr + unit)" where
  "MkdirAll s p = mkdirs s (rooted p) [] (comps p)"

definition new_file :: "fsys \<Rightarrow> path \<Rightarrow> nat \<Rightarrow> fsys" where
  "new_file s p m =
     (set_node s p (RegNode (next_ino s)))
       \<lparr>inodes := (inodes s)(next_ino s \<mapsto> \<lparr>content = [], mode = m, atime = Now s\<rparr>),
        next_ino := Suc (next_ino s)\<rparr>"

text \<open>
  \<open>os.CreateTemp(dir, prefix + "*")\<close> tries random suffixes until the name is free, 10000 times
  at most, and creates the file with mode 0600.
\<close>

fun temp_name :: "nat \<Rightarrow> nat \<Rightarrow> fsys \<Rightarrow> path \<Rightarrow> string \<Rightarrow> path option" where
  "temp_name 0 k s dir prefix = None"
| "temp_name (Suc tries) k s dir prefix =
     (let p = Join dir (prefix @ show_nat (rnd s k))
      in if lookup s p = None then Some p else temp_name tries (Suc k) s dir prefix)"

definition CreateTemp :: "fsys \<Rightarrow> path \<Rightarrow> string \<Rightarrow> fsys \<times> (goerr + path \<times> nat)" where
  "CreateTemp s dir prefix = syscall s (\<lambda>s.
     if \<not> is_dir s dir then (s, Inl ErrNotExist)
     else (case temp_name 10000 (sysno s) s dir prefix of
             None \<Rightarrow> (s, Inl ErrExist)
           | Some p \<Rightarrow> (new_file s p 384, Inr (p, next_ino s))))"

text \<open>\<open>os.Create\<close>: truncates an existing file, creates a missing one with mode 0644.\<close>

definition Create :: "fsys \<Rightarrow> path \<Rightarrow> fsys \<times> (goerr + nat)" where
  "Create s p = syscall s (\<lambda>s.
     if \<not> is_dir s (parent p) then (s, Inl ErrNotExist)
     else (case lookup s p of
             None \<Rightarrow> (new_file s p 420, Inr (next_ino s))
           | Some (RegNode i) \<Rightarrow> (upd_inode s i (content_update (\<lambda>_. [])), Inr i)
           | Some _ \<Rightarrow> (s, Inl ErrIsDir)))"

text \<open>Appending to an open file. A write that fails has written a prefix.\<close>

definition Write :: "fsys \<Rightarrow> nat \<Rightarrow> bytes \<Rightarrow> fsys \<times> (goerr + nat)" where
  "Write s i data =
     (case syscall s (\<lambda>s. (upd_inode s i (content_update (\<lambda>c. c @ data)), Inr (length data))) of
        (t, Inl e) \<Rightarrow> (upd_inode t i (content_update (\<lambda>c. c @ take (short s (sysno s)) data)), Inl e)
      | r \<Rightarrow> r)"

text \<open>\<open>io.Copy\<close> into an open file.\<close>

definition Copy :: "fsys \<Rightarrow> nat \<Rightarrow> reader \<Rightarrow> fsys \<times> (goerr + nat)" where
  "Copy s i r =
     (case Write s i (rd_bytes r) of
        (s, Inl e) \<Rightarrow> (s, Inl e)
      | (s, Inr n) \<Rightarrow> (case rd_err r of Some e \<Rightarrow> (s, Inl e) | None \<Rightarrow> (s, Inr n)))"

definition Close :: "fsys \<Rightarrow> fsys \<times> (goerr + unit)" where
  "Close s = syscall s (\<lambda>s. (s, Inr ()))"

text \<open>\<open>os.Link\<close>: the new name shares the inode.\<close>

definition Link :: "fsys \<Rightarrow> path \<Rightarrow> path \<Rightarrow> fsys \<times> (goerr + unit)" where
  "Link s old new = syscall s (\<lambda>s.
     case lookup s old of
       None \<Rightarrow> (s, Inl ErrNotExist)
     | Some DirNode \<Rightarrow> (s, Inl ErrIsDir)
     | Some n \<Rightarrow>
         if lookup s new \<noteq> None then (s, Inl ErrExist)
         else if \<not> is_dir s (parent new) then (s, Inl ErrNotExist)
         else (set_node s new n, Inr ()))"

definition Symlink :: "fsys \<Rightarrow> string \<Rightarrow> path \<Rightarrow> fsys \<times> (goerr + unit)" where
  "Symlink s target new = syscall s (\<lambda>s.
     if lookup s new \<noteq> None then (s, Inl ErrExist)
     else if \<not> is_dir s (parent new) then (s, Inl ErrNotExist)
     else (set_node s new (SymNode target (Now s)), Inr ()))"

text \<open>
  \<open>os.Rename\<close> of a file: it replaces the target, and does nothing when both names already are the
  same file.
\<close>

definition Rename :: "fsys \<Rightarrow> path \<Rightarrow> path \<Rightarrow> fsys \<times> (goerr + unit)" where
  "Rename s old new = syscall s (\<lambda>s.
     case lookup s old of
       None \<Rightarrow> (s, Inl ErrNotExist)
     | Some n \<Rightarrow>
         if lookup s new = Some n then (s, Inr ())
         else if lookup s new = Some DirNode then (s, Inl ErrExist)
         else if \<not> is_dir s (parent new) then (s, Inl ErrNotExist)
         else (set_node (del_node s old) new n, Inr ()))"

text \<open>\<open>os.Remove\<close>: a file, a link or an empty directory.\<close>

definition has_children :: "fsys \<Rightarrow> path \<Rightarrow> bool" where
  "has_children s p \<longleftrightarrow> (\<exists>e \<in> set (nodes s). comps (fst e) \<noteq> [] \<and> parent (fst e) = p)"

definition Remove :: "fsys \<Rightarrow> path \<Rightarrow> fsys \<times> (goerr + unit)" where
  "Remove s p = syscall s (\<lambda>s.
     case lookup s p of
       None \<Rightarrow> (s, Inl ErrNotExist)
     | Some n \<Rightarrow>
         if n = DirNode \<and> has_children s p then (s, Inl (ErrSys 39))
         else (del_node s p, Inr ()))"

section \<open>Lemmas on paths\<close>

lemma split_on_plain: "d \<notin> set s \<Longrightarrow> split_on d s = [s]"
  by (induction s) auto

lemma Clean_snoc: "plain c \<Longrightarrow> Clean r (cs @ [c]) = Clean r cs @ [c]"
  by (simp add: Clean_def plain_def)

lemma Join_plain:
  "clean_path p \<Longrightarrow> plain c \<Longrightarrow> Join p c = Path (rooted p) (comps p @ [c])"
  by (simp add: Join_def clean_path_def Clean_snoc) (simp add: plain_def split_on_plain Clean_snoc)

lemma clean_path_snoc [simp]:
  "clean_path p \<Longrightarrow> plain c \<Longrightarrow> clean_path (Path (rooted p) (comps p @ [c]))"
  by (simp add: clean_path_def Clean_snoc)

lemma clean_path_Join: "clean_path p \<Longrightarrow> plain c \<Longrightarrow> clean_path (Join p c)"
  by (simp add: Join_plain)

lemma digits_less: "d \<in> set (digits n) \<Longrightarrow> d < 10"
proof (induction n rule: digits.induct)
  case (1 n)
  then show ?case by (subst (asm) (2) digits.simps) (auto split: if_splits)
qed

lemma show_nat_digits: "c \<in> set (show_nat n) \<Longrightarrow> \<exists>k < 10. c = char_of (48 + k :: nat)"
  using digits_less by (auto simp: show_nat_def)

lemma show_nat_plain: "CHR ''/'' \<notin> set (show_nat n)"
proof
  assume "CHR ''/'' \<in> set (show_nat n)"
  then obtain k :: nat where k: "k < 10" "CHR ''/'' = char_of (48 + k)" using show_nat_digits by blast
  from k(2) have "of_char (CHR ''/'') = (48 + k) mod 256" by simp
  with k(1) show False by simp
qed

lemma digits_value: "foldl (\<lambda>a d. 10 * a + d) 0 (digits n) = n"
proof (induction n rule: digits.induct)
  case (1 n)
  then show ?case by (subst digits.simps) auto
qed

lemma of_char_digit: "x < 10 \<Longrightarrow> of_char (char_of (48 + x) :: char) = (48 + x :: nat)"
  by simp

lemma show_nat_inject: "show_nat a = show_nat b \<longleftrightarrow> a = b"
proof
  assume eq: "show_nat a = show_nat b"
  have "inj_on (\<lambda>d :: nat. char_of (48 + d) :: char) (set (digits a) \<union> set (digits b))"
  proof (rule inj_onI)
    fix x y assume "x \<in> set (digits a) \<union> set (digits b)" "y \<in> set (digits a) \<union> set (digits b)"
    then have "x < 10" "y < 10" using digits_less by blast+
    moreover assume "char_of (48 + x) = (char_of (48 + y) :: char)"
    ultimately show "x = y" using of_char_digit by (metis add_left_cancel)
  qed
  then have "digits a = digits b" using eq unfolding show_nat_def by (metis map_inj_on)
  then show "a = b" by (metis digits_value)
qed simp

lemma show_nat_not: "(of_char c :: nat) < 48 \<or> 57 < (of_char c :: nat) \<Longrightarrow> c \<notin> set (show_nat n)"
  using show_nat_digits [of c n] of_char_digit by fastforce

lemma show_nat_port:
  "CHR '':'' \<notin> set (show_nat n)" "CHR ''['' \<notin> set (show_nat n)" "CHR '']'' \<notin> set (show_nat n)"
  by (simp_all add: show_nat_not)

section \<open>Lemmas on the file system\<close>

declare Stat_def [os_defs] Open_def [os_defs] on_file_def [os_defs] Chmod_def [os_defs]
  Chtimes_def [os_defs] CreateTemp_def [os_defs] Create_def [os_defs] Close_def [os_defs]
  Link_def [os_defs] Symlink_def [os_defs] Rename_def [os_defs] Remove_def [os_defs]

lemma lookup_sysno [simp]: "lookup (s\<lparr>sysno := n\<rparr>) = lookup s"
  by (simp add: lookup_def fun_eq_iff)

lemma lookup_inodes [simp]: "lookup (s\<lparr>inodes := f\<rparr>) = lookup s" "lookup (s\<lparr>next_ino := n\<rparr>) = lookup s"
  by (simp_all add: lookup_def fun_eq_iff)

lemma lookup_set_node [simp]: "lookup (set_node s p n) = (lookup s)(p \<mapsto> n)"
  by (simp add: lookup_def set_node_def update_conv' fun_eq_iff)

lemma lookup_del_node [simp]: "lookup (del_node s p) = (lookup s)(p := None)"
  by (simp add: lookup_def del_node_def delete_conv' fun_eq_iff)

lemma lookup_upd_inode [simp]: "lookup (upd_inode s i f) = lookup s"
  by (simp add: upd_inode_def)

lemma set_node_simps [simp]:
  "inodes (set_node s p n) = inodes s" "next_ino (set_node s p n) = next_ino s"
  "fault (set_node s p n) = fault s" "sysno (set_node s p n) = sysno s"
  by (simp_all add: set_node_def)

lemma del_node_simps [simp]:
  "inodes (del_node s p) = inodes s" "next_ino (del_node s p) = next_ino s"
  "fault (del_node s p) = fault s" "sysno (del_node s p) = sysno s"
  by (simp_all add: del_node_def)

lemma upd_inode_simps [simp]:
  "inodes (upd_inode s i f) = (inodes s)(i := map_option f (inodes s i))"
  "next_ino (upd_inode s i f) = next_ino s"
  "fault (upd_inode s i f) = fault s" "sysno (upd_inode s i f) = sysno s"
  by (simp_all add: upd_inode_def)

lemma new_file_simps [simp]:
  "lookup (new_file s p m) = (lookup s)(p \<mapsto> RegNode (next_ino s))"
  "inodes (new_file s p m) = (inodes s)(next_ino s \<mapsto> \<lparr>content = [], mode = m, atime = Now s\<rparr>)"
  "next_ino (new_file s p m) = Suc (next_ino s)"
  "fault (new_file s p m) = fault s" "sysno (new_file s p m) = sysno s"
  by (simp_all add: new_file_def)

text \<open>
  What a call leaves alone: \<open>kept P I s t\<close> says that from \<open>s\<close> to \<open>t\<close> only the paths in \<open>P\<close> and
  the inodes in \<open>I\<close> changed.
\<close>

definition kept :: "path set \<Rightarrow> nat set \<Rightarrow> fsys \<Rightarrow> fsys \<Rightarrow> bool" where
  "kept P I s t \<longleftrightarrow>
     (\<forall>p. p \<notin> P \<longrightarrow> lookup t p = lookup s p) \<and> (\<forall>i. i \<notin> I \<longrightarrow> inodes t i = inodes s i) \<and>
     next_ino s \<le> next_ino t \<and> fault t = fault s"

lemma kept_refl [simp]: "kept P I s s"
  by (simp add: kept_def)

lemma kept_trans: "kept P I s t \<Longrightarrow> kept P' I' t u \<Longrightarrow> kept (P \<union> P') (I \<union> I') s u"
  by (auto simp: kept_def)

lemma kept_mono: "kept P I s t \<Longrightarrow> P \<subseteq> P' \<Longrightarrow> I \<subseteq> I' \<Longrightarrow> kept P' I' s t"
  by (auto simp: kept_def)

lemma kept_trans' [trans]: "kept P I s t \<Longrightarrow> kept P I t u \<Longrightarrow> kept P I s u"
  using kept_trans [of P I s t P I u] by simp

text \<open>Every regular file has its inode, and inode numbers are below the next one.\<close>

definition fs_wf :: "fsys \<Rightarrow> bool" where
  "fs_wf s \<longleftrightarrow>
     (\<forall>p i. lookup s p = Some (RegNode i) \<longrightarrow> i < next_ino s \<and> inodes s i \<noteq> None)"

lemma kept_syscall:
  assumes "kept P I (s\<lparr>sysno := Suc (sysno s)\<rparr>) (fst (f (s\<lparr>sysno := Suc (sysno s)\<rparr>)))"
  shows "kept P I s (fst (syscall s f))"
  using assms by (auto simp: syscall_def kept_def Let_def split: option.splits)

lemma Stat_kept: "kept {} {} s (fst (Stat s p))"
  unfolding Stat_def by (rule kept_syscall) (auto split: sum.splits option.splits)

lemma Open_kept: "kept {} {} s (fst (Open s p))"
  unfolding Open_def by (rule kept_syscall) (auto split: sum.splits option.splits node.splits)

lemma read_handle_kept: "kept {} {} s (fst (read_handle s h))"
  by (auto simp: read_handle_def kept_def Let_def split: handle.splits option.splits)

lemma Close_kept: "kept {} {} s (fst (Close s))"
  unfolding Close_def by (rule kept_syscall) simp

lemma Remove_kept: "kept {p} {} s (fst (Remove s p))"
  unfolding Remove_def by (rule kept_syscall) (auto simp: kept_def split: option.splits)

lemma Rename_kept: "kept {old, new} {} s (fst (Rename s old new))"
  unfolding Rename_def by (rule kept_syscall) (auto simp: kept_def split: option.splits)

lemma Link_kept: "kept {new} {} s (fst (Link s old new))"
  unfolding Link_def by (rule kept_syscall) (auto simp: kept_def split: option.splits node.splits)

lemma temp_name_Some:
  "temp_name tries k s dir prefix = Some p \<Longrightarrow>
     lookup s p = None \<and> (\<exists>n. p = Join dir (prefix @ show_nat n))"
  by (induction tries arbitrary: k) (auto simp: Let_def split: if_splits)

lemma syscall_Inr:
  "syscall s f = (t, Inr x) \<longleftrightarrow>
     fault s (sysno s) = None \<and> f (s\<lparr>sysno := Suc (sysno s)\<rparr>) = (t, Inr x)"
  by (auto simp: syscall_def Let_def split: option.splits)

lemma CreateTemp_kept:
  assumes "CreateTemp s dir prefix = (t, Inr (p, i))"
  shows "kept {p} {next_ino s} s t" "lookup s p = None" "i = next_ino s" "lookup t p = Some (RegNode i)"
    "inodes t i = Some \<lparr>content = [], mode = 384, atime = Now (s\<lparr>sysno := Suc (sysno s)\<rparr>)\<rparr>"
    "\<exists>n. p = Join dir (prefix @ show_nat n)" "is_dir s dir" "next_ino t = Suc (next_ino s)"
  using assms
  by (auto simp: CreateTemp_def syscall_Inr kept_def is_dir_def simp del: temp_name.simps
      dest: temp_name_Some split: if_splits option.splits)

lemma CreateTemp_Inl: "CreateTemp s dir prefix = (t, Inl e) \<Longrightarrow> kept {} {} s t"
  by (auto simp: CreateTemp_def syscall_def kept_def Let_def simp del: temp_name.simps
      split: if_splits option.splits)

lemma Write_kept: "kept {} {i} s (fst (Write s i data))"
  by (auto simp: Write_def syscall_def kept_def Let_def split: option.splits)

lemma Copy_kept: "kept {} {i} s (fst (Copy s i rd))"
  using Write_kept [of i s "rd_bytes rd"]
  by (auto simp: Copy_def split: prod.splits sum.splits option.splits)

lemma Copy_Inr:
  assumes "Copy s i rd = (t, Inr n)" "inodes s i = Some ino"
  shows "n = length (rd_bytes rd)" "rd_err rd = None"
    "inodes t i = Some (ino\<lparr>content := content ino @ rd_bytes rd\<rparr>)" "lookup t = lookup s"
    "next_ino t = next_ino s"
  using assms
  by (auto simp: Copy_def Write_def syscall_def Let_def split: option.splits prod.splits sum.splits)

lemma Rename_Inr:
  assumes "Rename s old new = (t, Inr u)" "lookup s old = Some n" "old \<noteq> new"
  shows "lookup t = (if lookup s new = Some n then lookup s else (lookup s)(old := None, new \<mapsto> n))"
    "inodes t = inodes s" "next_ino t = next_ino s"
  using assms by (auto simp: Rename_def syscall_Inr split: if_splits)

lemma Rename_Inl: "Rename s old new = (t, Inl e) \<Longrightarrow> kept {} {} s t"
  by (auto simp: Rename_def syscall_def kept_def Let_def split: if_splits option.splits)

text \<open>On a path that is no symbolic link the calls that follow links act on the path itself.\<close>

lemma follow_self: "(\<forall>t a. lookup s p \<noteq> Some (SymNode t a)) \<Longrightarrow> follow 40 s p = Inr p"
  by (simp add: numeral_eq_Suc split: option.splits node.splits)

lemma on_file_reg:
  assumes "lookup s p = Some (RegNode i)" "comps p \<noteq> []"
  shows "on_file f s p =
    (let u = s\<lparr>sysno := Suc (sysno s)\<rparr>
     in case fault s (sysno s) of Some e \<Rightarrow> (u, Inl e) | None \<Rightarrow> (upd_inode u i f, Inr ()))"
proof -
  have "follow 40 (s\<lparr>sysno := Suc (sysno s)\<rparr>) p = Inr p" using assms(1) by (intro follow_self) simp_all
  with assms show ?thesis by (simp add: on_file_def syscall_def is_dir_def Let_def split: option.splits)
qed

text \<open>\<open>MkdirAll\<close> adds missing directories on the way to its argument and changes nothing else.\<close>

lemma mkdirs_rest:
  "mkdirs s r pre cs = (t, res) \<Longrightarrow> inodes t = inodes s \<and> next_ino t = next_ino s \<and> fault t = fault s"
proof (induction cs arbitrary: s pre)
  case Nil
  then show ?case by simp
next
  case (Cons c cs)
  from Cons.prems show ?case
    by (auto simp: Let_def syscall_def dest!: Cons.IH split: option.splits node.splits)
qed

definition below :: "bool \<Rightarrow> string list \<Rightarrow> string list \<Rightarrow> path \<Rightarrow> bool" where
  "below r pre cs p \<longleftrightarrow> rooted p = r \<and> (\<exists>k. 0 < k \<and> k \<le> length cs \<and> comps p = pre @ take k cs)"

lemma below_Cons: "below r (pre @ [c]) cs p \<Longrightarrow> below r pre (c # cs) p"
  by (auto simp: below_def intro: exI [of _ "Suc _"])

lemma below_here [simp]: "below r pre (c # cs) (Path r (pre @ [c]))"
  by (auto simp: below_def intro: exI [of _ 1])

lemma mkdirs_lookup:
  "mkdirs s r pre cs = (t, res) \<Longrightarrow>
     lookup t p = lookup s p \<or> lookup s p = None \<and> lookup t p = Some DirNode \<and> below r pre cs p"
proof (induction cs arbitrary: s pre)
  case Nil
  then show ?case by simp
next
  case (Cons c cs)
  let ?q = "Path r (pre @ [c])" and ?u = "s\<lparr>sysno := Suc (sysno s)\<rparr>"
  consider "t = s" | "t = ?u" | "mkdirs s r (pre @ [c]) cs = (t, res)"
    | "lookup s ?q = None" "mkdirs (set_node ?u ?q DirNode) r (pre @ [c]) cs = (t, res)"
    using Cons.prems by (auto simp: Let_def syscall_def split: option.splits node.splits)
  then show ?case
  proof cases
    case 3
    from Cons.IH [OF this] show ?thesis using below_Cons by blast
  next
    case 4
    from Cons.IH [OF 4(2)] 4(1) show ?thesis
      by (cases "p = ?q") (auto intro: below_Cons)
  qed simp_all
qed

lemma mkdirs_keeps: "mkdirs s r pre cs = (t, res) \<Longrightarrow> lookup s p = Some n \<Longrightarrow> lookup t p = Some n"
  using mkdirs_lookup [of s r pre cs t res p] by auto

lemma mkdirs_made:
  "mkdirs s r pre cs = (t, Inr ()) \<Longrightarrow> cs \<noteq> [] \<Longrightarrow> lookup t (Path r (pre @ cs)) = Some DirNode"
proof (induction cs arbitrary: s pre)
  case Nil
  then show ?case by simp
next
  case (Cons c cs)
  let ?q = "Path r (pre @ [c])" and ?u = "s\<lparr>sysno := Suc (sysno s)\<rparr>"
  consider "lookup s ?q = Some DirNode" "mkdirs s r (pre @ [c]) cs = (t, Inr ())"
    | "mkdirs (set_node ?u ?q DirNode) r (pre @ [c]) cs = (t, Inr ())"
    using Cons.prems(1) by (auto simp: Let_def syscall_def split: option.splits node.splits)
  then show ?case
  proof cases
    case 1
    then show ?thesis using Cons.IH [OF 1(2)] mkdirs_keeps [OF 1(2,1)] by (cases "cs = []") simp_all
  next
    case 2
    then show ?thesis using Cons.IH [OF 2] mkdirs_keeps [OF 2, of ?q DirNode] by (cases "cs = []") auto
  qed
qed

lemma MkdirAll_frame:
  assumes "MkdirAll s d = (t, res)"
  shows "inodes t = inodes s" "next_ino t = next_ino s" "fault t = fault s"
    "lookup t p = lookup s p \<or> lookup s p = None \<and> lookup t p = Some DirNode \<and> below (rooted d) [] (comps d) p"
    "res = Inr () \<Longrightarrow> is_dir t d"
proof -
  have m: "mkdirs s (rooted d) [] (comps d) = (t, res)" using assms by (simp add: MkdirAll_def)
  from mkdirs_rest [OF m] show "inodes t = inodes s" "next_ino t = next_ino s" "fault t = fault s" by simp_all
  from mkdirs_lookup [OF m] show "lookup t p = lookup s p \<or>
      lookup s p = None \<and> lookup t p = Some DirNode \<and> below (rooted d) [] (comps d) p" .
  show "is_dir t d" if "res = Inr ()"
    using mkdirs_made [of s "rooted d" "[]" "comps d" t] m that by (auto simp: is_dir_def)
qed

end
