(* ===== verification/LocalStore.thy ===== *)
theory LocalStore
  imports OS
begin

text \<open>
  The stores of \<^verbatim>\<open>pkg/storage\<close>: \<open>LocalStore\<close> (\<^verbatim>\<open>local.go\<close>), which keeps blobs and action results
  as files under a root directory, \<open>NullStore\<close> (\<^verbatim>\<open>null.go\<close>), and the \<open>BlobStore\<close> interface
  (\<^verbatim>\<open>storage.go\<close>) as a locale. A store operation is \<open>Panic\<close> where the code panics (slicing a hash
  shorter than four characters), and otherwise returns the new state with a value or an error.
\<close>

section \<open>LocalStore\<close>

text \<open>
  The disk is part of the store's state. \<open>onPutCallback\<close> says whether a callback is set, and
  \<open>notified\<close> counts its calls.
\<close>

record LocalStore =
  rootDir :: path
  forceUpdateATime :: bool
  onPutCallback :: bool
  disk :: fsys
  notified :: nat

definition NewLocalStore :: "fsys \<Rightarrow> path \<Rightarrow> bool \<Rightarrow> fsys \<times> (goerr + LocalStore)" where
  "NewLocalStore s root force =
     (case MkdirAll s (Join root ''cas'') of
        (s, Inl e) \<Rightarrow> (s, Inl e)
      | (s, Inr _) \<Rightarrow>
          (case MkdirAll s (Join root ''ac'') of
             (s, Inl e) \<Rightarrow> (s, Inl e)
           | (s, Inr _) \<Rightarrow>
               (s, Inr \<lparr>rootDir = root, forceUpdateATime = force, onPutCallback = False,
                        disk = s, notified = 0\<rparr>)))"

definition SetOnPutCallback :: "LocalStore \<Rightarrow> LocalStore" where
  "SetOnPutCallback s = s\<lparr>onPutCallback := True\<rparr>"

definition fire :: "LocalStore \<Rightarrow> LocalStore" where
  "fire s = (if onPutCallback s then s\<lparr>notified := Suc (notified s)\<rparr> else s)"

definition entryPath :: "string \<Rightarrow> LocalStore \<Rightarrow> Digest \<Rightarrow> path outcome" where
  "entryPath kind s d =
     (if length (Hash d) < 4 then Panic
      else Return (JoinAll (rootDir s) [kind, take 2 (Hash d), take 2 (drop 2 (Hash d)), Hash d]))"

definition BlobPath :: "LocalStore \<Rightarrow> Digest \<Rightarrow> path outcome" where
  "BlobPath s d = entryPath ''cas'' s d"

definition getActionPath :: "LocalStore \<Rightarrow> Digest \<Rightarrow> path outcome" where
  "getActionPath s d = entryPath ''ac'' s d"

text \<open>\<open>_ = os.Chtimes(path, now, now)\<close>, where \<open>forceUpdateATime\<close> is set.\<close>

definition touch :: "LocalStore \<Rightarrow> fsys \<Rightarrow> path \<Rightarrow> fsys" where
  "touch s t path = (if forceUpdateATime s then fst (Chtimes (Now t) t path) else t)"

definition Has :: "LocalStore \<Rightarrow> Digest \<Rightarrow> (LocalStore \<times> (goerr + bool)) outcome" where
  "Has s d = bindo (BlobPath s d) (\<lambda>path. Return
     (case Stat (disk s) path of
        (t, Inl e) \<Rightarrow> (s\<lparr>disk := t\<rparr>, if IsNotExist e then Inr False else Inl e)
      | (t, Inr _) \<Rightarrow> (s\<lparr>disk := touch s t path\<rparr>, Inr True)))"

text \<open>The reader that \<open>Get\<close> returns is the opened file, read to its end.\<close>

definition Get :: "LocalStore \<Rightarrow> Digest \<Rightarrow> (LocalStore \<times> (goerr + reader)) outcome" where
  "Get s d = bindo (BlobPath s d) (\<lambda>path. Return
     (case Open (disk s) path of
        (t, Inl e) \<Rightarrow> (s\<lparr>disk := t\<rparr>, Inl e)
      | (t, Inr f) \<Rightarrow>
          (case read_handle (touch s t path) f of (u, rd) \<Rightarrow> (s\<lparr>disk := u\<rparr>, Inr rd))))"

text \<open>
  The deferred cleanup of \<open>Put\<close> and \<open>UpdateActionResult\<close>: close the file and remove the temporary
  name, ignoring the errors. Closing a closed file does nothing.
\<close>

definition cleanup_temp :: "fsys \<Rightarrow> path \<Rightarrow> fsys" where
  "cleanup_temp s tmp = fst (Remove (fst (Close s)) tmp)"

text \<open>\<open>Put\<close> after the temporary file is made, up to the deferred cleanup.\<close>

definition put_body :: "fsys \<Rightarrow> path \<Rightarrow> path \<Rightarrow> nat \<Rightarrow> Digest \<Rightarrow> reader \<Rightarrow> fsys \<times> goerr option" where
  "put_body s path tmp f d data =
     (case Copy s f data of
        (s, Inl e) \<Rightarrow> (s, Some (Wrap ''failed to write data'' e))
      | (s, Inr n) \<Rightarrow>
          if int n \<noteq> Size d then (s, Some (Errorf ''digest size mismatch''))
          else (case Close s of
             (s, Inl e) \<Rightarrow> (s, Some (Wrap ''failed to close temp file'' e))
           | (s, Inr _) \<Rightarrow>
               (case Rename s tmp path of
                  (s, Inl e) \<Rightarrow> (s, Some (Wrap ''failed to rename temp file'' e))
                | (s, Inr _) \<Rightarrow>
                    (case Chmod 292 s path of
                       (s, Inl e) \<Rightarrow> (s, Some (Wrap ''failed to make file read-only'' e))
                     | (s, Inr _) \<Rightarrow> (s, None)))))"

text \<open>
  The callback runs before the deferred cleanup; it only signals the janitor, so the two are
  exchanged here.
\<close>

definition Put :: "LocalStore \<Rightarrow> Digest \<Rightarrow> reader \<Rightarrow> (LocalStore \<times> goerr option) outcome" where
  "Put s d data = bindo (BlobPath s d) (\<lambda>path. Return
     (case MkdirAll (disk s) (parent path) of
        (t, Inl e) \<Rightarrow> (s\<lparr>disk := t\<rparr>, Some (Wrap ''failed to create directory'' e))
      | (t, Inr _) \<Rightarrow>
          (case CreateTemp t (parent path) ''cas-tmp-'' of
             (t, Inl e) \<Rightarrow> (s\<lparr>disk := t\<rparr>, Some (Wrap ''failed to create temp file'' e))
           | (t, Inr (tmp, f)) \<Rightarrow>
               (case put_body t path tmp f d data of
                  (t, Some e) \<Rightarrow> (s\<lparr>disk := cleanup_temp t tmp\<rparr>, Some e)
                | (t, None) \<Rightarrow> (fire (s\<lparr>disk := cleanup_temp t tmp\<rparr>), None)))))"

section \<open>Hard-linking a file into the store\<close>

text \<open>The fallback of \<open>PutFile\<close> when the hard link cannot be made: copy the source to the temporary name.\<close>

definition copy_fallback :: "fsys \<Rightarrow> path \<Rightarrow> path \<Rightarrow> fsys \<times> goerr option" where
  "copy_fallback s sourcePath tmp =
     (case Open s sourcePath of
        (s, Inl e) \<Rightarrow> (s, Some e)
      | (s, Inr src) \<Rightarrow>
          (case Create s tmp of
             (s, Inl e) \<Rightarrow> (s, Some e)
           | (s, Inr dst) \<Rightarrow>
               (case read_handle s src of
                  (s, rd) \<Rightarrow>
                    (case Copy s dst rd of
                       (s, Inl e) \<Rightarrow> (s, Some e)
                     | (s, Inr _) \<Rightarrow>
                         (case Close s of
                            (s, Inl e) \<Rightarrow> (s, Some e)
                          | (s, Inr _) \<Rightarrow>
                              (case Chmod 292 s tmp of
                                 (s, Inl e) \<Rightarrow>
                                   (s, Some (Wrap ''failed to set read-only permissions on copied file'' e))
                               | (s, Inr _) \<Rightarrow> (s, None)))))))"

text \<open>The two ways \<open>PutFile\<close> fills the temporary name, with the error of the method.\<close>

definition link_or_copy :: "fsys \<Rightarrow> path \<Rightarrow> path \<Rightarrow> fsys \<times> goerr option" where
  "link_or_copy s sourcePath tmp =
     (case Link s sourcePath tmp of
        (s, Inr _) \<Rightarrow>
          (case Chmod 292 s tmp of
             (s, Inl e) \<Rightarrow> (s, Some (Wrap ''failed to set read-only permissions on hardlinked file'' e))
           | (s, Inr _) \<Rightarrow> (s, None))
      | (s, Inl linkErr) \<Rightarrow> copy_fallback s sourcePath tmp)"

text \<open>The deferred removal of the temporary name, where it still exists.\<close>

definition cleanup_link :: "fsys \<Rightarrow> path \<Rightarrow> fsys" where
  "cleanup_link s tmp =
     (case Stat s tmp of (s, Inr _) \<Rightarrow> fst (Remove s tmp) | (s, Inl _) \<Rightarrow> s)"

definition PutFile :: "LocalStore \<Rightarrow> Digest \<Rightarrow> path \<Rightarrow> (LocalStore \<times> goerr option) outcome" where
  "PutFile s d sourcePath = bindo (BlobPath s d) (\<lambda>path. Return
     (case Stat (disk s) path of
        (t, Inr _) \<Rightarrow> (s\<lparr>disk := touch s t path\<rparr>, None)
      | (t, Inl _) \<Rightarrow>
          (case MkdirAll t (parent path) of
             (t, Inl e) \<Rightarrow> (s\<lparr>disk := t\<rparr>, Some (Wrap ''failed to create directory'' e))
           | (t, Inr _) \<Rightarrow>
               (let tmp = Join (parent path)
                            (''cas-tmp-putfile-'' @ show_int (Now t) @ ''-'' @ Hash d)
                in case link_or_copy t sourcePath tmp of
                     (t, Some e) \<Rightarrow> (s\<lparr>disk := cleanup_link t tmp\<rparr>, Some e)
                   | (t, None) \<Rightarrow>
                       (case Rename t tmp path of
                          (t, Inl e) \<Rightarrow>
                            (s\<lparr>disk := cleanup_link t tmp\<rparr>,
                             Some (Wrap ''failed to rename temp file to final path'' e))
                        | (t, Inr _) \<Rightarrow> (fire (s\<lparr>disk := cleanup_link t tmp\<rparr>), None))))))"

section \<open>The action cache\<close>

text \<open>
  \<open>proto.Marshal\<close> and \<open>proto.Unmarshal\<close> on action results are library code.
\<close>

record arcodec =
  marshal_ar :: "ActionResult \<Rightarrow> goerr + bytes"
  unmarshal_ar :: "bytes \<Rightarrow> goerr + ActionResult"

definition GetActionResult ::
  "arcodec \<Rightarrow> LocalStore \<Rightarrow> Digest \<Rightarrow> (LocalStore \<times> (goerr + ActionResult)) outcome" where
  "GetActionResult P s d = bindo (getActionPath s d) (\<lambda>path. Return
     (case ReadFile (disk s) path of
        (t, Inl e) \<Rightarrow> (s\<lparr>disk := t\<rparr>, Inl e)
      | (t, Inr data) \<Rightarrow> (s\<lparr>disk := t\<rparr>, unmarshal_ar P data)))"

definition ac_body :: "fsys \<Rightarrow> path \<Rightarrow> path \<Rightarrow> nat \<Rightarrow> bytes \<Rightarrow> fsys \<times> goerr option" where
  "ac_body s path tmp f data =
     (case OS.Write s f data of
        (s, Inl e) \<Rightarrow> (s, Some e)
      | (s, Inr _) \<Rightarrow>
          (case Close s of
             (s, Inl e) \<Rightarrow> (s, Some e)
           | (s, Inr _) \<Rightarrow>
               (case Rename s tmp path of
                  (s, Inl e) \<Rightarrow> (s, Some e)
                | (s, Inr _) \<Rightarrow> (s, None))))"

definition UpdateActionResult ::
  "arcodec \<Rightarrow> LocalStore \<Rightarrow> Digest \<Rightarrow> ActionResult \<Rightarrow> (LocalStore \<times> goerr option) outcome" where
  "UpdateActionResult P s d result =
     (case marshal_ar P result of
        Inl e \<Rightarrow> Return (s, Some e)
      | Inr data \<Rightarrow> bindo (getActionPath s d) (\<lambda>path. Return
          (case MkdirAll (disk s) (parent path) of
             (t, Inl e) \<Rightarrow> (s\<lparr>disk := t\<rparr>, Some e)
           | (t, Inr _) \<Rightarrow>
               (case CreateTemp t (parent path) ''ac-tmp-'' of
                  (t, Inl e) \<Rightarrow> (s\<lparr>disk := t\<rparr>, Some e)
                | (t, Inr (tmp, f)) \<Rightarrow>
                    (case ac_body t path tmp f data of
                       (t, Some e) \<Rightarrow> (s\<lparr>disk := cleanup_temp t tmp\<rparr>, Some e)
                     | (t, None) \<Rightarrow> (fire (s\<lparr>disk := cleanup_temp t tmp\<rparr>), None))))))"

section \<open>NullStore\<close>

text \<open>A store without state. \<open>Put\<close> drains the reader.\<close>

definition null_Has :: "unit \<Rightarrow> Digest \<Rightarrow> (unit \<times> (goerr + bool)) outcome" where
  "null_Has s d = Return (s, Inr False)"

definition null_Get :: "unit \<Rightarrow> Digest \<Rightarrow> (unit \<times> (goerr + reader)) outcome" where
  "null_Get s d = Return (s, Inl ErrNotExist)"

definition null_Put :: "unit \<Rightarrow> Digest \<Rightarrow> reader \<Rightarrow> (unit \<times> goerr option) outcome" where
  "null_Put s d data = Return (s, rd_err data)"

definition null_GetActionResult :: "unit \<Rightarrow> Digest \<Rightarrow> (unit \<times> (goerr + ActionResult)) outcome" where
  "null_GetActionResult s d = Return (s, Inl (Status NotFound ''not found''))"

definition null_UpdateActionResult :: "unit \<Rightarrow> Digest \<Rightarrow> ActionResult \<Rightarrow> (unit \<times> goerr option) outcome" where
  "null_UpdateActionResult s d result = Return (s, None)"

lemma JoinAll_plain:
  "clean_path p \<Longrightarrow> list_all plain ss \<Longrightarrow>
     JoinAll p ss = Path (rooted p) (comps p @ ss) \<and> clean_path (Path (rooted p) (comps p @ ss))"
proof (induction ss arbitrary: p)
  case Nil
  then show ?case by (cases p) (simp add: JoinAll_def)
next
  case (Cons c ss)
  then have "JoinAll p (c # ss) = JoinAll (Path (rooted p) (comps p @ [c])) ss"
    by (simp add: JoinAll_def Join_plain)
  with Cons.IH [of "Path (rooted p) (comps p @ [c])"] Cons.prems show ?case by simp
qed

section \<open>Where blobs live\<close>

definition hexdigit :: "char \<Rightarrow> bool" where
  "hexdigit c \<longleftrightarrow> c \<in> set ''0123456789abcdefABCDEF''"

text \<open>A hash as digests have it: hexadecimal, and long enough to be sliced.\<close>

definition hexhash :: "string \<Rightarrow> bool" where
  "hexhash h \<longleftrightarrow> 4 \<le> length h \<and> list_all hexdigit h"

definition entry_at :: "string \<Rightarrow> path \<Rightarrow> string \<Rightarrow> path" where
  "entry_at kind root h = Path (rooted root) (comps root @ [kind, take 2 h, take 2 (drop 2 h), h])"

lemma plainI: "x \<in> set c \<Longrightarrow> x \<noteq> CHR ''.'' \<Longrightarrow> CHR ''/'' \<notin> set c \<Longrightarrow> plain c"
  by (auto simp: plain_def)

lemma plain_hex: "list_all hexdigit h \<Longrightarrow> h \<noteq> [] \<Longrightarrow> plain h"
  by (cases h) (auto simp: plain_def list_all_iff hexdigit_def)

lemma hexhash_parts:
  assumes "hexhash h"
  shows "plain h" "plain (take 2 h)" "plain (take 2 (drop 2 h))" "\<not> length h < 4"
proof -
  from assms have h: "4 \<le> length h" "list_all hexdigit h" by (auto simp: hexhash_def)
  have "list_all hexdigit (take 2 h)" "list_all hexdigit (take 2 (drop 2 h))"
    using h(2) by (auto simp: list_all_iff dest: in_set_takeD in_set_dropD)
  with h show "plain h" "plain (take 2 h)" "plain (take 2 (drop 2 h))" "\<not> length h < 4"
    by (auto intro!: plain_hex)
qed

lemma hex_no_dash: "hexhash h \<Longrightarrow> CHR ''-'' \<notin> set h"
  using hexdigit_def [of "CHR ''-''"] by (auto simp: hexhash_def list_all_iff)

lemma entryPath_hex:
  assumes "clean_path (rootDir s)" "hexhash (Hash d)" "plain kind"
  shows "entryPath kind s d = Return (entry_at kind (rootDir s) (Hash d))"
  using assms hexhash_parts [OF assms(2)] by (simp add: entryPath_def entry_at_def JoinAll_plain)

lemma plain_kinds [simp]: "plain ''cas''" "plain ''ac''"
  by (simp_all add: plain_def)

lemma comps_entry_at [simp]: "comps (entry_at kind root h) \<noteq> []"
  by (simp add: entry_at_def)

lemma entry_at_inject [simp]: "entry_at k root h = entry_at k' root h' \<longleftrightarrow> k = k' \<and> h = h'"
  by (auto simp: entry_at_def)

text \<open>A temporary name is never the name of an entry, and neither is a directory of the store.\<close>

lemma temp_not_entry:
  assumes "clean_path root" "hexhash h" "plain kind" "hexhash h'"
    and "p = Join (parent (entry_at kind root h)) (pre @ show_nat n)"
    and "CHR ''-'' \<in> set pre" "CHR ''/'' \<notin> set pre"
  shows "p \<noteq> entry_at kind' root h'"
proof -
  have "plain (pre @ show_nat n)" 
    by (rule plainI [of "CHR ''-''"]) (use assms(6,7) show_nat_plain [of n] in simp_all)
  moreover have "clean_path (parent (entry_at kind root h))"
    using assms(1,3) hexhash_parts [OF assms(2)]
    by (simp add: entry_at_def parent_def butlast_append JoinAll_plain)
  ultimately have "last (comps p) = pre @ show_nat n" by (simp add: assms(5) Join_plain)
  moreover have "CHR ''-'' \<notin> set (last (comps (entry_at kind' root h')))"
    using hex_no_dash [OF assms(4)] by (simp add: entry_at_def)
  ultimately show ?thesis using assms(6) by auto
qed

lemma below_not_entry:
  "below r [] (comps (parent (entry_at kind root h))) p \<Longrightarrow> p \<noteq> entry_at kind' root h'"
  by (auto simp: below_def entry_at_def parent_def butlast_append dest!: arg_cong [where f = length])

section \<open>Writing an entry\<close>

text \<open>\<open>quiet i s t\<close>: only the inode \<open>i\<close> changed, and no name did.\<close>

definition quiet :: "nat \<Rightarrow> fsys \<Rightarrow> fsys \<Rightarrow> bool" where
  "quiet i s t \<longleftrightarrow>
     lookup t = lookup s \<and> next_ino t = next_ino s \<and> fault t = fault s \<and>
     (\<forall>j. j \<noteq> i \<longrightarrow> inodes t j = inodes s j) \<and> (inodes s i \<noteq> None \<longrightarrow> inodes t i \<noteq> None)"

lemma quiet_refl [simp]: "quiet i s s"
  by (simp add: quiet_def)

lemma quiet_trans [trans]: "quiet i s t \<Longrightarrow> quiet i t u \<Longrightarrow> quiet i s u"
  by (simp add: quiet_def)

lemma Write_quiet: "OS.Write s i data = (t, r) \<Longrightarrow> quiet i s t"
  by (auto simp: OS.Write_def syscall_def Let_def quiet_def split: option.splits)

lemma Write_Inr:
  "OS.Write s i data = (t, Inr n) \<Longrightarrow>
     n = length data \<and> inodes t i = map_option (content_update (\<lambda>c. c @ data)) (inodes s i)"
  by (auto simp: OS.Write_def syscall_def Let_def split: option.splits)

lemma Copy_quiet: "Copy s i rd = (t, r) \<Longrightarrow> quiet i s t"
  by (auto simp: Copy_def dest: Write_quiet split: prod.splits sum.splits option.splits)

lemma Close_quiet: "Close s = (t, r) \<Longrightarrow> quiet i s t \<and> inodes t = inodes s"
  by (auto simp: Close_def syscall_def Let_def quiet_def split: option.splits)

lemma Chmod_entry:
  assumes "lookup s p = Some (RegNode i)" "comps p \<noteq> []" "Chmod m s p = (t, r)"
  shows "quiet i s t" "map_option content (inodes t i) = map_option content (inodes s i)"
    "r = Inr () \<Longrightarrow> inodes t i = map_option (mode_update (\<lambda>_. m)) (inodes s i)"
proof -
  have "Chmod m s p = (let u = s\<lparr>sysno := Suc (sysno s)\<rparr> in
      case fault s (sysno s) of Some e \<Rightarrow> (u, Inl e)
      | None \<Rightarrow> (upd_inode u i (mode_update (\<lambda>_. m)), Inr ()))"
    unfolding Chmod_def by (rule on_file_reg [OF assms(1,2)])
  with assms(3) show "quiet i s t" "map_option content (inodes t i) = map_option content (inodes s i)"
    "r = Inr () \<Longrightarrow> inodes t i = map_option (mode_update (\<lambda>_. m)) (inodes s i)"
    by (auto simp: Let_def quiet_def option.map_comp comp_def split: option.splits)
qed

lemma Rename_Inl_quiet: "Rename s old new = (t, Inl e) \<Longrightarrow> quiet i s t \<and> inodes t = inodes s"
  by (auto simp: Rename_def syscall_def Let_def quiet_def split: option.splits if_splits)

lemma Rename_Inr_new:
  assumes "Rename s old new = (t, Inr u)" "lookup s old = Some n" "lookup s new \<noteq> Some n"
  shows "lookup t = (lookup s)(old := None, new \<mapsto> n)" "inodes t = inodes s" "next_ino t = next_ino s"
    "fault t = fault s"
  using assms by (auto simp: Rename_def syscall_Inr split: if_splits)

text \<open>
  The outcome of filling the temporary file \<open>tmp\<close> with inode \<open>i\<close> and renaming it to \<open>path\<close>, whatever
  failed: the entry is left alone, or it is that inode with the contents \<open>data\<close>.
\<close>

definition body_ok :: "fsys \<Rightarrow> fsys \<Rightarrow> path \<Rightarrow> path \<Rightarrow> nat \<Rightarrow> bytes \<Rightarrow> bool" where
  "body_ok s t path tmp i data \<longleftrightarrow>
     (\<forall>p. p \<noteq> tmp \<longrightarrow> p \<noteq> path \<longrightarrow> lookup t p = lookup s p) \<and>
     (\<forall>j. j \<noteq> i \<longrightarrow> inodes t j = inodes s j) \<and>
     (lookup t path = lookup s path \<or>
      lookup t path = Some (RegNode i) \<and> map_option content (inodes t i) = Some data) \<and>
     lookup t tmp \<in> {None, Some (RegNode i)} \<and> inodes t i \<noteq> None \<and>
     next_ino t = next_ino s \<and> fault t = fault s"

lemma body_ok_quiet:
  "quiet i s t \<Longrightarrow> lookup s tmp = Some (RegNode i) \<Longrightarrow> inodes s i \<noteq> None \<Longrightarrow> body_ok s t path tmp i data"
  by (simp add: body_ok_def quiet_def)

lemma quiet_body_ok: "quiet i s u \<Longrightarrow> body_ok u t path tmp i data \<Longrightarrow> body_ok s t path tmp i data"
  by (simp add: body_ok_def quiet_def)

lemma body_ok_then_quiet:
  "body_ok s u path tmp i data \<Longrightarrow> quiet i u t \<Longrightarrow>
     map_option content (inodes t i) = map_option content (inodes u i) \<Longrightarrow> body_ok s t path tmp i data"
  by (simp add: body_ok_def quiet_def)

lemma Rename_body_ok:
  assumes "lookup s tmp = Some (RegNode i)" "map_option content (inodes s i) = Some data"
    and "lookup s path \<noteq> Some (RegNode i)" "tmp \<noteq> path" "Rename s tmp path = (t, r)"
  shows "body_ok s t path tmp i data"
    and "r = Inr () \<Longrightarrow> lookup t path = Some (RegNode i) \<and> inodes t = inodes s"
proof -
  show "body_ok s t path tmp i data"
  proof (cases r)
    case (Inl e)
    with Rename_Inl_quiet [of s tmp path t e i] assms show ?thesis by (auto intro: body_ok_quiet)
  next
    case (Inr u)
    with Rename_Inr_new [of s tmp path t u "RegNode i"] assms show ?thesis by (auto simp: body_ok_def)
  qed
  show "r = Inr () \<Longrightarrow> lookup t path = Some (RegNode i) \<and> inodes t = inodes s"
    using Rename_Inr_new [of s tmp path t "()" "RegNode i"] assms by simp
qed

text \<open>Closing and renaming a temporary file that is filled.\<close>

lemma close_rename_ok:
  assumes q: "quiet i s s1" and tmp: "lookup s tmp = Some (RegNode i)"
    and full: "map_option content (inodes s1 i) = Some data"
    and path: "lookup s path \<noteq> Some (RegNode i)" "tmp \<noteq> path" and c: "Close s1 = (s2, r2)"
  shows "body_ok s s2 path tmp i data"
    and "Rename s2 tmp path = (s3, r3) \<Longrightarrow> body_ok s s3 path tmp i data"
    and "Rename s2 tmp path = (s3, Inr ()) \<Longrightarrow>
           lookup s3 path = Some (RegNode i) \<and> inodes s3 i = inodes s1 i"
proof -
  have q2: "quiet i s s2" "inodes s2 = inodes s1" using Close_quiet [OF c, of i] q quiet_trans by blast+
  then have l2: "lookup s2 = lookup s" by (simp add: quiet_def)
  have "body_ok s2 s2 path tmp i data" using tmp l2 q2(2) full by (auto intro: body_ok_quiet)
  then show "body_ok s s2 path tmp i data" using q2(1) quiet_body_ok by blast
  show "body_ok s s3 path tmp i data" if n: "Rename s2 tmp path = (s3, r3)"
    using Rename_body_ok(1) [OF _ _ _ path(2) n, of i data] l2 q2 tmp path(1) full quiet_body_ok by fastforce
  show "lookup s3 path = Some (RegNode i) \<and> inodes s3 i = inodes s1 i"
    if n: "Rename s2 tmp path = (s3, Inr ())"
    using Rename_body_ok(2) [OF _ _ _ path(2) n, of i data] l2 q2 tmp path(1) full by simp
qed

text \<open>From an empty temporary file to the end of the method.\<close>

lemma ac_body_ok:
  assumes fresh: "lookup s tmp = Some (RegNode i)" "map_option content (inodes s i) = Some []"
    and path: "lookup s path \<noteq> Some (RegNode i)" "tmp \<noteq> path" and body: "ac_body s path tmp i data = (t, r)"
  shows "body_ok s t path tmp i data \<and>
    (r = None \<longrightarrow> lookup t path = Some (RegNode i) \<and> map_option content (inodes t i) = Some data)"
proof -
  have some: "inodes s i \<noteq> None" using fresh(2) by auto
  obtain s1 r1 where w: "OS.Write s i data = (s1, r1)" by fastforce
  show ?thesis
  proof (cases r1)
    case (Inl e)
    with body w have "t = s1" "r \<noteq> None" by (auto simp: ac_body_def)
    with Write_quiet [OF w] fresh(1) some show ?thesis by (auto intro: body_ok_quiet)
  next
    case (Inr n)
    obtain s2 r2 where c: "Close s1 = (s2, r2)" by fastforce
    have "map_option content (inodes s1 i) = Some data"
      using Write_Inr w Inr fresh(2) by (auto simp: option.map_comp comp_def)
    note cr = close_rename_ok [OF Write_quiet [OF w] fresh(1) this path c]
    show ?thesis
      using body w Inr c cr \<open>map_option content (inodes s1 i) = Some data\<close>
      by (auto simp: ac_body_def split: sum.splits prod.splits)
  qed
qed

definition put_done :: "fsys \<Rightarrow> path \<Rightarrow> nat \<Rightarrow> reader \<Rightarrow> bool" where
  "put_done t path i rd \<longleftrightarrow>
     lookup t path = Some (RegNode i) \<and>
     (\<exists>a. inodes t i = Some \<lparr>content = rd_bytes rd, mode = 292, atime = a\<rparr>)"

lemma put_body_ok:
  assumes fresh: "lookup s tmp = Some (RegNode i)" "map_option content (inodes s i) = Some []"
    and path: "lookup s path \<noteq> Some (RegNode i)" "tmp \<noteq> path" "comps path \<noteq> []"
    and body: "put_body s path tmp i d rd = (t, r)"
  shows "body_ok s t path tmp i (rd_bytes rd) \<and> (r = None \<longrightarrow> put_done t path i rd) \<and>
    (r = None \<or> lookup t path \<noteq> lookup s path \<longrightarrow>
       int (length (rd_bytes rd)) = Size d \<and> rd_err rd = None)"
proof -
  obtain ino where ino: "inodes s i = Some ino" "content ino = []" using fresh(2) by auto
  obtain s1 r1 where w: "Copy s i rd = (s1, r1)" by fastforce
  note q = Copy_quiet [OF w]
  show ?thesis
  proof (cases "\<exists>n. r1 = Inr n \<and> int n = Size d")
    case False
    with body w have "t = s1" "r \<noteq> None" by (auto simp: put_body_def split: sum.splits if_splits)
    with q fresh(1) ino show ?thesis by (auto intro: body_ok_quiet simp: quiet_def)
  next
    case True
    then obtain n where n: "r1 = Inr n" "int n = Size d" by blast
    obtain s2 r2 where c: "Close s1 = (s2, r2)" by fastforce
    obtain s3 r3 where rn: "Rename s2 tmp path = (s3, r3)" by fastforce
    obtain s4 r4 where m: "Chmod 292 s3 path = (s4, r4)" by fastforce
    note co = Copy_Inr [OF w [unfolded n(1)] ino(1)]
    have full: "map_option content (inodes s1 i) = Some (rd_bytes rd)" using co(3) ino(2) by simp
    have ok: "int (length (rd_bytes rd)) = Size d \<and> rd_err rd = None" using co(1,2) n(2) by simp
    note cr = close_rename_ok [OF q fresh(1) full path(1,2) c]
    consider "t = s2" "r \<noteq> None" | "t = s3" "r \<noteq> None" | "r3 = Inr ()" "t = s4" "r = None \<longrightarrow> r4 = Inr ()"
      using body w n c rn m by (auto simp: put_body_def split: sum.splits)
    then show ?thesis
    proof cases
      case 3
      with rn cr(3) have e: "lookup s3 path = Some (RegNode i)" "inodes s3 i = inodes s1 i" by auto
      note ch = Chmod_entry [OF e(1) path(3) m]
      have "body_ok s t path tmp i (rd_bytes rd)"
        using body_ok_then_quiet [OF cr(2) [OF rn] ch(1,2)] 3(2) by simp
      moreover have "put_done t path i rd" if "r = None"
        using that 3 ch(1,3) e co(3) ino(2) by (cases ino) (simp add: put_done_def quiet_def)
      ultimately show ?thesis using ok by simp
    qed (use cr rn ok in auto)
  qed
qed

text \<open>
  The effect of a whole write on the disk, from \<open>s\<close> before to \<open>t\<close> after, whatever failed. Names that
  existed keep their inode, and inodes their contents; the entry is as it was or is the new file
  with the contents \<open>data\<close>; new names are directories above the entry or a temporary file beside it.
\<close>

definition entry_written :: "fsys \<Rightarrow> fsys \<Rightarrow> path \<Rightarrow> string \<Rightarrow> bytes \<Rightarrow> bool" where
  "entry_written s t path pre data \<longleftrightarrow>
     (\<forall>i < next_ino s. inodes t i = inodes s i) \<and> next_ino s \<le> next_ino t \<and> fault t = fault s \<and>
     (\<forall>p. lookup t p = lookup s p \<or>
          lookup s p = None \<and> lookup t p = Some DirNode \<and> below (rooted path) [] (comps (parent path)) p \<or>
          lookup t p = Some (RegNode (next_ino s)) \<and> next_ino s < next_ino t \<and> inodes t (next_ino s) \<noteq> None \<and>
            (p = path \<and> map_option content (inodes t (next_ino s)) = Some data \<or>
             lookup s p = None \<and> (\<exists>n. p = Join (parent path) (pre @ show_nat n))))"

lemma writtenD:
  assumes "entry_written s t path pre data" "lookup t p \<noteq> lookup s p"
  shows "lookup t p = Some DirNode \<and> below (rooted path) [] (comps (parent path)) p \<or>
    lookup t p = Some (RegNode (next_ino s)) \<and> next_ino s < next_ino t \<and> inodes t (next_ino s) \<noteq> None \<and>
      (p = path \<and> map_option content (inodes t (next_ino s)) = Some data \<or>
       (\<exists>n. p = Join (parent path) (pre @ show_nat n)))"
proof -
  from assms(1) have "lookup t p = lookup s p \<or>
      lookup s p = None \<and> lookup t p = Some DirNode \<and> below (rooted path) [] (comps (parent path)) p \<or>
      lookup t p = Some (RegNode (next_ino s)) \<and> next_ino s < next_ino t \<and> inodes t (next_ino s) \<noteq> None \<and>
        (p = path \<and> map_option content (inodes t (next_ino s)) = Some data \<or>
         lookup s p = None \<and> (\<exists>n. p = Join (parent path) (pre @ show_nat n)))"
    unfolding entry_written_def by simp
  with assms(2) show ?thesis by argo
qed

lemma parent_rooted [simp]: "rooted (parent p) = rooted p"
  by (simp add: parent_def)

lemma MkdirAll_written:
  assumes "MkdirAll s (parent path) = (t, r)"
  shows "entry_written s t path pre data"
  using MkdirAll_frame [OF assms] by (auto simp: entry_written_def)

lemma kept_written:
  assumes "entry_written s t path pre data" "kept {} {} t u"
  shows "entry_written s u path pre data"
  using assms by (auto simp: entry_written_def kept_def)

lemma cleanup_temp_kept: "kept {tmp} {} s (cleanup_temp s tmp)"
  unfolding cleanup_temp_def
  using kept_trans [OF Close_kept [of s] Remove_kept [of tmp "fst (Close s)"]] by simp

lemma cleanup_temp_tmp: "lookup (cleanup_temp s tmp) tmp \<in> {None, lookup s tmp}"
proof -
  obtain u r where c: "Close s = (u, r)" by fastforce
  have "lookup u = lookup s" using Close_quiet [OF c, of 0] by (simp add: quiet_def)
  then show ?thesis
    by (auto simp: cleanup_temp_def c Remove_def syscall_def Let_def split: option.splits if_splits)
qed

lemma write_entry:
  assumes wf: "fs_wf s" and mk: "MkdirAll s (parent path) = (s1, Inr ())"
    and ct: "CreateTemp s1 (parent path) pre = (s2, Inr (tmp, i))"
    and ok: "body_ok s2 s3 path tmp i data" and neq: "tmp \<noteq> path"
  shows "entry_written s (cleanup_temp s3 tmp) path pre data" "i = next_ino s"
proof -
  note m = MkdirAll_frame [OF mk] and c = CreateTemp_kept [OF ct]
  show i: "i = next_ino s" using c(3) m(2) by simp
  let ?t = "cleanup_temp s3 tmp"
  note k = cleanup_temp_kept [of tmp s3] and lt = cleanup_temp_tmp [of s3 tmp]
  have ino: "inodes ?t j = inodes s j" if "j < next_ino s" for j
    using that k ok c(1) m(1,2) i unfolding kept_def body_ok_def by auto
  have nx: "next_ino s < next_ino ?t" "inodes ?t i \<noteq> None" "inodes ?t i = inodes s3 i" "fault ?t = fault s"
    using k ok c(1,8) m(2,3) unfolding kept_def body_ok_def by auto
  have s0: "lookup s tmp = None" using c(2) m(4) [of tmp] by auto
  have "lookup ?t p = lookup s p \<or>
      lookup s p = None \<and> lookup ?t p = Some DirNode \<and> below (rooted path) [] (comps (parent path)) p \<or>
      lookup ?t p = Some (RegNode i) \<and>
        (p = path \<and> map_option content (inodes ?t i) = Some data \<or>
         lookup s p = None \<and> (\<exists>n. p = Join (parent path) (pre @ show_nat n)))" for p
  proof (cases "p = tmp")
    case True
    have "lookup ?t tmp \<in> {None, Some (RegNode i)}" using lt ok by (auto simp: body_ok_def)
    then show ?thesis using True s0 c(6) by auto
  next
    case False
    have l: "lookup ?t p = lookup s3 p" using k False by (simp add: kept_def)
    have l2: "lookup s2 p = lookup s1 p" using c(1) False by (simp add: kept_def)
    have "lookup s3 p = lookup s1 p \<or>
        p = path \<and> lookup s3 p = Some (RegNode i) \<and> map_option content (inodes ?t i) = Some data"
    proof (cases "p = path")
      case True
      then show ?thesis using ok l2 nx(3) unfolding body_ok_def by auto
    next
      case neq: False
      with \<open>p \<noteq> tmp\<close> ok l2 show ?thesis unfolding body_ok_def by simp
    qed
    then show ?thesis using l m(4) [of p] by auto
  qed
  with ino nx i show "entry_written s ?t path pre data"
    unfolding entry_written_def by simp
qed


section \<open>The invariant and the contents of a store\<close>

text \<open>
  \<open>store_inv\<close>: the root is a clean path, files have their inodes, a name in the place of an entry
  is a regular file, and the environment does not make a call fail with "file does not exist".
\<close>

definition store_inv :: "LocalStore \<Rightarrow> bool" where
  "store_inv s \<longleftrightarrow>
     clean_path (rootDir s) \<and> fs_wf (disk s) \<and> (\<forall>n. fault (disk s) n \<noteq> Some ErrNotExist) \<and>
     (\<forall>kind h. plain kind \<longrightarrow> hexhash h \<longrightarrow>
        lookup (disk s) (entry_at kind (rootDir s) h) = None \<or>
        (\<exists>i. lookup (disk s) (entry_at kind (rootDir s) h) = Some (RegNode i)))"

text \<open>The contents of the entry of kind \<^verbatim>\<open>cas\<close> or \<^verbatim>\<open>ac\<close> for a hash.\<close>

definition entry :: "string \<Rightarrow> LocalStore \<Rightarrow> string \<Rightarrow> bytes option" where
  "entry kind s h = map_option content (file_at (disk s) (entry_at kind (rootDir s) h))"

lemma fs_wfD: "fs_wf s \<Longrightarrow> lookup s p = Some (RegNode i) \<Longrightarrow> i < next_ino s \<and> inodes s i \<noteq> None"
  by (simp add: fs_wf_def)

lemma written_wf:
  assumes "fs_wf s" "entry_written s t path pre data"
  shows "fs_wf t"
proof -
  have "i < next_ino t \<and> inodes t i \<noteq> None" if "lookup t p = Some (RegNode i)" for p i
  proof (cases "lookup t p = lookup s p")
    case True
    then have "i < next_ino s" "inodes s i \<noteq> None" using that fs_wfD [OF assms(1)] by auto
    then show ?thesis using assms(2) unfolding entry_written_def by auto
  next
    case False
    with writtenD [OF assms(2) False] that show ?thesis by auto
  qed
  then show ?thesis by (simp add: fs_wf_def)
qed

text \<open>How a write to one entry shows at all entries.\<close>

lemma written_entries:
  assumes root: "clean_path root" and k: "plain kind" "hexhash h" "plain kind'" "hexhash h'"
    and pre: "CHR ''-'' \<in> set pre" "CHR ''/'' \<notin> set pre"
    and w: "entry_written s t (entry_at kind root h) pre data"
  shows "lookup t (entry_at kind' root h') = lookup s (entry_at kind' root h') \<or>
    kind' = kind \<and> h' = h \<and> lookup t (entry_at kind root h) = Some (RegNode (next_ino s)) \<and>
      map_option content (inodes t (next_ino s)) = Some data"
proof -
  have "\<not> below (rooted (entry_at kind root h)) [] (comps (parent (entry_at kind root h))) (entry_at kind' root h')"
    using below_not_entry by blast
  moreover have "entry_at kind' root h' \<noteq> Join (parent (entry_at kind root h)) (pre @ show_nat n)" for n
    using temp_not_entry [OF root k(2) k(1) k(4) refl pre] by metis
  ultimately show ?thesis using writtenD [OF w, of "entry_at kind' root h'"] by auto
qed

lemma written_store:
  assumes inv: "store_inv s" and k: "plain kind" "hexhash h"
    and pre: "CHR ''-'' \<in> set pre" "CHR ''/'' \<notin> set pre"
    and w: "entry_written (disk s) t (entry_at kind (rootDir s) h) pre data"
  shows "store_inv (s\<lparr>disk := t\<rparr>)"
    and "plain kind' \<Longrightarrow> hexhash h' \<Longrightarrow> (kind', h') \<noteq> (kind, h) \<Longrightarrow> entry kind' (s\<lparr>disk := t\<rparr>) h' = entry kind' s h'"
    and "entry kind (s\<lparr>disk := t\<rparr>) h \<in> {entry kind s h, Some data}"
proof -
  have root: "clean_path (rootDir s)" and wf: "fs_wf (disk s)" using inv by (auto simp: store_inv_def)
  note e = written_entries [OF root k _ _ pre w]
  have "\<forall>n. fault t n \<noteq> Some ErrNotExist" using inv w by (simp add: store_inv_def entry_written_def)
  moreover have "lookup t (entry_at k' (rootDir s) h') = None \<or>
      (\<exists>i. lookup t (entry_at k' (rootDir s) h') = Some (RegNode i))" if "plain k'" "hexhash h'" for k' h'
    using e [OF that] inv that unfolding store_inv_def by (metis (no_types))
  ultimately show "store_inv (s\<lparr>disk := t\<rparr>)"
    using root written_wf [OF wf w] by (simp add: store_inv_def)
  have same: "file_at t p = file_at (disk s) p" if "lookup t p = lookup (disk s) p" for p
    using that wf w fs_wfD [OF wf] by (auto simp: file_at_def entry_written_def split: option.splits node.splits)
  show "entry kind' (s\<lparr>disk := t\<rparr>) h' = entry kind' s h'"
    if "plain kind'" "hexhash h'" "(kind', h') \<noteq> (kind, h)"
    using e [OF that(1,2)] that(3) same by (auto simp: entry_def)
  show "entry kind (s\<lparr>disk := t\<rparr>) h \<in> {entry kind s h, Some data}"
    using e [OF k] same by (auto simp: entry_def file_at_def)
qed

section \<open>The operations on a store in order\<close>

lemma fire_simps [simp]:
  "disk (fire s) = disk s" "rootDir (fire s) = rootDir s" "store_inv (fire s) = store_inv s"
  "entry kind (fire s) = entry kind s"
  by (simp_all add: fire_def store_inv_def entry_def fun_eq_iff)

lemma store_path:
  assumes "store_inv s" "hexhash (Hash d)" "plain kind"
  shows "entryPath kind s d = Return (entry_at kind (rootDir s) (Hash d))"
  using assms by (intro entryPath_hex) (simp_all add: store_inv_def)

lemma store_fresh:
  assumes inv: "store_inv s" and k: "plain kind" "hexhash h"
    and mk: "MkdirAll (disk s) (parent (entry_at kind (rootDir s) h)) = (s1, Inr ())"
    and ct: "CreateTemp s1 (parent (entry_at kind (rootDir s) h)) pre = (s2, Inr (tmp, i))"
    and pre: "CHR ''-'' \<in> set pre" "CHR ''/'' \<notin> set pre"
  shows "tmp \<noteq> entry_at kind (rootDir s) h" "lookup s2 tmp = Some (RegNode i)"
    "map_option content (inodes s2 i) = Some []"
    "lookup s2 (entry_at kind (rootDir s) h) \<noteq> Some (RegNode i)" "i = next_ino (disk s)"
proof -
  let ?path = "entry_at kind (rootDir s) h"
  note c = CreateTemp_kept [OF ct] and m = MkdirAll_frame [OF mk]
  have root: "clean_path (rootDir s)" and wf: "fs_wf (disk s)" using inv by (auto simp: store_inv_def)
  show ne: "tmp \<noteq> ?path" using c(6) temp_not_entry [OF root k(2) k(1) k(2) _ pre] by blast
  show "lookup s2 tmp = Some (RegNode i)" by (rule c(4))
  show "map_option content (inodes s2 i) = Some []" using c(5) by simp
  show i: "i = next_ino (disk s)" using c(3) m(2) by simp
  have "lookup s2 ?path = lookup s1 ?path" using c(1) ne by (simp add: kept_def)
  then show "lookup s2 ?path \<noteq> Some (RegNode i)" using m(4) [of ?path] fs_wfD [OF wf, of ?path i] i by auto
qed

lemma temp_prefixes:
  "CHR ''-'' \<in> set ''cas-tmp-''" "CHR ''/'' \<notin> set ''cas-tmp-''"
  "CHR ''-'' \<in> set ''ac-tmp-''" "CHR ''/'' \<notin> set ''ac-tmp-''"
  by simp_all

text \<open>Every way through \<open>Put\<close>.\<close>

lemma Put_cases:
  assumes inv: "store_inv s" and h: "hexhash (Hash d)"
  defines "path \<equiv> entry_at ''cas'' (rootDir s) (Hash d)"
  obtains (stored) t where "Put s d rd = Return (fire (s\<lparr>disk := t\<rparr>), None)"
      "entry_written (disk s) t path ''cas-tmp-'' (rd_bytes rd)" "put_done t path (next_ino (disk s)) rd"
      "int (length (rd_bytes rd)) = Size d" "rd_err rd = None"
    | (failed) t e where "Put s d rd = Return (s\<lparr>disk := t\<rparr>, Some e)"
      "entry_written (disk s) t path ''cas-tmp-'' (rd_bytes rd)"
      "lookup t path \<noteq> lookup (disk s) path \<Longrightarrow> int (length (rd_bytes rd)) = Size d \<and> rd_err rd = None"
proof -
  have wf: "fs_wf (disk s)" using inv by (simp add: store_inv_def)
  have bp: "BlobPath s d = Return path" unfolding BlobPath_def path_def using inv h by (simp add: store_path)
  obtain s1 r1 where mk: "MkdirAll (disk s) (parent path) = (s1, r1)" by fastforce
  note w1 = MkdirAll_written [OF mk, of "''cas-tmp-''" "rd_bytes rd"]
  have keep1: "lookup s1 path = lookup (disk s) path"
    using MkdirAll_frame(4) [OF mk, of path] below_not_entry path_def by metis
  show thesis
  proof (cases r1)
    case (Inl e)
    with mk bp w1 keep1 show thesis by (intro failed) (auto simp: Put_def)
  next
    case (Inr u)
    then have mk': "MkdirAll (disk s) (parent path) = (s1, Inr ())" using mk by simp
    obtain s2 r2 where ct: "CreateTemp s1 (parent path) ''cas-tmp-'' = (s2, r2)" by fastforce
    show thesis
    proof (cases r2)
      case (Inl e)
      have k: "kept {} {} s1 s2" using CreateTemp_Inl ct Inl by blast
      with kept_written [OF w1 k] mk' ct Inl bp keep1 show thesis
        by (intro failed) (auto simp: Put_def kept_def)
    next
      case (Inr x)
      obtain tmp i where x: "x = (tmp, i)" by (cases x)
      have ct': "CreateTemp s1 (parent path) ''cas-tmp-'' = (s2, Inr (tmp, i))" using ct Inr x by simp
      note f = store_fresh [OF inv plain_kinds(1) h mk' [unfolded path_def] ct' [unfolded path_def]
          temp_prefixes(1,2), folded path_def]
      obtain s3 r3 where body: "put_body s2 path tmp i d rd = (s3, r3)" by fastforce
      have b: "body_ok s2 s3 path tmp i (rd_bytes rd) \<and> (r3 = None \<longrightarrow> put_done s3 path i rd) \<and>
        (r3 = None \<or> lookup s3 path \<noteq> lookup s2 path \<longrightarrow> int (length (rd_bytes rd)) = Size d \<and> rd_err rd = None)"
        by (rule put_body_ok [OF f(2,3,4,1) _ body]) (simp add: path_def)
      let ?t = "cleanup_temp s3 tmp"
      have w: "entry_written (disk s) ?t path ''cas-tmp-'' (rd_bytes rd)"
        using write_entry(1) [OF wf mk' ct' _ f(1)] b by blast
      have lt: "lookup ?t path = lookup s3 path" "inodes ?t = inodes s3" "lookup s2 path = lookup s1 path"
        using cleanup_temp_kept [of tmp s3] f(1) CreateTemp_kept(1) [OF ct'] by (auto simp: kept_def)
      have put: "Put s d rd = Return (case r3 of Some e \<Rightarrow> (s\<lparr>disk := ?t\<rparr>, Some e)
                                     | None \<Rightarrow> (fire (s\<lparr>disk := ?t\<rparr>), None))"
        using bp mk' ct' body by (simp add: Put_def split: option.splits)
      show thesis
      proof (cases r3)
        case None
        with put w b lt f(5) show thesis by (intro stored) (auto simp: put_done_def)
      next
        case (Some e)
        with put w b lt keep1 show thesis by (intro failed) auto
      qed
    qed
  qed
qed

text \<open>\<open>Put\<close> and \<open>UpdateActionResult\<close> in terms of the entries.\<close>

lemma put_done_entry:
  "put_done t (entry_at kind (rootDir s) h) i rd \<Longrightarrow> entry kind (s\<lparr>disk := t\<rparr>) h = Some (rd_bytes rd)"
  by (auto simp: put_done_def entry_def file_at_def)

lemma Put_entries:
  assumes inv: "store_inv s" and h: "hexhash (Hash d)"
  shows "\<exists>t r. Put s d rd = Return (t, r) \<and> store_inv t \<and>
     (\<forall>k h'. plain k \<longrightarrow> hexhash h' \<longrightarrow> (k, h') \<noteq> (''cas'', Hash d) \<longrightarrow> entry k t h' = entry k s h') \<and>
     (entry ''cas'' t (Hash d) = entry ''cas'' s (Hash d) \<or>
      entry ''cas'' t (Hash d) = Some (rd_bytes rd) \<and> int (length (rd_bytes rd)) = Size d \<and> rd_err rd = None) \<and>
     (r = None \<longrightarrow> entry ''cas'' t (Hash d) = Some (rd_bytes rd) \<and>
        int (length (rd_bytes rd)) = Size d \<and> rd_err rd = None)"
  using inv h
proof (cases rule: Put_cases [of s d rd, case_names stored failed])
  case (stored t)
  note w = written_store [OF inv plain_kinds(1) h temp_prefixes(1,2) stored(2)]
  show ?thesis using stored(1,4,5) w(1,2) put_done_entry [OF stored(3)] by auto
next
  case (failed t e)
  note w = written_store [OF inv plain_kinds(1) h temp_prefixes(1,2) failed(2)]
  have "entry ''cas'' (s\<lparr>disk := t\<rparr>) (Hash d) = entry ''cas'' s (Hash d)"
    if "lookup t (entry_at ''cas'' (rootDir s) (Hash d)) = lookup (disk s) (entry_at ''cas'' (rootDir s) (Hash d))"
    using that failed(2) inv fs_wfD [of "disk s"]
    by (auto simp: entry_def file_at_def entry_written_def store_inv_def split: option.splits node.splits)
  then show ?thesis using failed(1,3) w by auto
qed

lemma UpdateActionResult_cases:
  assumes inv: "store_inv s" and h: "hexhash (Hash d)" and enc: "marshal_ar P result = Inr data"
  defines "path \<equiv> entry_at ''ac'' (rootDir s) (Hash d)"
  obtains (stored) t where "UpdateActionResult P s d result = Return (fire (s\<lparr>disk := t\<rparr>), None)"
      "entry_written (disk s) t path ''ac-tmp-'' data"
      "lookup t path = Some (RegNode (next_ino (disk s)))"
      "map_option content (inodes t (next_ino (disk s))) = Some data"
    | (failed) t e where "UpdateActionResult P s d result = Return (s\<lparr>disk := t\<rparr>, Some e)"
      "entry_written (disk s) t path ''ac-tmp-'' data"
proof -
  have wf: "fs_wf (disk s)" using inv by (simp add: store_inv_def)
  have bp: "getActionPath s d = Return path" unfolding getActionPath_def path_def using inv h by (simp add: store_path)
  obtain s1 r1 where mk: "MkdirAll (disk s) (parent path) = (s1, r1)" by fastforce
  note w1 = MkdirAll_written [OF mk, of "''ac-tmp-''" data]
  show thesis
  proof (cases r1)
    case (Inl e)
    with mk bp w1 enc show thesis by (intro failed) (auto simp: UpdateActionResult_def)
  next
    case (Inr u)
    then have mk': "MkdirAll (disk s) (parent path) = (s1, Inr ())" using mk by simp
    obtain s2 r2 where ct: "CreateTemp s1 (parent path) ''ac-tmp-'' = (s2, r2)" by fastforce
    show thesis
    proof (cases r2)
      case (Inl e)
      have k: "kept {} {} s1 s2" using CreateTemp_Inl ct Inl by blast
      with kept_written [OF w1 k] mk' ct Inl bp enc show thesis
        by (intro failed) (auto simp: UpdateActionResult_def)
    next
      case (Inr x)
      obtain tmp i where x: "x = (tmp, i)" by (cases x)
      have ct': "CreateTemp s1 (parent path) ''ac-tmp-'' = (s2, Inr (tmp, i))" using ct Inr x by simp
      note f = store_fresh [OF inv plain_kinds(2) h mk' [unfolded path_def] ct' [unfolded path_def]
          temp_prefixes(3,4), folded path_def]
      obtain s3 r3 where body: "ac_body s2 path tmp i data = (s3, r3)" by fastforce
      note b = ac_body_ok [OF f(2,3,4,1) body]
      let ?t = "cleanup_temp s3 tmp"
      have w: "entry_written (disk s) ?t path ''ac-tmp-'' data"
        using write_entry(1) [OF wf mk' ct' _ f(1)] b by blast
      have lt: "lookup ?t path = lookup s3 path" "inodes ?t = inodes s3"
        using cleanup_temp_kept [of tmp s3] f(1) by (auto simp: kept_def)
      have put: "UpdateActionResult P s d result = Return (case r3 of Some e \<Rightarrow> (s\<lparr>disk := ?t\<rparr>, Some e)
                                     | None \<Rightarrow> (fire (s\<lparr>disk := ?t\<rparr>), None))"
        using bp mk' ct' body enc by (simp add: UpdateActionResult_def split: option.splits)
      show thesis
      proof (cases r3)
        case None
        with put w b lt f(5) show thesis by (intro stored) auto
      next
        case (Some e)
        with put w show thesis by (intro failed) auto
      qed
    qed
  qed
qed

lemma UpdateActionResult_entries:
  assumes inv: "store_inv s" and h: "hexhash (Hash d)"
  shows "\<exists>t r. UpdateActionResult P s d result = Return (t, r) \<and> store_inv t \<and>
     (\<forall>k h'. plain k \<longrightarrow> hexhash h' \<longrightarrow> (k, h') \<noteq> (''ac'', Hash d) \<longrightarrow> entry k t h' = entry k s h') \<and>
     (entry ''ac'' t (Hash d) = entry ''ac'' s (Hash d) \<or>
      (\<exists>data. marshal_ar P result = Inr data \<and> entry ''ac'' t (Hash d) = Some data)) \<and>
     (r = None \<longrightarrow> (\<exists>data. marshal_ar P result = Inr data \<and> entry ''ac'' t (Hash d) = Some data))"
proof (cases "marshal_ar P result")
  case (Inl e)
  then show ?thesis using inv by (simp add: UpdateActionResult_def)
next
  case (Inr data)
  with inv h show ?thesis
  proof (cases rule: UpdateActionResult_cases [of s d P result data, case_names stored failed])
    case (stored t)
    note w = written_store [OF inv plain_kinds(2) h temp_prefixes(3,4) stored(2)]
    have "entry ''ac'' (s\<lparr>disk := t\<rparr>) (Hash d) = Some data"
      using stored(3,4) by (auto simp: entry_def file_at_def)
    then show ?thesis using stored(1) w(1,2) Inr by auto
  next
    case (failed t e)
    note w = written_store [OF inv plain_kinds(2) h temp_prefixes(3,4) failed(2)]
    show ?thesis using failed(1) w Inr by auto
  qed
qed

text \<open>Reading: the calls see an entry as a regular file or as missing.\<close>

lemma quiet_store:
  assumes "store_inv s" "quiet i (disk s) t"
    and "map_option content (inodes t i) = map_option content (inodes (disk s) i)"
  shows "store_inv (s\<lparr>disk := t\<rparr>)" "entry k (s\<lparr>disk := t\<rparr>) = entry k s"
proof -
  have "map_option content (inodes t j) = map_option content (inodes (disk s) j)" for j
    using assms(2,3) by (cases "j = i") (auto simp: quiet_def)
  then have c: "map_option content (file_at t p) = map_option content (file_at (disk s) p)" for p
    using assms(2) by (simp add: file_at_def quiet_def split: option.splits node.splits)
  then show "entry k (s\<lparr>disk := t\<rparr>) = entry k s" by (simp add: entry_def fun_eq_iff)
  have "fs_wf t"
    using assms(1,2) unfolding fs_wf_def store_inv_def quiet_def by metis
  then show "store_inv (s\<lparr>disk := t\<rparr>)" using assms(1,2) by (simp add: store_inv_def quiet_def)
qed

lemma store_inv_entry:
  "store_inv s \<Longrightarrow> plain k \<Longrightarrow> hexhash h \<Longrightarrow>
     lookup (disk s) (entry_at k (rootDir s) h) = None \<or>
     (\<exists>i. lookup (disk s) (entry_at k (rootDir s) h) = Some (RegNode i) \<and> inodes (disk s) i \<noteq> None)"
  unfolding store_inv_def using fs_wfD by blast

lemma entry_None: "store_inv s \<Longrightarrow> plain k \<Longrightarrow> hexhash h \<Longrightarrow>
   entry k s h = None \<longleftrightarrow> lookup (disk s) (entry_at k (rootDir s) h) = None"
  using store_inv_entry [of s k h] by (auto simp: entry_def file_at_def)

lemma entry_Some:
  assumes "store_inv s" "plain k" "hexhash h" "entry k s h = Some c"
  obtains i ino where "lookup (disk s) (entry_at k (rootDir s) h) = Some (RegNode i)"
    "inodes (disk s) i = Some ino" "content ino = c"
  using assms unfolding entry_def file_at_def
  by (auto split: option.splits node.splits)

lemma follow_entry:
  assumes "store_inv s" "plain k" "hexhash h"
  shows "follow 40 ((disk s)\<lparr>sysno := n\<rparr>) (entry_at k (rootDir s) h) = Inr (entry_at k (rootDir s) h)"
  using store_inv_entry [OF assms] by (intro follow_self) auto

lemma not_dir_entry:
  assumes "store_inv s" "plain k" "hexhash h"
  shows "\<not> is_dir ((disk s)\<lparr>sysno := n\<rparr>) (entry_at k (rootDir s) h)"
  using store_inv_entry [OF assms] by (auto simp: is_dir_def)

lemma file_at_sysno [simp]: "file_at (s\<lparr>sysno := n\<rparr>) = file_at s"
  by (auto simp: file_at_def fun_eq_iff split: option.splits node.splits)

lemma Stat_entry:
  assumes "store_inv s" "plain k" "hexhash h"
  shows "Stat (disk s) (entry_at k (rootDir s) h) =
    ((disk s)\<lparr>sysno := Suc (sysno (disk s))\<rparr>,
     case fault (disk s) (sysno (disk s)) of
       Some e \<Rightarrow> Inl e
     | None \<Rightarrow> (case file_at (disk s) (entry_at k (rootDir s) h) of
                  Some ino \<Rightarrow> Inr (IsRegular ino) | None \<Rightarrow> Inl ErrNotExist))"
  using follow_entry [OF assms] not_dir_entry [OF assms]
  by (simp add: Stat_def syscall_def Let_def split: option.splits)

lemma Open_entry:
  assumes "store_inv s" "plain k" "hexhash h"
  shows "Open (disk s) (entry_at k (rootDir s) h) =
    ((disk s)\<lparr>sysno := Suc (sysno (disk s))\<rparr>,
     case fault (disk s) (sysno (disk s)) of
       Some e \<Rightarrow> Inl e
     | None \<Rightarrow> (case lookup (disk s) (entry_at k (rootDir s) h) of
                  Some (RegNode i) \<Rightarrow> Inr (HFile i) | _ \<Rightarrow> Inl ErrNotExist))"
  using follow_entry [OF assms] not_dir_entry [OF assms]
  by (simp add: Open_def syscall_def Let_def split: option.splits node.splits)

lemma touch_entry:
  assumes "lookup t p = Some (RegNode i)" "comps p \<noteq> []"
  shows "quiet i t (touch s t p)" "map_option content (inodes (touch s t p) i) = map_option content (inodes t i)"
  using on_file_reg [OF assms, of "atime_update (\<lambda>_. Now t)"]
  by (auto simp: touch_def Chtimes_def quiet_def Let_def option.map_comp comp_def split: option.splits)

lemma quiet_sysno [simp]: "quiet i s (s\<lparr>sysno := n\<rparr>)"
  by (simp add: quiet_def)

lemma touch_sysno:
  assumes "lookup t p = Some (RegNode i)" "comps p \<noteq> []"
  shows "quiet i t (touch s (t\<lparr>sysno := n\<rparr>) p)"
    "map_option content (inodes (touch s (t\<lparr>sysno := n\<rparr>) p) i) = map_option content (inodes t i)"
proof -
  have "lookup (t\<lparr>sysno := n\<rparr>) p = Some (RegNode i)" using assms(1) by simp
  note tt = touch_entry [OF this assms(2), of s]
  show "quiet i t (touch s (t\<lparr>sysno := n\<rparr>) p)" by (rule quiet_trans [OF quiet_sysno tt(1)])
  show "map_option content (inodes (touch s (t\<lparr>sysno := n\<rparr>) p) i) = map_option content (inodes t i)"
    using tt(2) by simp
qed

lemma sysno_store [simp]:
  "store_inv s \<Longrightarrow> store_inv (s\<lparr>disk := (disk s)\<lparr>sysno := n\<rparr>\<rparr>)"
  "entry k (s\<lparr>disk := (disk s)\<lparr>sysno := n\<rparr>\<rparr>) = entry k s"
  by (auto simp: store_inv_def entry_def fs_wf_def file_at_def fun_eq_iff split: option.splits node.splits)

text \<open>\<open>Has\<close> answers whether the entry exists.\<close>

lemma Has_entries:
  assumes inv: "store_inv s" and h: "hexhash (Hash d)"
  shows "\<exists>t r. Has s d = Return (t, r) \<and> store_inv t \<and> (\<forall>k. entry k t = entry k s) \<and>
    (r = Inr (entry ''cas'' s (Hash d) \<noteq> None) \<or>
     (\<exists>e. r = Inl e \<and> fault (disk s) (sysno (disk s)) = Some e))"
proof -
  let ?p = "entry_at ''cas'' (rootDir s) (Hash d)" and ?u = "(disk s)\<lparr>sysno := Suc (sysno (disk s))\<rparr>"
  have bp: "BlobPath s d = Return ?p" unfolding BlobPath_def using inv h by (simp add: store_path)
  note st = Stat_entry [OF inv plain_kinds(1) h]
  show ?thesis
  proof (cases "fault (disk s) (sysno (disk s)) = None \<and> entry ''cas'' s (Hash d) \<noteq> None")
    case True
    then obtain c where c: "entry ''cas'' s (Hash d) = Some c" by blast
    obtain i ino where i: "lookup (disk s) ?p = Some (RegNode i)" "inodes (disk s) i = Some ino"
      using entry_Some [OF inv plain_kinds(1) h c] by blast
    have "Has s d = Return (s\<lparr>disk := touch s ?u ?p\<rparr>, Inr True)"
      using True i by (simp add: Has_def bp st file_at_def)
    moreover have "quiet i (disk s) (touch s ?u ?p)"
        "map_option content (inodes (touch s ?u ?p) i) = map_option content (inodes (disk s) i)"
      by (simp_all add: touch_sysno [OF i(1)])
    note quiet_store [OF inv this]
    ultimately show ?thesis using True by auto
  next
    case False
    have "fault (disk s) (sysno (disk s)) \<noteq> Some ErrNotExist" using inv by (simp add: store_inv_def)
    then have ne: "fault (disk s) (sysno (disk s)) = Some e \<Longrightarrow> \<not> IsNotExist e" for e by (cases e) auto
    have "file_at (disk s) ?p = None" if "entry ''cas'' s (Hash d) = None"
      using that by (simp add: entry_def)
    with False ne inv show ?thesis by (auto simp: Has_def bp st split: option.splits)
  qed
qed

text \<open>\<open>Get\<close> opens the entry, and reads its contents or fails on the way.\<close>

lemma Get_entries:
  assumes inv: "store_inv s" and h: "hexhash (Hash d)"
  shows "\<exists>t r. Get s d = Return (t, r) \<and> store_inv t \<and> (\<forall>k. entry k t = entry k s) \<and>
    (case r of
       Inl e \<Rightarrow> e = ErrNotExist \<and> entry ''cas'' s (Hash d) = None \<or> fault (disk s) (sysno (disk s)) = Some e
     | Inr rd \<Rightarrow> \<exists>c. entry ''cas'' s (Hash d) = Some c \<and> (rd_err rd = None \<longrightarrow> rd_bytes rd = c) \<and>
         (\<exists>n. rd_bytes rd = take n c) \<and> (\<forall>e. rd_err rd = Some e \<longrightarrow> (\<exists>n. fault (disk s) n = Some e)))"
proof -
  let ?p = "entry_at ''cas'' (rootDir s) (Hash d)" and ?u = "(disk s)\<lparr>sysno := Suc (sysno (disk s))\<rparr>"
  have bp: "BlobPath s d = Return ?p" unfolding BlobPath_def using inv h by (simp add: store_path)
  note st = Open_entry [OF inv plain_kinds(1) h]
  show ?thesis
  proof (cases "fault (disk s) (sysno (disk s)) = None \<and> entry ''cas'' s (Hash d) \<noteq> None")
    case True
    then obtain c where c: "entry ''cas'' s (Hash d) = Some c" by blast
    obtain i ino where i: "lookup (disk s) ?p = Some (RegNode i)" "inodes (disk s) i = Some ino" "content ino = c"
      using entry_Some [OF inv plain_kinds(1) h c] by blast
    let ?v = "touch s ?u ?p"
    have q: "quiet i (disk s) ?v"
        "map_option content (inodes ?v i) = map_option content (inodes (disk s) i)"
      by (simp_all add: touch_sysno [OF i(1)])
    then obtain ino' where ino': "inodes ?v i = Some ino'" "content ino' = c" using i(2,3) by auto
    note qs = quiet_store [OF inv q]
    have "Get s d = Return (case read_handle ?v (HFile i) of (u, rd) \<Rightarrow> (s\<lparr>disk := u\<rparr>, Inr rd))"
      using True i by (simp add: Get_def bp st)
    moreover have "fst (read_handle ?v (HFile i)) = ?v\<lparr>sysno := Suc (sysno ?v)\<rparr>"
      by (simp add: read_handle_def Let_def split: option.splits)
    moreover have "fault ?v = fault (disk s)" using q(1) by (simp add: quiet_def)
    moreover have "store_inv (s\<lparr>disk := ?v\<lparr>sysno := n\<rparr>\<rparr>)" "entry k (s\<lparr>disk := ?v\<lparr>sysno := n\<rparr>\<rparr>) = entry k s" for n k
      using sysno_store(1) [OF qs(1), of n] sysno_store(2) [where s = "s\<lparr>disk := ?v\<rparr>"] qs(2) by simp_all
    moreover have "\<exists>n. c = take n c" by (rule exI [of _ "length c"]) simp
    ultimately show ?thesis using c ino'
      by (auto simp: read_handle_def Let_def split: option.splits)
  next
    case False
    then show ?thesis using inv entry_None [OF inv plain_kinds(1) h]
      by (auto simp: Get_def bp st split: option.splits)
  qed
qed

lemma GetActionResult_entries:
  assumes inv: "store_inv s" and h: "hexhash (Hash d)"
  shows "\<exists>t r. GetActionResult P s d = Return (t, r) \<and> store_inv t \<and> (\<forall>k. entry k t = entry k s) \<and>
    (r = (case entry ''ac'' s (Hash d) of None \<Rightarrow> Inl ErrNotExist | Some c \<Rightarrow> unmarshal_ar P c) \<or>
     (\<exists>n e. r = Inl e \<and> fault (disk s) n = Some e))"
proof -
  let ?p = "entry_at ''ac'' (rootDir s) (Hash d)" and ?u = "(disk s)\<lparr>sysno := Suc (sysno (disk s))\<rparr>"
  have bp: "getActionPath s d = Return ?p" unfolding getActionPath_def using inv h by (simp add: store_path)
  note st = Open_entry [OF inv plain_kinds(2) h]
  show ?thesis
  proof (cases "fault (disk s) (sysno (disk s)) = None \<and> entry ''ac'' s (Hash d) \<noteq> None")
    case True
    then obtain c where c: "entry ''ac'' s (Hash d) = Some c" by blast
    obtain i ino where i: "lookup (disk s) ?p = Some (RegNode i)" "inodes (disk s) i = Some ino" "content ino = c"
      using entry_Some [OF inv plain_kinds(2) h c] by blast
    show ?thesis using True i c inv
      by (auto simp: GetActionResult_def bp ReadFile_def st read_handle_def Let_def split: option.splits)
  next
    case False
    then show ?thesis using inv entry_None [OF inv plain_kinds(2) h]
      by (auto simp: GetActionResult_def bp ReadFile_def st split: option.splits)
  qed
qed

section \<open>The BlobStore interface\<close>

text \<open>
  \<open>blob_reader\<close> is the reading half of \<open>storage.BlobStore\<close>: under an invariant and for hashes that
  are well formed, \<open>Has\<close> and \<open>Get\<close> do not panic, tell the truth about the contents \<open>view\<close> and do
  not change them. \<open>blob_store\<close> adds \<open>Put\<close>: a success stores the bytes read under the hash, a
  failure leaves the old contents or the whole new ones, and other hashes are never touched.
\<close>

locale blob_reader =
  fixes has :: "'s \<Rightarrow> Digest \<Rightarrow> ('s \<times> (goerr + bool)) outcome"
    and get :: "'s \<Rightarrow> Digest \<Rightarrow> ('s \<times> (goerr + reader)) outcome"
    and inv :: "'s \<Rightarrow> bool" and view :: "'s \<Rightarrow> string \<Rightarrow> bytes option" and okh :: "string \<Rightarrow> bool"
  assumes has_law: "inv s \<Longrightarrow> okh (Hash d) \<Longrightarrow> \<exists>t r. has s d = Return (t, r) \<and> inv t \<and>
      (\<forall>h. okh h \<longrightarrow> view t h = view s h) \<and> (\<forall>b. r = Inr b \<longrightarrow> b = (view s (Hash d) \<noteq> None))"
    and get_law: "inv s \<Longrightarrow> okh (Hash d) \<Longrightarrow> \<exists>t r. get s d = Return (t, r) \<and> inv t \<and>
      (\<forall>h. okh h \<longrightarrow> view t h = view s h) \<and>
      (case r of Inl e \<Rightarrow> IsNotExist e \<longrightarrow> view s (Hash d) = None
       | Inr rd \<Rightarrow> \<exists>x. view s (Hash d) = Some x \<and> (rd_err rd = None \<longrightarrow> rd_bytes rd = x) \<and> (\<exists>n. rd_bytes rd = take n x))"

locale blob_store = blob_reader +
  fixes put :: "'s \<Rightarrow> Digest \<Rightarrow> reader \<Rightarrow> ('s \<times> goerr option) outcome"
  assumes put_law: "inv s \<Longrightarrow> okh (Hash d) \<Longrightarrow> \<exists>t r. put s d rd = Return (t, r) \<and> inv t \<and>
      (\<forall>h. okh h \<longrightarrow> h \<noteq> Hash d \<longrightarrow> view t h = view s h) \<and>
      (view t (Hash d) = view s (Hash d) \<or> view t (Hash d) = Some (rd_bytes rd) \<and> rd_err rd = None) \<and>
      (r = None \<longrightarrow> view t (Hash d) = Some (rd_bytes rd) \<and> rd_err rd = None)"
begin

text \<open>A blob that was stored can be read back, by \<open>Has\<close> and by \<open>Get\<close>, until it is stored again.\<close>

lemma put_get:
  assumes "inv s" "okh (Hash d)" "put s d rd = Return (t, None)" "get t d = Return (u, Inr rd')" "rd_err rd' = None"
  shows "rd_bytes rd' = rd_bytes rd"
  using put_law [OF assms(1,2), of rd] get_law [of t d] assms by auto

lemma put_has:
  assumes "inv s" "okh (Hash d)" "put s d rd = Return (t, None)" "has t d = Return (u, Inr b)"
  shows b
  using put_law [OF assms(1,2), of rd] has_law [of t d] assms by auto

end

interpretation local: blob_store Has Get store_inv "entry ''cas''" hexhash Put
proof unfold_locales
  show "\<exists>t r. Has s d = Return (t, r) \<and> store_inv t \<and>
      (\<forall>h. hexhash h \<longrightarrow> entry ''cas'' t h = entry ''cas'' s h) \<and>
      (\<forall>b. r = Inr b \<longrightarrow> b = (entry ''cas'' s (Hash d) \<noteq> None))"
    if "store_inv s" "hexhash (Hash d)" for s d
    using Has_entries [OF that] by auto
  show "\<exists>t r. Get s d = Return (t, r) \<and> store_inv t \<and>
      (\<forall>h. hexhash h \<longrightarrow> entry ''cas'' t h = entry ''cas'' s h) \<and>
      (case r of Inl e \<Rightarrow> IsNotExist e \<longrightarrow> entry ''cas'' s (Hash d) = None
       | Inr rd \<Rightarrow> \<exists>x. entry ''cas'' s (Hash d) = Some x \<and> (rd_err rd = None \<longrightarrow> rd_bytes rd = x) \<and>
                    (\<exists>n. rd_bytes rd = take n x))"
    if inv: "store_inv s" and h: "hexhash (Hash d)" for s d
  proof -
    have ne: "fault (disk s) n = Some e \<Longrightarrow> \<not> IsNotExist e" for n e
      using inv by (cases e) (auto simp: store_inv_def)
    from Get_entries [OF inv h] obtain t r where g: "Get s d = Return (t, r)" "store_inv t" "\<forall>k. entry k t = entry k s"
      "case r of Inl e \<Rightarrow> e = ErrNotExist \<and> entry ''cas'' s (Hash d) = None \<or> fault (disk s) (sysno (disk s)) = Some e
       | Inr rd \<Rightarrow> \<exists>c. entry ''cas'' s (Hash d) = Some c \<and> (rd_err rd = None \<longrightarrow> rd_bytes rd = c) \<and>
         (\<exists>n. rd_bytes rd = take n c) \<and> (\<forall>e. rd_err rd = Some e \<longrightarrow> (\<exists>n. fault (disk s) n = Some e))" by blast
    then show ?thesis using ne by (cases r) auto
  qed
  show "\<exists>t r. Put s d rd = Return (t, r) \<and> store_inv t \<and>
      (\<forall>h. hexhash h \<longrightarrow> h \<noteq> Hash d \<longrightarrow> entry ''cas'' t h = entry ''cas'' s h) \<and>
      (entry ''cas'' t (Hash d) = entry ''cas'' s (Hash d) \<or>
       entry ''cas'' t (Hash d) = Some (rd_bytes rd) \<and> rd_err rd = None) \<and>
      (r = None \<longrightarrow> entry ''cas'' t (Hash d) = Some (rd_bytes rd) \<and> rd_err rd = None)"
    if "store_inv s" "hexhash (Hash d)" for s d rd
    using Put_entries [OF that, of rd] by auto
qed

text \<open>The null store is an empty reader.\<close>

interpretation null: blob_reader null_Has null_Get "\<lambda>_. True" "\<lambda>_ _. None" "\<lambda>_. True"
  by unfold_locales (auto simp: null_Has_def null_Get_def)

end
