(* ===== verification/LocalStore_Props.thy ===== *)
theory LocalStore_Props
  imports LocalStore
begin

text \<open>
  What the local store promises: atomic writes whatever system call fails, success on a disk without
  faults, round trips for blobs and action results, and that a restart keeps the cache.
\<close>

section \<open>Properties\<close>

text \<open>C7: \<open>LocalStore.Put\<close> is atomic on every path, whatever system call fails: it returns, keeps the store
  well formed, leaves every other blob and every action result as it was, and leaves the blob itself
  either as it was or with exactly the bytes of a reader that ended without error and whose number is
  the digest's size. It reports success only in the second case.\<close>

theorem local_put_atomic:
  assumes "store_inv s" "hexhash (Hash d)"
  shows "\<exists>t r. Put s d rd = Return (t, r) \<and> store_inv t \<and>
     (\<forall>k h'. plain k \<longrightarrow> hexhash h' \<longrightarrow> (k, h') \<noteq> (''cas'', Hash d) \<longrightarrow> entry k t h' = entry k s h') \<and>
     (entry ''cas'' t (Hash d) = entry ''cas'' s (Hash d) \<or>
      entry ''cas'' t (Hash d) = Some (rd_bytes rd) \<and> int (length (rd_bytes rd)) = Size d \<and> rd_err rd = None) \<and>
     (r = None \<longrightarrow> entry ''cas'' t (Hash d) = Some (rd_bytes rd) \<and>
        int (length (rd_bytes rd)) = Size d \<and> rd_err rd = None)"
  by (rule Put_entries [OF assms])

text \<open>A new store on a disk with only a root directory, without faults.\<close>

definition disk0 :: fsys where
  "disk0 = \<lparr>nodes = [], inodes = Map.empty, next_ino = 0, sysno = 0, fault = (\<lambda>_. None),
            short = (\<lambda>_. 0), rnd = (\<lambda>n. n), clock = (\<lambda>n. int n * second)\<rparr>"

definition store0 :: LocalStore where
  "store0 = \<lparr>rootDir = Path True [''data''], forceUpdateATime = True, onPutCallback = True,
             disk = disk0, notified = 0\<rparr>"

lemma store0_inv: "store_inv store0"
  by (simp add: store_inv_def store0_def disk0_def clean_path_def Clean_def fs_wf_def lookup_def)

theorem local_put_atomic_witness:
  "\<exists>t r. Put store0 \<lparr>Hash = ''abcdef'', Size = 2\<rparr> \<lparr>rd_bytes = [1, 2], rd_err = None\<rparr> = Return (t, r) \<and>
     store_inv t"
  using local_put_atomic [OF store0_inv, of "\<lparr>Hash = ''abcdef'', Size = 2\<rparr>" "\<lparr>rd_bytes = [1, 2], rd_err = None\<rparr>"]
  by (auto simp: hexhash_def hexdigit_def)

text \<open>A blob that \<open>Put\<close> stored is found by \<open>Has\<close>, and \<open>Get\<close> returns its bytes, up to a read error; both
  leave every blob and every action result as they were.\<close>

theorem local_put_get:
  assumes "store_inv s" "hexhash (Hash d)" "Put s d rd = Return (t, None)"
    and "Has t d = Return (u, Inr b)" "Get u d = Return (v, Inr rd')"
  shows "b \<and> (rd_err rd' = None \<longrightarrow> rd_bytes rd' = rd_bytes rd) \<and> (\<forall>k. entry k v = entry k t)"
proof -
  have t: "store_inv t" "entry ''cas'' t (Hash d) = Some (rd_bytes rd)"
    using Put_entries [OF assms(1,2), of rd] assms(3) by auto
  have u: "store_inv u" "\<forall>k. entry k u = entry k t" using Has_entries [OF t(1) assms(2)] assms(4) by auto
  have "\<forall>k. entry k v = entry k u" using Get_entries [OF u(1) assms(2)] assms(5) by auto
  moreover have "b" by (rule local.put_has [OF assms(1-4)])
  moreover have "rd_err rd' = None \<longrightarrow> rd_bytes rd' = rd_bytes rd"
    using local.get_law [OF u(1) assms(2)] assms(5) u(2) t(2) by auto
  ultimately show ?thesis using u(2) by simp
qed

section \<open>Without faults\<close>

definition faultless :: "fsys \<Rightarrow> bool" where
  "faultless s \<longleftrightarrow> (\<forall>n. fault s n = None)"

lemma syscall_faultless: "faultless s \<Longrightarrow> syscall s f = f (s\<lparr>sysno := Suc (sysno s)\<rparr>)"
  by (simp add: faultless_def syscall_def)

lemma mkdirs_ok:
  "faultless s \<Longrightarrow> \<forall>k. 0 < k \<longrightarrow> k \<le> length cs \<longrightarrow> lookup s (Path r (pre @ take k cs)) \<in> {None, Some DirNode} \<Longrightarrow>
     snd (mkdirs s r pre cs) = Inr ()"
proof (induction cs arbitrary: s pre)
  case Nil
  then show ?case by simp
next
  case (Cons c cs)
  let ?q = "Path r (pre @ [c])"
  have here: "lookup s ?q \<in> {None, Some DirNode}" using Cons.prems(2) by (auto dest: spec [of _ 1])
  have rest: "lookup s (Path r ((pre @ [c]) @ take k cs)) \<in> {None, Some DirNode}" if "0 < k" "k \<le> length cs" for k
    using Cons.prems(2) that by (auto dest: spec [of _ "Suc k"])
  let ?u = "set_node (s\<lparr>sysno := Suc (sysno s)\<rparr>) ?q DirNode"
  have "faultless ?u" using Cons.prems(1) by (simp add: faultless_def)
  moreover have "lookup ?u (Path r ((pre @ [c]) @ take k cs)) \<in> {None, Some DirNode}" if "0 < k" "k \<le> length cs" for k
    using rest [OF that] by simp
  ultimately have "snd (mkdirs ?u r (pre @ [c]) cs) = Inr ()" using Cons.IH [of ?u "pre @ [c]"] by blast
  moreover have "snd (mkdirs s r (pre @ [c]) cs) = Inr ()" using Cons.IH [of s "pre @ [c]"] Cons.prems(1) rest by blast
  ultimately show ?case using here Cons.prems(1) by (auto simp: syscall_faultless split: option.splits)
qed

lemma temp_name_first:
  "0 < n \<Longrightarrow> lookup s (Join dir (prefix @ show_nat (rnd s k))) = None \<Longrightarrow>
     temp_name n k s dir prefix = Some (Join dir (prefix @ show_nat (rnd s k)))"
  by (cases n) simp_all

lemma CreateTemp_ok:
  assumes "faultless s" "is_dir s dir" "\<forall>n. lookup s (Join dir (prefix @ show_nat n)) = None"
  shows "\<exists>t p i. CreateTemp s dir prefix = (t, Inr (p, i))"
proof -
  have "is_dir (s\<lparr>sysno := Suc (sysno s)\<rparr>) dir" using assms(2) by (simp add: is_dir_def)
  then show ?thesis using assms(1,3) by (simp add: CreateTemp_def syscall_faultless temp_name_first)
qed

lemma put_body_ok_faultless:
  assumes "faultless s" "lookup s tmp = Some (RegNode i)" "inodes s i \<noteq> None" "tmp \<noteq> path" "comps path \<noteq> []"
    and "lookup s path \<noteq> Some DirNode" "lookup s path \<noteq> Some (RegNode i)" "is_dir s (parent path)" "parent path \<noteq> tmp"
    and "rd_err rd = None" "int (length (rd_bytes rd)) = Size d"
  shows "snd (put_body s path tmp i d rd) = None"
proof -
  obtain s1 r1 where c: "Copy s i rd = (s1, r1)" by fastforce
  have q1: "quiet i s s1" by (rule Copy_quiet [OF c])
  have r1: "r1 = Inr (length (rd_bytes rd))"
    using c assms(1,10) by (auto simp: Copy_def OS.Write_def syscall_faultless)
  obtain s2 r2 where cl: "Close s1 = (s2, r2)" by fastforce
  have q2: "quiet i s s2" using q1 Close_quiet [OF cl] quiet_trans by blast
  have f: "faultless s1" "faultless s2" using q1 q2 assms(1) by (simp_all add: quiet_def faultless_def)
  have r2: "r2 = Inr ()" using cl f(1) by (simp add: Close_def syscall_faultless)
  obtain s3 r3 where rn: "Rename s2 tmp path = (s3, r3)" by fastforce
  have l2: "lookup s2 = lookup s" using q2 by (simp add: quiet_def)
  then have r3: "r3 = Inr ()" and l3: "lookup s3 path = Some (RegNode i)" and f3: "faultless s3"
    using rn f(2) assms(2,4,6-9) by (auto simp: Rename_def syscall_faultless is_dir_def faultless_def)
  have "snd (Chmod 292 s3 path) = Inr ()"
    unfolding Chmod_def using on_file_reg [OF l3 assms(5)] f3 by (simp add: faultless_def Let_def)
  then show ?thesis using c r1 cl r2 rn r3 assms(11) by (auto simp: put_body_def split: prod.splits sum.splits)
qed

lemma cleanup_temp_gone:
  assumes "faultless s" "lookup s tmp \<noteq> Some DirNode"
  shows "lookup (cleanup_temp s tmp) tmp = None"
proof -
  obtain u r where c: "Close s = (u, r)" by fastforce
  have "lookup u = lookup s" "faultless u" using Close_quiet [OF c, of 0] assms(1) by (simp_all add: quiet_def faultless_def)
  then show ?thesis using assms(2)
    by (auto simp: cleanup_temp_def c Remove_def syscall_faultless split: option.splits)
qed

text \<open>A store with room for an entry: its directories can be made and no temporary file is in the way.\<close>

definition room :: "string \<Rightarrow> string \<Rightarrow> LocalStore \<Rightarrow> string \<Rightarrow> bool" where
  "room kind pre s h \<longleftrightarrow> faultless (disk s) \<and>
     (\<forall>k. 0 < k \<longrightarrow> k < length (comps (entry_at kind (rootDir s) h)) \<longrightarrow>
        lookup (disk s) (Path (rooted (rootDir s)) (take k (comps (entry_at kind (rootDir s) h)))) \<in> {None, Some DirNode}) \<and>
     (\<forall>n. lookup (disk s) (Join (parent (entry_at kind (rootDir s) h)) (pre @ show_nat n)) = None)"


lemma rooted_entry_at [simp]: "rooted (entry_at kind root h) = rooted root"
  by (simp add: entry_at_def)

lemma temp_not_below:
  assumes "clean_path root" "plain kind" "hexhash h" "CHR ''-'' \<in> set pre" "CHR ''/'' \<notin> set pre"
  defines "dir \<equiv> parent (entry_at kind root h)"
  shows "comps (Join dir (pre @ show_nat n)) = comps dir @ [pre @ show_nat n]"
    "\<not> below r [] (comps dir) (Join dir (pre @ show_nat n))"
proof -
  have "plain (pre @ show_nat n)"
    by (rule plainI [of "CHR ''-''"]) (use assms(4,5) show_nat_plain [of n] in simp_all)
  moreover have "clean_path dir"
    unfolding dir_def using assms(1,2) hexhash_parts [OF assms(3)]
    by (simp add: entry_at_def parent_def butlast_append JoinAll_plain)
  ultimately show "comps (Join dir (pre @ show_nat n)) = comps dir @ [pre @ show_nat n]" by (simp add: Join_plain)
  then show "\<not> below r [] (comps dir) (Join dir (pre @ show_nat n))"
    by (auto simp: below_def dest!: arg_cong [where f = length])
qed

lemma room_temp:
  assumes inv: "store_inv s" and k: "plain kind" "hexhash h" and room: "room kind pre s h"
    and pre: "CHR ''-'' \<in> set pre" "CHR ''/'' \<notin> set pre"
  obtains s1 s2 tmp i where "MkdirAll (disk s) (parent (entry_at kind (rootDir s) h)) = (s1, Inr ())"
    "CreateTemp s1 (parent (entry_at kind (rootDir s) h)) pre = (s2, Inr (tmp, i))"
    "faultless s2" "is_dir s2 (parent (entry_at kind (rootDir s) h))"
    "parent (entry_at kind (rootDir s) h) \<noteq> tmp"
    "lookup s2 (entry_at kind (rootDir s) h) \<noteq> Some DirNode"
proof -
  let ?path = "entry_at kind (rootDir s) h"
  have root: "clean_path (rootDir s)" using inv by (simp add: store_inv_def)
  have len: "length (comps ?path) = Suc (length (comps (parent ?path)))"
    by (simp add: entry_at_def parent_def butlast_append)
  have pp: "take k (comps (parent ?path)) = take k (comps ?path)" if "k \<le> length (comps (parent ?path))" for k
  proof -
    have "k < length (comps ?path)" using that len by linarith
    then show ?thesis by (simp add: parent_def take_butlast)
  qed
  have "lookup (disk s) (Path (rooted (parent ?path)) ([] @ take k (comps (parent ?path)))) \<in> {None, Some DirNode}"
    if "0 < k" "k \<le> length (comps (parent ?path))" for k
  proof -
    have "k < length (comps ?path)" using that(2) len by linarith
    with room that(1) show ?thesis unfolding room_def by (simp only: pp [OF that(2)] parent_rooted rooted_entry_at append_Nil)
  qed
  then have "snd (MkdirAll (disk s) (parent ?path)) = Inr ()"
    unfolding MkdirAll_def using room by (intro mkdirs_ok) (auto simp: room_def)
  then obtain s1 where mk: "MkdirAll (disk s) (parent ?path) = (s1, Inr ())"
    by (cases "MkdirAll (disk s) (parent ?path)") auto
  note m = MkdirAll_frame [OF mk]
  have f1: "faultless s1" using room m(3) by (simp add: room_def faultless_def)
  note tb = temp_not_below [OF root k pre]
  have "lookup s1 (Join (parent ?path) (pre @ show_nat n)) = None" for n
    using m(4) [of "Join (parent ?path) (pre @ show_nat n)"] room tb(2) by (auto simp: room_def)
  then obtain s2 tmp i where ct: "CreateTemp s1 (parent ?path) pre = (s2, Inr (tmp, i))"
    using CreateTemp_ok [OF f1 m(5)] by blast
  note c = CreateTemp_kept [OF ct]
  have ne: "parent ?path \<noteq> tmp" using c(6) tb(1) by (metis append_self_conv not_Cons_self2)
  have "lookup s1 ?path \<noteq> Some DirNode"
    using m(4) [of ?path] store_inv_entry [OF inv k] below_not_entry by fastforce
  then have "lookup s2 ?path \<noteq> Some DirNode" using c(1,4) by (cases "?path = tmp") (auto simp: kept_def)
  moreover have "faultless s2" using f1 c(1) by (simp add: faultless_def kept_def)
  moreover have "is_dir s2 (parent ?path)" using m(5) c(1) ne by (auto simp: is_dir_def kept_def)
  ultimately show thesis using that mk ct ne by blast
qed

lemma Put_total:
  assumes inv: "store_inv s" and h: "hexhash (Hash d)" and room: "room ''cas'' ''cas-tmp-'' s (Hash d)"
  shows "\<exists>t r. Put s d rd = Return (t, r) \<and>
    (r = None \<longleftrightarrow> rd_err rd = None \<and> int (length (rd_bytes rd)) = Size d) \<and>
    (r = None \<longrightarrow> (\<exists>a. file_at (disk t) (entry_at ''cas'' (rootDir s) (Hash d)) =
                    Some \<lparr>content = rd_bytes rd, mode = 292, atime = a\<rparr>)) \<and>
    notified t = notified s + (if r = None \<and> onPutCallback s then 1 else 0) \<and>
    (\<forall>n. lookup (disk t) (Join (parent (entry_at ''cas'' (rootDir s) (Hash d))) (''cas-tmp-'' @ show_nat n)) = None)"
proof -
  let ?path = "entry_at ''cas'' (rootDir s) (Hash d)"
  have bp: "BlobPath s d = Return ?path" unfolding BlobPath_def using inv h by (simp add: store_path)
  obtain s1 s2 tmp i where mk: "MkdirAll (disk s) (parent ?path) = (s1, Inr ())"
    and ct: "CreateTemp s1 (parent ?path) ''cas-tmp-'' = (s2, Inr (tmp, i))"
    and s2: "faultless s2" "is_dir s2 (parent ?path)" "parent ?path \<noteq> tmp" "lookup s2 ?path \<noteq> Some DirNode"
    using room_temp [OF inv plain_kinds(1) h room temp_prefixes(1,2)] by blast
  note f = store_fresh [OF inv plain_kinds(1) h mk ct temp_prefixes(1,2)]
  obtain s3 r3 where body: "put_body s2 ?path tmp i d rd = (s3, r3)" by fastforce
  note b = put_body_ok [OF f(2,3,4,1) comps_entry_at body]
  have r3: "r3 = None \<longleftrightarrow> rd_err rd = None \<and> int (length (rd_bytes rd)) = Size d"
  proof
    assume "rd_err rd = None \<and> int (length (rd_bytes rd)) = Size d"
    then have "snd (put_body s2 ?path tmp i d rd) = None"
      using f s2 by (intro put_body_ok_faultless) auto
    then show "r3 = None" using body by simp
  qed (use b in blast)
  let ?t = "cleanup_temp s3 tmp"
  have put: "Put s d rd = Return (case r3 of Some e \<Rightarrow> (s\<lparr>disk := ?t\<rparr>, Some e)
                                 | None \<Rightarrow> (fire (s\<lparr>disk := ?t\<rparr>), None))"
    using bp mk ct body by (simp add: Put_def split: option.splits)
  have keep: "lookup ?t p = lookup s3 p" "inodes ?t = inodes s3" if "p \<noteq> tmp" for p
    using cleanup_temp_kept [of tmp s3] that by (auto simp: kept_def)
  have gone: "lookup ?t tmp = None"
    using b s2(1) by (intro cleanup_temp_gone) (auto simp: body_ok_def faultless_def)
  have temps: "lookup ?t (Join (parent ?path) (''cas-tmp-'' @ show_nat n)) = None" for n
  proof (cases "Join (parent ?path) (''cas-tmp-'' @ show_nat n) = tmp")
    case False
    let ?q = "Join (parent ?path) (''cas-tmp-'' @ show_nat n)"
    have "?q \<noteq> ?path"
      using temp_not_entry [OF _ h plain_kinds(1) h refl temp_prefixes(1,2)] inv by (simp add: store_inv_def)
    then have "lookup ?t ?q = lookup s1 ?q"
      using False keep(1) b CreateTemp_kept(1) [OF ct] by (simp add: body_ok_def kept_def)
    moreover have "\<not> below (rooted (parent ?path)) [] (comps (parent ?path)) ?q"
      using temp_not_below(2) [OF _ plain_kinds(1) h temp_prefixes(1,2)] inv by (simp add: store_inv_def)
    ultimately show ?thesis using MkdirAll_frame(4) [OF mk, of ?q] room by (auto simp: room_def)
  qed (use gone in simp)
  show ?thesis
  proof (cases r3)
    case None
    then have "put_done s3 ?path i rd" using b by blast
    then have "\<exists>a. file_at ?t ?path = Some \<lparr>content = rd_bytes rd, mode = 292, atime = a\<rparr>"
      using keep [of ?path] f(1) by (simp add: put_done_def file_at_def)
    moreover have "notified (fire (s\<lparr>disk := ?t\<rparr>)) = notified s + (if onPutCallback s then 1 else 0)"
      by (simp add: fire_def)
    ultimately show ?thesis using put None r3 temps by simp
  next
    case (Some e)
    then show ?thesis using put r3 temps by simp
  qed
qed


lemma Put_fault:
  assumes "store_inv s" "hexhash (Hash d)" "Put s d rd = Return (t, r)"
  shows "fault (disk t) = fault (disk s)"
  using assms(1,2) by (cases rule: Put_cases [of s d rd]) (use assms(3) in \<open>auto simp: entry_written_def\<close>)

lemma on_file_fault: "fault (fst (on_file f s p)) = fault s"
  by (simp add: on_file_def syscall_def Let_def split: option.split sum.split node.split)

lemma touch_fault: "fault (touch s t p) = fault t"
  by (simp add: touch_def Chtimes_def on_file_fault)

lemma Has_fault:
  assumes "Has s d = Return (t, r)"
  shows "fault (disk t) = fault (disk s)"
proof -
  obtain path where "BlobPath s d = Return path" using assms by (auto simp: Has_def bindo_Return_iff)
  moreover obtain u x where st: "Stat (disk s) path = (u, x)" by fastforce
  moreover have "fault u = fault (disk s)" using Stat_kept [of "disk s" path] st by (simp add: kept_def)
  ultimately show ?thesis using assms by (cases x) (auto simp: Has_def touch_fault)
qed

lemma ac_body_ok_faultless:
  assumes "faultless s" "lookup s tmp = Some (RegNode i)" "inodes s i \<noteq> None" "tmp \<noteq> path"
    and "lookup s path \<noteq> Some DirNode" "is_dir s (parent path)" "parent path \<noteq> tmp"
  shows "snd (ac_body s path tmp i data) = None"
proof -
  obtain s1 r1 where c: "OS.Write s i data = (s1, r1)" by fastforce
  have q1: "quiet i s s1" by (rule Write_quiet [OF c])
  have r1: "\<exists>n. r1 = Inr n" using c assms(1) by (auto simp: OS.Write_def syscall_faultless)
  obtain s2 r2 where cl: "Close s1 = (s2, r2)" by fastforce
  have q2: "quiet i s s2" using q1 Close_quiet [OF cl] quiet_trans by blast
  have f: "faultless s1" "faultless s2" using q1 q2 assms(1) by (simp_all add: quiet_def faultless_def)
  have r2: "r2 = Inr ()" using cl f(1) by (simp add: Close_def syscall_faultless)
  have l2: "lookup s2 = lookup s" using q2 by (simp add: quiet_def)
  then have "snd (Rename s2 tmp path) = Inr ()"
    using f(2) assms(2,4-7) by (auto simp: Rename_def syscall_faultless is_dir_def)
  then show ?thesis using c r1 cl r2 by (auto simp: ac_body_def split: prod.splits sum.splits)
qed

lemma UpdateActionResult_total:
  assumes inv: "store_inv s" and h: "hexhash (Hash d)" and room: "room ''ac'' ''ac-tmp-'' s (Hash d)"
    and enc: "marshal_ar P result = Inr data"
  shows "\<exists>t. UpdateActionResult P s d result = Return (t, None)"
proof -
  let ?path = "entry_at ''ac'' (rootDir s) (Hash d)"
  have bp: "getActionPath s d = Return ?path" unfolding getActionPath_def using inv h by (simp add: store_path)
  obtain s1 s2 tmp i where mk: "MkdirAll (disk s) (parent ?path) = (s1, Inr ())"
    and ct: "CreateTemp s1 (parent ?path) ''ac-tmp-'' = (s2, Inr (tmp, i))"
    and s2: "faultless s2" "is_dir s2 (parent ?path)" "parent ?path \<noteq> tmp" "lookup s2 ?path \<noteq> Some DirNode"
    using room_temp [OF inv plain_kinds(2) h room temp_prefixes(3,4)] by blast
  note f = store_fresh [OF inv plain_kinds(2) h mk ct temp_prefixes(3,4)]
  have "snd (ac_body s2 ?path tmp i data) = None" using f s2 by (intro ac_body_ok_faultless) auto
  then show ?thesis using bp mk ct enc
    by (cases "ac_body s2 ?path tmp i data") (simp add: UpdateActionResult_def)
qed

lemma UpdateActionResult_fault:
  assumes "store_inv s" "hexhash (Hash d)" "marshal_ar P result = Inr data" "UpdateActionResult P s d result = Return (t, r)"
  shows "fault (disk t) = fault (disk s)"
  using assms(1-3) by (cases rule: UpdateActionResult_cases [of s d P result data])
    (use assms(4) in \<open>auto simp: entry_written_def\<close>)

text \<open>C8: On a disk without faults, with no leftover temporary file and nothing in the way of the
  directories, \<open>Put\<close> succeeds exactly for a reader that ends without an error after as many bytes as the
  digest says. A success leaves a read-only file with these bytes and notifies the callback once; either
  way no temporary file is left behind.\<close>

theorem local_put_total:
  assumes inv: "store_inv s" and h: "hexhash (Hash d)" and room: "room ''cas'' ''cas-tmp-'' s (Hash d)"
  shows "\<exists>t r. Put s d rd = Return (t, r) \<and>
    (r = None \<longleftrightarrow> rd_err rd = None \<and> int (length (rd_bytes rd)) = Size d) \<and>
    (r = None \<longrightarrow> (\<exists>a. file_at (disk t) (entry_at ''cas'' (rootDir s) (Hash d)) =
                    Some \<lparr>content = rd_bytes rd, mode = 292, atime = a\<rparr>)) \<and>
    notified t = notified s + (if r = None \<and> onPutCallback s then 1 else 0) \<and>
    (\<forall>n. lookup (disk t) (Join (parent (entry_at ''cas'' (rootDir s) (Hash d))) (''cas-tmp-'' @ show_nat n)) = None)"
  by (rule Put_total [OF assms])

definition digest1 :: Digest where
  "digest1 = \<lparr>Hash = ''abcdef'', Size = 2\<rparr>"

definition reader1 :: reader where
  "reader1 = \<lparr>rd_bytes = [1, 2], rd_err = None\<rparr>"

lemma digest1_hex: "hexhash (Hash digest1)"
  by (simp add: digest1_def hexhash_def hexdigit_def)

lemma store0_room: "room k pre store0 h"
  by (simp add: room_def store0_def disk0_def faultless_def lookup_def)

theorem local_put_total_witness:
  "\<exists>t r. Put store0 digest1 reader1 = Return (t, r) \<and> r = None \<and> notified t = 1"
  using local_put_total [OF store0_inv digest1_hex store0_room, of reader1]
  by (auto simp: store0_def digest1_def reader1_def)

lemma put0: "\<exists>t. Put store0 digest1 reader1 = Return (t, None) \<and> store_inv t \<and> faultless (disk t)"
proof -
  obtain t where t: "Put store0 digest1 reader1 = Return (t, None)"
    using Put_total [OF store0_inv digest1_hex store0_room, of reader1] by (auto simp: digest1_def reader1_def)
  moreover have "store_inv t" using Put_entries [OF store0_inv digest1_hex, of reader1] t by auto
  moreover have "faultless (disk t)"
    using Put_fault [OF store0_inv digest1_hex t] by (simp add: faultless_def store0_def disk0_def)
  ultimately show ?thesis by blast
qed

theorem local_put_get_witness:
  "\<exists>t u v rd'. Put store0 digest1 reader1 = Return (t, None) \<and> Has t digest1 = Return (u, Inr True) \<and>
     Get u digest1 = Return (v, Inr rd') \<and> rd_bytes rd' = [1, 2]"
proof -
  obtain t where t: "Put store0 digest1 reader1 = Return (t, None)" "store_inv t" "faultless (disk t)"
    using put0 by blast
  obtain u b where u: "Has t digest1 = Return (u, Inr b)" "store_inv u" "entry ''cas'' u = entry ''cas'' t"
    using Has_entries [OF t(2) digest1_hex] t(3) by (auto simp: faultless_def)
  have fu: "faultless (disk u)" using Has_fault [OF u(1)] t(3) by (simp add: faultless_def)
  have "entry ''cas'' t (Hash digest1) \<noteq> None" using Put_entries [OF store0_inv digest1_hex, of reader1] t(1) by auto
  then obtain v rd' where v: "Get u digest1 = Return (v, Inr rd')" "rd_err rd' = None"
    using Get_entries [OF u(2) digest1_hex] fu u(3) by (fastforce simp: faultless_def split: sum.split_asm)
  from local_put_get [OF store0_inv digest1_hex t(1) u(1) v(1)] t(1) u(1) v
  show ?thesis by (auto simp: reader1_def)
qed

text \<open>C9: An action result that \<open>UpdateActionResult\<close> stored is what \<open>GetActionResult\<close> returns, where protobuf
  decodes what it encoded; the only other outcome is the error of a failed system call. Blobs are not
  touched.\<close>

theorem local_action_roundtrip:
  assumes "store_inv s" "hexhash (Hash d)" "marshal_ar P result = Inr data" "unmarshal_ar P data = Inr result"
    and "UpdateActionResult P s d result = Return (t, None)" "GetActionResult P t d = Return (u, r)"
  shows "(r = Inr result \<or> (\<exists>n e. r = Inl e \<and> fault (disk s) n = Some e)) \<and>
    (\<forall>h. hexhash h \<longrightarrow> entry ''cas'' u h = entry ''cas'' s h)"
proof -
  have t: "store_inv t" "entry ''ac'' t (Hash d) = Some data" "\<forall>h. hexhash h \<longrightarrow> entry ''cas'' t h = entry ''cas'' s h"
    using UpdateActionResult_entries [OF assms(1,2), of P result] assms(3,5) by auto
  show ?thesis
    using GetActionResult_entries [OF t(1) assms(2), of P] assms(4,6) t(2,3)
      UpdateActionResult_fault [OF assms(1-3,5)] by auto
qed

definition result1 :: ActionResult where
  "result1 = \<lparr>ExitCode = 0, StdoutDigest = None, StderrDigest = None, OutputFiles = [],
              OutputDirectories = [], ExecutionCompletedTimestamp = 7\<rparr>"

definition arcodec1 :: arcodec where
  "arcodec1 = \<lparr>marshal_ar = (\<lambda>r. Inr [word_of_int (ExecutionCompletedTimestamp r)]),
     unmarshal_ar = (\<lambda>b. case b of [w] \<Rightarrow> Inr (result1\<lparr>ExecutionCompletedTimestamp := uint w\<rparr>)
                                  | _ \<Rightarrow> Inl ErrUnexpectedEOF)\<rparr>"

theorem local_action_roundtrip_witness:
  "\<exists>t u. UpdateActionResult arcodec1 store0 digest1 result1 = Return (t, None) \<and>
     GetActionResult arcodec1 t digest1 = Return (u, Inr result1)"
proof -
  have enc: "marshal_ar arcodec1 result1 = Inr [7]" "unmarshal_ar arcodec1 [7] = Inr result1"
    by (simp_all add: arcodec1_def result1_def)
  obtain t where t: "UpdateActionResult arcodec1 store0 digest1 result1 = Return (t, None)"
    using UpdateActionResult_total [OF store0_inv digest1_hex store0_room enc(1)] by blast
  then have "store_inv t" using UpdateActionResult_entries [OF store0_inv digest1_hex, of arcodec1 result1] by auto
  then obtain u r where u: "GetActionResult arcodec1 t digest1 = Return (u, r)"
    using GetActionResult_entries [OF _ digest1_hex, of t arcodec1] by blast
  from local_action_roundtrip [OF store0_inv digest1_hex enc t u] t u show ?thesis
    by (auto simp: store0_def disk0_def)
qed

text \<open>A restart keeps the cache: opening a store on a disk changes no blob and no action result that is
  on it, and the new store is well formed if the disk was.\<close>

theorem restart_keeps_entries:
  assumes "store_inv \<lparr>rootDir = root, forceUpdateATime = force, onPutCallback = False, disk = s, notified = 0\<rparr>"
    and "NewLocalStore s root force = (t, Inr st)"
  shows "store_inv st \<and> disk st = t \<and> (\<forall>k h. plain k \<longrightarrow> hexhash h \<longrightarrow>
     file_at t (entry_at k root h) = file_at s (entry_at k root h))"
proof -
  let ?old = "\<lparr>rootDir = root, forceUpdateATime = force, onPutCallback = False, disk = s, notified = 0\<rparr>"
  obtain s1 where m1: "MkdirAll s (Join root ''cas'') = (s1, Inr ())"
    and m2: "MkdirAll s1 (Join root ''ac'') = (t, Inr ())"
    and st: "st = \<lparr>rootDir = root, forceUpdateATime = force, onPutCallback = False, disk = t, notified = 0\<rparr>"
    using assms(2) by (auto simp: NewLocalStore_def split: prod.splits sum.splits)
  have root: "clean_path root" using assms(1) by (simp add: store_inv_def)
  have nb: "\<not> below r [] (comps (Join root kind)) (entry_at k root h)" if "plain kind" for r kind k h
    using that root by (auto simp: Join_plain below_def entry_at_def dest!: arg_cong [where f = length])
  note f1 = MkdirAll_frame [OF m1] and f2 = MkdirAll_frame [OF m2]
  have l: "lookup t (entry_at k root h) = lookup s (entry_at k root h)" for k h
    using f1(4) [of "entry_at k root h"] f2(4) [of "entry_at k root h"] nb plain_kinds by metis
  have ino: "inodes t = inodes s" "next_ino t = next_ino s" "fault t = fault s" using f1 f2 by auto
  have reg: "lookup s p = Some (RegNode i)" if "lookup t p = Some (RegNode i)" for p i
    using f1(4) [of p] f2(4) [of p] that by auto
  have "fs_wf s" using assms(1) by (simp add: store_inv_def)
  then have "fs_wf t" unfolding fs_wf_def ino using reg fs_wfD by blast
  then have "store_inv st" using assms(1) l ino by (simp add: st store_inv_def)
  moreover have "file_at t (entry_at k root h) = file_at s (entry_at k root h)" for k h
    unfolding file_at_def l ino ..
  ultimately show ?thesis by (simp add: st)
qed

theorem restart_keeps_entries_witness:
  "\<exists>t st. NewLocalStore disk0 (Path True [''data'']) False = (t, Inr st) \<and> store_inv st"
proof -
  have "store_inv \<lparr>rootDir = Path True [''data''], forceUpdateATime = False, onPutCallback = False, disk = disk0, notified = 0\<rparr>"
    using store0_inv by (simp add: store0_def store_inv_def)
  moreover obtain t st where n: "NewLocalStore disk0 (Path True [''data'']) False = (t, Inr st)"
    by (simp add: NewLocalStore_def MkdirAll_def Join_def Clean_def syscall_def lookup_def disk0_def
        set_node_def Let_def)
  ultimately show ?thesis using restart_keeps_entries by blast
qed

text \<open>A digest whose hash has fewer than four characters makes every operation of the store panic: the
  path is built by slicing the hash.\<close>

theorem short_hash_panics:
  assumes "length (Hash d) < 4"
  shows "Has s d = Panic \<and> Get s d = Panic \<and> Put s d rd = Panic \<and> PutFile s d src = Panic \<and>
    GetActionResult P s d = Panic"
  using assms by (simp add: Has_def Get_def Put_def PutFile_def GetActionResult_def BlobPath_def
      getActionPath_def entryPath_def)

theorem short_hash_panics_witness:
  "Get store0 \<lparr>Hash = ''ab'', Size = 1\<rparr> = Panic"
  using short_hash_panics [of "\<lparr>Hash = ''ab'', Size = 1\<rparr>" store0 reader1 "Path True []" arcodec1] by simp

end
