(* ===== verification/PutFile_Props.thy ===== *)
theory PutFile_Props
  imports LocalStore_Props
begin

text \<open>
  \<open>LocalStore.PutFile\<close>, which links or copies a finished file into the store: what it does to the
  disk on every path, and what it leaves in the store.
\<close>

section \<open>PutFile\<close>

definition still :: "fsys \<Rightarrow> fsys \<Rightarrow> bool" where
  "still s t \<longleftrightarrow> lookup t = lookup s \<and> inodes t = inodes s \<and> next_ino t = next_ino s \<and> fault t = fault s"

lemma Link_Inl: "Link s old new = (t, Inl e) \<Longrightarrow> still s t"
  by (auto simp: Link_def syscall_def still_def Let_def split: option.splits node.splits if_splits)

lemma Link_Inr:
  "Link s old new = (t, Inr u) \<Longrightarrow> lookup s old = Some (RegNode i) \<Longrightarrow>
     lookup s new = None \<and> lookup t = (lookup s)(new \<mapsto> RegNode i) \<and> inodes t = inodes s \<and>
     next_ino t = next_ino s \<and> fault t = fault s"
  by (auto simp: Link_def syscall_Inr split: if_splits)

lemma kept_still: "kept {} {} s t \<Longrightarrow> next_ino t = next_ino s \<Longrightarrow> still s t"
  by (auto simp: kept_def still_def)

lemma Open_still: "Open s p = (t, r) \<Longrightarrow> still s t"
  unfolding Open_def
  by (auto simp: syscall_def still_def Let_def split: option.splits node.splits sum.splits if_splits)

lemma Stat_still: "Stat s p = (t, r) \<Longrightarrow> still s t"
  unfolding Stat_def
  by (auto simp: syscall_def still_def Let_def split: option.splits sum.splits if_splits)

lemma read_handle_still: "read_handle s h = (t, rd) \<Longrightarrow> still s t"
  by (auto simp: read_handle_def still_def Let_def split: handle.splits option.splits)

lemma read_handle_HFile:
  "read_handle s (HFile i) = (t, rd) \<Longrightarrow> inodes s i = Some ino \<Longrightarrow> rd_err rd = None \<Longrightarrow> rd_bytes rd = content ino"
  by (auto simp: read_handle_def Let_def split: option.splits)

lemma Open_reg:
  assumes "Open s p = (t, Inr f)" "lookup s p = Some (RegNode i)" "comps p \<noteq> []"
  shows "f = HFile i"
proof -
  have "follow 40 (s\<lparr>sysno := Suc (sysno s)\<rparr>) p = Inr p" using assms(2) by (intro follow_self) simp
  with assms show ?thesis by (auto simp: Open_def syscall_Inr is_dir_def split: if_splits)
qed

lemma Create_Inl: "Create s p = (t, Inl e) \<Longrightarrow> still s t"
  by (auto simp: Create_def syscall_def still_def Let_def split: option.splits node.splits if_splits)

lemma Create_Inr:
  "Create s p = (t, Inr i) \<Longrightarrow> lookup s p = None \<Longrightarrow> i = next_ino s \<and>
     lookup t = (lookup s)(p \<mapsto> RegNode i) \<and> next_ino t = Suc (next_ino s) \<and> fault t = fault s \<and>
     (\<forall>j. j \<noteq> i \<longrightarrow> inodes t j = inodes s j) \<and> map_option content (inodes t i) = Some []"
  by (auto simp: Create_def syscall_Inr split: if_splits)

text \<open>What filling a temporary name does: no other name and no contents change.\<close>

definition linked :: "fsys \<Rightarrow> fsys \<Rightarrow> path \<Rightarrow> bool" where
  "linked s t tmp \<longleftrightarrow>
     (\<forall>p. p \<noteq> tmp \<longrightarrow> lookup t p = lookup s p) \<and>
     (lookup t tmp = None \<or> (\<exists>j. lookup t tmp = Some (RegNode j) \<and> j < next_ino t \<and> inodes t j \<noteq> None)) \<and>
     (\<forall>j < next_ino s. map_option content (inodes t j) = map_option content (inodes s j)) \<and>
     next_ino s \<le> next_ino t \<and> fault t = fault s"

lemma linked_still: "still s t \<Longrightarrow> lookup s tmp = None \<Longrightarrow> linked s t tmp"
  by (simp add: still_def linked_def)

lemma still_linked: "still s u \<Longrightarrow> linked u t tmp \<Longrightarrow> linked s t tmp"
  by (simp add: still_def linked_def)

lemma linked_trans_still: "linked s u tmp \<Longrightarrow> still u t \<Longrightarrow> linked s t tmp"
  by (simp add: still_def linked_def)

lemma linked_quiet:
  assumes "linked s u tmp" "lookup u tmp = Some (RegNode j)" "quiet j u t"
    and "j < next_ino s \<Longrightarrow> map_option content (inodes t j) = map_option content (inodes u j)"
  shows "linked s t tmp"
proof -
  have "map_option content (inodes t k) = map_option content (inodes s k)" if "k < next_ino s" for k
    using assms that by (cases "k = j") (auto simp: linked_def quiet_def)
  moreover have "\<exists>j. lookup t tmp = Some (RegNode j) \<and> j < next_ino t \<and> inodes t j \<noteq> None"
    using assms(1-3) by (simp add: linked_def quiet_def)
  ultimately show ?thesis using assms(1,3) unfolding linked_def quiet_def by simp
qed

text \<open>The temporary name holds the contents of the source, read-only.\<close>

definition filled :: "fsys \<Rightarrow> path \<Rightarrow> bytes \<Rightarrow> bool" where
  "filled t tmp c \<longleftrightarrow>
     (\<exists>j ino. lookup t tmp = Some (RegNode j) \<and> inodes t j = Some ino \<and> content ino = c \<and> mode ino = 292)"

lemma Chmod_filled:
  assumes "linked s u tmp" "lookup u tmp = Some (RegNode j)" "comps tmp \<noteq> []" "Chmod 292 u tmp = (t, r)"
    and "map_option content (inodes u j) = Some c"
  shows "linked s t tmp" "r = Inr () \<Longrightarrow> filled t tmp c"
proof -
  note ch = Chmod_entry [OF assms(2,3,4)]
  show "linked s t tmp" using linked_quiet [OF assms(1,2) ch(1)] ch(2) by simp
  show "filled t tmp c" if "r = Inr ()"
  proof -
    obtain ino where "inodes u j = Some ino" "content ino = c" using assms(5) by auto
    then show ?thesis using ch(1,3) that assms(2) by (auto simp: filled_def quiet_def)
  qed
qed

lemma copied_filled:
  assumes c: "lookup s3 = (lookup s)(tmp \<mapsto> RegNode j)" "j = next_ino s" "next_ino s3 = Suc j"
      "fault s3 = fault s" "\<forall>k. k \<noteq> j \<longrightarrow> inodes s3 k = inodes s k" "map_option content (inodes s3 j) = Some []"
    and tmp: "comps tmp \<noteq> []"
    and rh: "read_handle s3 (HFile i) = (s4, rd)" and i: "inodes s3 i = Some ino"
    and cp: "Copy s4 j rd = (s5, r5)" and cl: "Close s5 = (s6, r6)" and ch: "Chmod 292 s6 tmp = (s7, r7)"
  shows "linked s s5 tmp" "linked s s6 tmp" "r5 = Inr n \<Longrightarrow> linked s s7 tmp"
    "r5 = Inr n \<Longrightarrow> r7 = Inr () \<Longrightarrow> filled s7 tmp (content ino)"
proof -
  have st4: "still s3 s4" by (rule read_handle_still [OF rh])
  have "linked s s3 tmp" using c by (auto simp: linked_def)
  then have lk4: "linked s s4 tmp" "lookup s4 tmp = Some (RegNode j)"
    using linked_trans_still [OF _ st4] c(1) st4 by (simp_all add: still_def)
  have q5: "quiet j s4 s5" by (rule Copy_quiet [OF cp])
  show "linked s s5 tmp" using linked_quiet [OF lk4 q5] c(2) by simp
  have q6: "quiet j s4 s6" "inodes s6 = inodes s5" using q5 Close_quiet [OF cl, of j] quiet_trans by blast+
  show lk6: "linked s s6 tmp" using linked_quiet [OF lk4 q6(1)] c(2) by simp
  have t6: "lookup s6 tmp = Some (RegNode j)" using lk4(2) q6(1) by (simp add: quiet_def)
  have full: "map_option content (inodes s6 j) = Some (content ino)" if r5: "r5 = Inr n"
  proof -
    obtain ino4 where i4: "inodes s4 j = Some ino4" "content ino4 = []" using c(6) st4 by (auto simp: still_def)
    note co = Copy_Inr [OF cp [unfolded r5] i4(1)]
    have "rd_bytes rd = content ino" using read_handle_HFile rh i co(2) by blast
    then show ?thesis using co(3) i4(2) q6(2) by simp
  qed
  show "linked s s7 tmp" if "r5 = Inr n" using Chmod_filled(1) [OF lk6 t6 tmp ch full [OF that]] .
  show "filled s7 tmp (content ino)" if "r5 = Inr n" "r7 = Inr ()"
    using Chmod_filled(2) [OF lk6 t6 tmp ch full [OF that(1)] that(2)] .
qed

lemma copy_fallback_ok:
  assumes src: "lookup s src = Some (RegNode i)" "inodes s i = Some ino" "i < next_ino s" "comps src \<noteq> []"
    and tmp: "lookup s tmp = None" "comps tmp \<noteq> []" and run: "copy_fallback s src tmp = (t, r)"
  shows "linked s t tmp \<and> (r = None \<longrightarrow> filled t tmp (content ino))"
proof -
  obtain s2 r2 where op: "Open s src = (s2, r2)" by fastforce
  have st2: "still s s2" by (rule Open_still [OF op])
  show ?thesis
  proof (cases r2)
    case (Inl e2)
    then have "t = s2 \<and> r \<noteq> None" using run op by (auto simp: copy_fallback_def)
    then show ?thesis using linked_still [OF st2 tmp(1)] by auto
  next
    case opened: (Inr f)
    have f: "f = HFile i" using Open_reg op opened src(1,4) by blast
    obtain s3 r3 where cr: "Create s2 tmp = (s3, r3)" by fastforce
    show ?thesis
    proof (cases r3)
      case (Inl e3)
      then have "still s s3" using st2 Create_Inl [of s2 tmp s3 e3] cr by (simp add: still_def)
      moreover have "t = s3 \<and> r \<noteq> None" using run op opened cr Inl by (auto simp: copy_fallback_def)
      ultimately show ?thesis using linked_still [OF _ tmp(1)] by auto
    next
      case created: (Inr j)
      have c: "lookup s3 = (lookup s)(tmp \<mapsto> RegNode j)" "j = next_ino s" "next_ino s3 = Suc j"
        "fault s3 = fault s" "\<forall>k. k \<noteq> j \<longrightarrow> inodes s3 k = inodes s k" "map_option content (inodes s3 j) = Some []"
        using Create_Inr [of s2 tmp s3 j] cr created st2 tmp(1) by (auto simp: still_def)
      have i: "inodes s3 i = Some ino" using c(2,5) src(2,3) by simp
      obtain s4 rd where rh: "read_handle s3 f = (s4, rd)" by fastforce
      obtain s5 r5 where cp: "Copy s4 j rd = (s5, r5)" by fastforce
      obtain s6 r6 where cl: "Close s5 = (s6, r6)" by fastforce
      obtain s7 r7 where ch: "Chmod 292 s6 tmp = (s7, r7)" by fastforce
      have "t = s5 \<and> r \<noteq> None \<or> t = s6 \<and> r \<noteq> None \<or>
          t = s7 \<and> (\<exists>n. r5 = Inr n) \<and> (r = None \<longrightarrow> r7 = Inr ())"
        using run op opened cr created rh cp cl ch by (auto simp: copy_fallback_def split: sum.splits)
      then show ?thesis using copied_filled [OF c tmp(2) rh [unfolded f] i cp cl ch] by blast
    qed
  qed
qed

lemma link_or_copy_ok:
  assumes src: "lookup s src = Some (RegNode i)" "inodes s i = Some ino" "i < next_ino s" "comps src \<noteq> []"
    and tmp: "lookup s tmp = None" "comps tmp \<noteq> []" and run: "link_or_copy s src tmp = (t, r)"
  shows "linked s t tmp \<and> (r = None \<longrightarrow> filled t tmp (content ino))"
proof -
  obtain s1 r1 where ln: "Link s src tmp = (s1, r1)" by fastforce
  show ?thesis
  proof (cases r1)
    case (Inr u)
    note l = Link_Inr [OF ln [unfolded Inr] src(1)]
    obtain s2 r2 where ch: "Chmod 292 s1 tmp = (s2, r2)" by fastforce
    have lk: "linked s s1 tmp" "lookup s1 tmp = Some (RegNode i)" using l src(2,3) by (simp_all add: linked_def)
    have "t = s2 \<and> (r = None \<longrightarrow> r2 = Inr ())"
      using run ln Inr ch by (auto simp: link_or_copy_def split: sum.splits)
    with Chmod_filled [OF lk tmp(2) ch, of "content ino"] l src(2) show ?thesis by simp
  next
    case (Inl e)
    have st: "still s s1" using Link_Inl ln Inl by blast
    have "copy_fallback s1 src tmp = (t, r)" using run ln Inl by (simp add: link_or_copy_def)
    then have "linked s1 t tmp \<and> (r = None \<longrightarrow> filled t tmp (content ino))"
      using src tmp st by (intro copy_fallback_ok) (simp_all add: still_def)
    then show ?thesis using still_linked [OF st] by blast
  qed
qed


text \<open>The effect of a whole \<open>PutFile\<close> on the disk.\<close>

definition entry_linked :: "fsys \<Rightarrow> fsys \<Rightarrow> path \<Rightarrow> path \<Rightarrow> bytes \<Rightarrow> bool" where
  "entry_linked s t path tmp c \<longleftrightarrow>
     (\<forall>j < next_ino s. map_option content (inodes t j) = map_option content (inodes s j)) \<and>
     fault t = fault s \<and> fs_wf t \<and>
     (\<forall>p. p \<noteq> tmp \<longrightarrow> lookup t p = lookup s p \<or>
          lookup s p = None \<and> lookup t p = Some DirNode \<and> below (rooted path) [] (comps (parent path)) p \<or>
          p = path \<and> (\<exists>j. lookup t p = Some (RegNode j) \<and> map_option content (inodes t j) = Some c))"

lemma linked_wf:
  assumes "fs_wf s" "linked s t tmp"
  shows "fs_wf t"
proof -
  have "i < next_ino t \<and> inodes t i \<noteq> None" if "lookup t p = Some (RegNode i)" for p i
  proof (cases "p = tmp")
    case False
    with that assms have "i < next_ino s" "inodes s i \<noteq> None" by (auto simp: linked_def dest: fs_wfD)
    with assms(2) show ?thesis unfolding linked_def by fastforce
  qed (use that assms(2) in \<open>auto simp: linked_def\<close>)
  then show ?thesis by (simp add: fs_wf_def)
qed

lemma wf_names:
  assumes "fs_wf s" "inodes t = inodes s" "next_ino t = next_ino s"
    and "\<And>p i. lookup t p = Some (RegNode i) \<Longrightarrow> \<exists>q. lookup s q = Some (RegNode i)"
  shows "fs_wf t"
  unfolding fs_wf_def assms(2,3) using assms(4) fs_wfD [OF assms(1)] by blast

lemma Rename_linked:
  assumes wf: "fs_wf s" and ln: "linked s u tmp" and f: "filled u tmp c" and rn: "Rename u tmp path = (t, r)"
    and ne: "tmp \<noteq> path"
  shows "entry_linked s t path tmp c"
    and "r = Inr () \<Longrightarrow> \<exists>j. lookup t path = Some (RegNode j) \<and> map_option content (inodes t j) = Some c"
proof -
  obtain j where j: "lookup u tmp = Some (RegNode j)" "map_option content (inodes u j) = Some c"
    using f by (auto simp: filled_def)
  have wfu: "fs_wf u" by (rule linked_wf [OF wf ln])
  have same: "inodes t = inodes u" "next_ino t = next_ino u" "fault t = fault u"
    and moved: "(lookup t = lookup u \<or> lookup t = (lookup u)(tmp := None, path \<mapsto> RegNode j))"
    using rn j(1) by (auto simp: Rename_def syscall_def Let_def split: option.splits if_splits)
  have "fs_wf t"
    by (rule wf_names [OF wfu]) (use same moved j(1) in \<open>auto split: if_splits\<close>)
  moreover have "lookup t p = lookup s p \<or>
      p = path \<and> (\<exists>j. lookup t p = Some (RegNode j) \<and> map_option content (inodes t j) = Some c)" if "p \<noteq> tmp" for p
    using moved ln j(2) same(1) that by (cases "p = path") (auto simp: linked_def)
  ultimately show "entry_linked s t path tmp c" using same ln unfolding entry_linked_def linked_def by auto
  show "\<exists>j. lookup t path = Some (RegNode j) \<and> map_option content (inodes t j) = Some c" if "r = Inr ()"
    using rn that j by (auto simp: Rename_def syscall_Inr split: if_splits)
qed

lemma cleanup_link_same:
  "inodes (cleanup_link s tmp) = inodes s" "next_ino (cleanup_link s tmp) = next_ino s"
  "fault (cleanup_link s tmp) = fault s" "lookup (cleanup_link s tmp) = lookup s \<or> lookup (cleanup_link s tmp) = (lookup s)(tmp := None)"
proof -
  obtain u x where st: "Stat s tmp = (u, x)" by fastforce
  note still = Stat_still [OF st]
  have "inodes (fst (Remove u tmp)) = inodes u" "next_ino (fst (Remove u tmp)) = next_ino u"
    "fault (fst (Remove u tmp)) = fault u"
    "lookup (fst (Remove u tmp)) = lookup u \<or> lookup (fst (Remove u tmp)) = (lookup u)(tmp := None)"
    by (auto simp: Remove_def syscall_def Let_def split: option.splits)
  then show "inodes (cleanup_link s tmp) = inodes s" "next_ino (cleanup_link s tmp) = next_ino s"
    "fault (cleanup_link s tmp) = fault s" "lookup (cleanup_link s tmp) = lookup s \<or> lookup (cleanup_link s tmp) = (lookup s)(tmp := None)"
    using still st by (auto simp: cleanup_link_def still_def split: sum.splits)
qed

lemma cleanup_entry_linked:
  assumes "entry_linked s t path tmp c"
  shows "entry_linked s (cleanup_link t tmp) path tmp c"
proof -
  have "fs_wf t" using assms by (simp add: entry_linked_def)
  then have "fs_wf (cleanup_link t tmp)"
    by (rule wf_names) (use cleanup_link_same [of t tmp] in \<open>auto split: if_splits\<close>)
  then show ?thesis using assms cleanup_link_same [of t tmp] by (auto simp: entry_linked_def)
qed

lemma linked_entry_linked:
  assumes "fs_wf s" "linked s t tmp"
  shows "entry_linked s t path tmp c"
  using linked_wf [OF assms] assms(2) by (simp add: entry_linked_def linked_def)

lemma mkdir_entry_linked:
  assumes "MkdirAll s (parent path) = (u, r)" "entry_linked u t path tmp c"
  shows "entry_linked s t path tmp c"
proof -
  note m = MkdirAll_frame [OF assms(1)]
  have "lookup t p = lookup s p \<or>
      lookup s p = None \<and> lookup t p = Some DirNode \<and> below (rooted path) [] (comps (parent path)) p \<or>
      p = path \<and> (\<exists>j. lookup t p = Some (RegNode j) \<and> map_option content (inodes t j) = Some c)" if "p \<noteq> tmp" for p
    using assms(2) m(4) [of p] that unfolding entry_linked_def by (auto dest: spec [of _ p])
  then show ?thesis using assms(2) m(1,2,3) by (simp add: entry_linked_def)
qed

lemma linked_store:
  assumes inv: "store_inv s" and h: "hexhash h"
    and tmp: "\<And>k h'. hexhash h' \<Longrightarrow> tmp \<noteq> entry_at k (rootDir s) h'"
    and e: "entry_linked (disk s) t (entry_at ''cas'' (rootDir s) h) tmp c"
  shows "store_inv (s\<lparr>disk := t\<rparr>)"
    and "plain k \<Longrightarrow> hexhash h' \<Longrightarrow> (k, h') \<noteq> (''cas'', h) \<Longrightarrow> entry k (s\<lparr>disk := t\<rparr>) h' = entry k s h'"
    and "entry ''cas'' (s\<lparr>disk := t\<rparr>) h \<in> {entry ''cas'' s h, Some c}"
proof -
  let ?at = "\<lambda>k h. entry_at k (rootDir s) h"
  have wf: "fs_wf (disk s)" using inv by (simp add: store_inv_def)
  have l: "lookup t (?at k h') = lookup (disk s) (?at k h') \<or>
      k = ''cas'' \<and> h' = h \<and> (\<exists>j. lookup t (?at k h') = Some (RegNode j) \<and> map_option content (inodes t j) = Some c)"
    if "hexhash h'" for k h'
  proof -
    have "\<not> below (rooted (?at ''cas'' h)) [] (comps (parent (?at ''cas'' h))) (?at k h')" using below_not_entry by blast
    moreover have "?at k h' \<noteq> tmp" using tmp [OF that] by metis
    ultimately show ?thesis using e [unfolded entry_linked_def] by (metis entry_at_inject)
  qed
  have same: "map_option content (file_at t p) = map_option content (file_at (disk s) p)"
    if "lookup t p = lookup (disk s) p" for p
    using that e fs_wfD [OF wf, of p] by (auto simp: file_at_def entry_linked_def split: option.splits node.splits)
  have reg: "lookup t (?at k h') = None \<or> (\<exists>i. lookup t (?at k h') = Some (RegNode i))" if "plain k" "hexhash h'" for k h'
    using l [OF that(2), of k] store_inv_entry [OF inv that] by auto
  show "store_inv (s\<lparr>disk := t\<rparr>)"
    using inv e reg by (auto simp: store_inv_def entry_linked_def)
  show "entry k (s\<lparr>disk := t\<rparr>) h' = entry k s h'" if "plain k" "hexhash h'" "(k, h') \<noteq> (''cas'', h)"
    using l [OF that(2), of k] that(3) same by (auto simp: entry_def)
  show "entry ''cas'' (s\<lparr>disk := t\<rparr>) h \<in> {entry ''cas'' s h, Some c}"
    using l [OF h, of "''cas''"] same by (auto simp: entry_def file_at_def)
qed

definition link_temp :: "LocalStore \<Rightarrow> string \<Rightarrow> gotime \<Rightarrow> path" where
  "link_temp s h n =
     Join (parent (entry_at ''cas'' (rootDir s) h)) (''cas-tmp-putfile-'' @ show_int n @ ''-'' @ h)"

lemma link_temp_comps:
  assumes "store_inv s" "hexhash h"
  shows "comps (link_temp s h n) = comps (parent (entry_at ''cas'' (rootDir s) h)) @ [''cas-tmp-putfile-'' @ show_int n @ ''-'' @ h]"
proof -
  have "CHR ''/'' \<notin> set h" using hexhash_parts(1) [OF assms(2)] by (simp add: plain_def)
  then have "plain (''cas-tmp-putfile-'' @ show_int n @ ''-'' @ h)"
    by (intro plainI [of "CHR ''-''"]) (use show_nat_plain in \<open>auto simp: show_int_def\<close>)
  moreover have "clean_path (parent (entry_at ''cas'' (rootDir s) h))"
    using assms(1) hexhash_parts [OF assms(2)]
    by (simp add: store_inv_def entry_at_def parent_def butlast_append JoinAll_plain)
  ultimately show ?thesis by (simp add: link_temp_def Join_plain)
qed

lemma link_temp_not_entry:
  assumes "store_inv s" "hexhash h" "hexhash h'"
  shows "link_temp s h n \<noteq> entry_at k (rootDir s) h'"
proof
  assume "link_temp s h n = entry_at k (rootDir s) h'"
  then have "last (comps (link_temp s h n)) = h'" by (simp add: entry_at_def)
  then have "h' = ''cas-tmp-putfile-'' @ show_int n @ ''-'' @ h" using link_temp_comps [OF assms(1,2)] by simp
  then show False using hex_no_dash [OF assms(3)] by simp
qed

lemma link_temp_not_below:
  assumes "store_inv s" "hexhash h"
  shows "\<not> below r [] (comps (parent (entry_at ''cas'' (rootDir s) h))) (link_temp s h n)"
  using link_temp_comps [OF assms] by (auto simp: below_def dest!: arg_cong [where f = length])

lemma cleanup_link_gone:
  assumes "faultless s" "lookup s tmp = None \<or> (\<exists>j. lookup s tmp = Some (RegNode j) \<and> inodes s j \<noteq> None)" "comps tmp \<noteq> []"
  shows "lookup (cleanup_link s tmp) tmp = None"
proof -
  have fo: "follow 40 (s\<lparr>sysno := Suc (sysno s)\<rparr>) tmp = Inr tmp" using assms(2) by (intro follow_self) auto
  have "faultless (s\<lparr>sysno := Suc (sysno s)\<rparr>)" using assms(1) by (simp add: faultless_def)
  with assms fo show ?thesis
    by (auto simp: cleanup_link_def Stat_def Remove_def syscall_faultless is_dir_def file_at_def split: option.splits)
qed

text \<open>A new entry from a file: the part of \<open>PutFile\<close> after the check that the entry exists.\<close>

lemma PutFile_new:
  assumes inv: "store_inv s" and h: "hexhash (Hash d)"
    and src: "lookup (disk s) src = Some (RegNode i)" "inodes (disk s) i = Some ino" "comps src \<noteq> []"
    and free: "\<forall>n. lookup (disk s) (link_temp s (Hash d) n) = None"
    and stat: "Stat (disk s) (entry_at ''cas'' (rootDir s) (Hash d)) = (u, Inl e)"
  shows "\<exists>t r n. PutFile s d src = Return (t, r) \<and> (t = s\<lparr>disk := disk t\<rparr> \<or> t = fire (s\<lparr>disk := disk t\<rparr>)) \<and>
    entry_linked (disk s) (disk t) (entry_at ''cas'' (rootDir s) (Hash d)) (link_temp s (Hash d) n) (content ino) \<and>
    (r = None \<longrightarrow> entry ''cas'' t (Hash d) = Some (content ino)) \<and>
    (faultless (disk s) \<longrightarrow> lookup (disk t) (link_temp s (Hash d) n) = None)"
proof -
  let ?path = "entry_at ''cas'' (rootDir s) (Hash d)"
  have bp: "BlobPath s d = Return ?path" unfolding BlobPath_def using inv h by (simp add: store_path)
  have su: "still (disk s) u" by (rule Stat_still [OF stat])
  have wf: "fs_wf (disk s)" using inv by (simp add: store_inv_def)
  have wfu: "fs_wf u" using wf su by (simp add: fs_wf_def still_def)
  obtain s1 r1 where mk: "MkdirAll u (parent ?path) = (s1, r1)" by fastforce
  note m = MkdirAll_frame [OF mk]
  have wf1: "fs_wf s1"
    by (rule wf_names [OF wfu]) (use m in \<open>metis option.inject node.distinct(1)\<close>)+
  define tmp where "tmp = link_temp s (Hash d) (Now s1)"
  have chain: "entry_linked (disk s) t ?path tmp c" if "entry_linked s1 t ?path tmp c" for t c
    using mkdir_entry_linked [OF mk that] su by (simp add: entry_linked_def still_def)
  have free1: "lookup s1 tmp = None"
    using m(4) [of tmp] free su link_temp_not_below [OF inv h] by (auto simp: tmp_def still_def)
  have ne: "tmp \<noteq> ?path" using link_temp_not_entry [OF inv h h] by (simp add: tmp_def)
  have ct: "comps tmp \<noteq> []" using link_temp_comps [OF inv h] by (simp add: tmp_def)
  have src1: "lookup s1 src = Some (RegNode i)" "inodes s1 i = Some ino" "i < next_ino s1"
    using m(1,2) m(4) [of src] su src fs_wfD [OF wf src(1)] by (auto simp: still_def)
  have self: "entry_linked s1 s1 ?path tmp c" for c using wf1 by (simp add: entry_linked_def)
  show ?thesis
  proof (cases r1)
    case (Inl e1)
    then have "PutFile s d src = Return (s\<lparr>disk := s1\<rparr>, Some (Wrap ''failed to create directory'' e1))"
      using bp stat mk by (simp add: PutFile_def)
    then show ?thesis using chain [OF self] free1 by (auto simp: tmp_def)
  next
    case (Inr x)
    obtain s2 r2 where lc: "link_or_copy s1 src tmp = (s2, r2)" by fastforce
    note lk = link_or_copy_ok [OF src1 src(3) free1 ct lc]
    have ln2: "linked s1 s2 tmp" using lk by blast
    have fl: "faultless s2" if "faultless (disk s)"
      using ln2 m(3) su that by (simp add: linked_def faultless_def still_def)
    obtain s3 r3 where rn: "Rename s2 tmp ?path = (s3, r3)" by fastforce
    show ?thesis
    proof (cases r2)
      case (Some e2)
      then have "PutFile s d src = Return (s\<lparr>disk := cleanup_link s2 tmp\<rparr>, Some e2)"
        using bp stat mk Inr lc by (simp add: PutFile_def Let_def tmp_def link_temp_def)
      moreover have "entry_linked s1 (cleanup_link s2 tmp) ?path tmp (content ino)"
        using cleanup_entry_linked [OF linked_entry_linked [OF wf1]] lk by blast
      moreover have "lookup (cleanup_link s2 tmp) tmp = None" if "faultless (disk s)"
        by (rule cleanup_link_gone [OF fl [OF that] _ ct]) (use ln2 in \<open>auto simp: linked_def\<close>)
      ultimately show ?thesis using chain by (auto simp: tmp_def)
    next
      case None
      then have f: "filled s2 tmp (content ino)" using lk by simp
      note rl = Rename_linked [OF wf1 _ f rn ne]
      let ?t = "cleanup_link s3 tmp"
      have el: "entry_linked (disk s) ?t ?path tmp (content ino)"
        using chain [OF cleanup_entry_linked [OF rl(1)]] lk by blast
      have gone: "lookup ?t tmp = None" if "faultless (disk s)"
      proof (rule cleanup_link_gone [OF _ _ ct])
        obtain j where "lookup s2 tmp = Some (RegNode j)" "inodes s2 j \<noteq> None" using f by (auto simp: filled_def)
        then show "faultless s3" "lookup s3 tmp = None \<or> (\<exists>j. lookup s3 tmp = Some (RegNode j) \<and> inodes s3 j \<noteq> None)"
          using rn fl [OF that] ne by (auto simp: Rename_def syscall_faultless faultless_def split: if_splits)
      qed
      show ?thesis
      proof (cases r3)
        case (Inl e3)
        then have "PutFile s d src = Return (s\<lparr>disk := ?t\<rparr>, Some (Wrap ''failed to rename temp file to final path'' e3))"
          using bp stat mk Inr lc None rn by (simp add: PutFile_def Let_def tmp_def link_temp_def)
        then show ?thesis using el gone by (auto simp: tmp_def)
      next
        case (Inr y)
        then have "PutFile s d src = Return (fire (s\<lparr>disk := ?t\<rparr>), None)"
          using bp stat mk \<open>r1 = Inr x\<close> lc None rn by (simp add: PutFile_def Let_def tmp_def link_temp_def)
        moreover obtain j where "lookup s3 ?path = Some (RegNode j)" "map_option content (inodes s3 j) = Some (content ino)"
          using rl(2) lk Inr by auto
        then have "entry ''cas'' (fire (s\<lparr>disk := ?t\<rparr>)) (Hash d) = Some (content ino)"
          using cleanup_link_same [of s3 tmp] ne by (auto simp: entry_def file_at_def)
        ultimately show ?thesis using el gone by (auto simp: tmp_def)
      qed
    qed
  qed
qed

lemma PutFile_entries:
  assumes inv: "store_inv s" and h: "hexhash (Hash d)"
    and src: "lookup (disk s) src = Some (RegNode i)" "inodes (disk s) i = Some ino" "comps src \<noteq> []"
    and free: "\<forall>n. lookup (disk s) (link_temp s (Hash d) n) = None"
  shows "\<exists>t r. PutFile s d src = Return (t, r) \<and> store_inv t \<and>
    (\<forall>k h'. plain k \<longrightarrow> hexhash h' \<longrightarrow> (k, h') \<noteq> (''cas'', Hash d) \<longrightarrow> entry k t h' = entry k s h') \<and>
    entry ''cas'' t (Hash d) \<in> {entry ''cas'' s (Hash d), Some (content ino)} \<and>
    (r = None \<longrightarrow> entry ''cas'' t (Hash d) \<noteq> None) \<and> rootDir t = rootDir s \<and> fault (disk t) = fault (disk s) \<and>
    (faultless (disk s) \<longrightarrow> (\<forall>p. lookup (disk t) p = lookup (disk s) p \<or> p = entry_at ''cas'' (rootDir s) (Hash d) \<or>
       below (rooted (rootDir s)) [] (comps (parent (entry_at ''cas'' (rootDir s) (Hash d)))) p))"
proof -
  let ?path = "entry_at ''cas'' (rootDir s) (Hash d)"
  obtain u x where st: "Stat (disk s) ?path = (u, x)" by fastforce
  show ?thesis
  proof (cases x)
    case (Inr info)
    have bp: "BlobPath s d = Return ?path" unfolding BlobPath_def using inv h by (simp add: store_path)
    have u: "u = (disk s)\<lparr>sysno := Suc (sysno (disk s))\<rparr>" and "file_at (disk s) ?path \<noteq> None"
      using Stat_entry [OF inv plain_kinds(1) h] st Inr by (auto split: option.splits)
    then obtain j where j: "lookup (disk s) ?path = Some (RegNode j)" "entry ''cas'' s (Hash d) \<noteq> None"
      by (auto simp: file_at_def entry_def split: option.splits node.splits)
    have "PutFile s d src = Return (s\<lparr>disk := touch s u ?path\<rparr>, None)" using bp st Inr by (simp add: PutFile_def)
    moreover have "lookup (touch s u ?path) = lookup (disk s)" "fault (touch s u ?path) = fault (disk s)"
      using touch_sysno(1) [OF j(1) comps_entry_at] by (simp_all add: u quiet_def)
    ultimately show ?thesis using quiet_store [OF inv touch_sysno [OF j(1) comps_entry_at]] j(2) by (auto simp: u)
  next
    case (Inl e)
    obtain t r n where t: "PutFile s d src = Return (t, r)" "t = s\<lparr>disk := disk t\<rparr> \<or> t = fire (s\<lparr>disk := disk t\<rparr>)"
      "entry_linked (disk s) (disk t) ?path (link_temp s (Hash d) n) (content ino)"
      "r = None \<longrightarrow> entry ''cas'' t (Hash d) = Some (content ino)"
      "faultless (disk s) \<longrightarrow> lookup (disk t) (link_temp s (Hash d) n) = None"
      using PutFile_new [OF inv h src free st [unfolded Inl]] by blast
    note ls = linked_store [OF inv h link_temp_not_entry [OF inv h] t(3)]
    have "store_inv t = store_inv (s\<lparr>disk := disk t\<rparr>)" "entry k t = entry k (s\<lparr>disk := disk t\<rparr>)" for k
      using t(2) by (metis fire_simps(3)) (metis t(2) fire_simps(4))
    moreover have "rootDir t = rootDir (s\<lparr>disk := disk t\<rparr>)" using t(2) by (metis fire_simps(2))
    moreover have "lookup (disk t) p = lookup (disk s) p \<or> p = ?path \<or> below (rooted (rootDir s)) [] (comps (parent ?path)) p"
      if "faultless (disk s)" for p
      using t(3,5) free that by (cases "p = link_temp s (Hash d) n") (auto simp: entry_linked_def)
    ultimately show ?thesis using ls t(1,3,4) by (auto simp: entry_linked_def)
  qed
qed

text \<open>C10: \<open>PutFile\<close> of a regular file, with no leftover of its temporary name, keeps the store well formed and
  leaves every other blob and every action result alone, whatever fails; the blob ends as it was or with
  the contents of the file. On success the blob is present, and a blob that was missing has exactly the
  contents of the file. Neither the hash nor the size of the digest is compared with the file.\<close>

theorem local_put_file:
  assumes inv: "store_inv s" and h: "hexhash (Hash d)"
    and src: "lookup (disk s) src = Some (RegNode i)" "inodes (disk s) i = Some ino" "comps src \<noteq> []"
    and free: "\<forall>n. lookup (disk s) (link_temp s (Hash d) n) = None"
  shows "\<exists>t r. PutFile s d src = Return (t, r) \<and> store_inv t \<and>
    (\<forall>k h'. plain k \<longrightarrow> hexhash h' \<longrightarrow> (k, h') \<noteq> (''cas'', Hash d) \<longrightarrow> entry k t h' = entry k s h') \<and>
    entry ''cas'' t (Hash d) \<in> {entry ''cas'' s (Hash d), Some (content ino)} \<and>
    (r = None \<longrightarrow> entry ''cas'' t (Hash d) \<noteq> None)"
  using PutFile_entries [OF assms] by blast

text \<open>A disk with a file beside the store.\<close>

definition store1 :: LocalStore where
  "store1 = store0\<lparr>disk := disk0\<lparr>nodes := [(Path True [''out''], RegNode 0)], next_ino := 1,
     inodes := [0 \<mapsto> \<lparr>content = [9], mode = 420, atime = 0\<rparr>]\<rparr>\<rparr>"

lemma store1_inv: "store_inv store1"
  by (simp add: store_inv_def store1_def store0_def disk0_def clean_path_def Clean_def fs_wf_def lookup_def entry_at_def)

lemma link_temp_free: "lookup (disk store1) (link_temp store1 (Hash digest1) n) = None"
proof -
  have "link_temp store1 (Hash digest1) n \<noteq> Path True [''out'']"
    using link_temp_comps [OF store1_inv digest1_hex, of n]
    by (auto simp: entry_at_def parent_def butlast_append dest: arg_cong [where f = comps])
  then show ?thesis by (simp add: store1_def lookup_def)
qed

theorem local_put_file_witness:
  "\<exists>t r. PutFile store1 digest1 (Path True [''out'']) = Return (t, r) \<and> store_inv t \<and>
    (r = None \<longrightarrow> entry ''cas'' t (Hash digest1) = Some [9])"
proof -
  have "entry ''cas'' store1 (Hash digest1) = None"
    by (simp add: entry_def file_at_def lookup_def store1_def store0_def entry_at_def)
  moreover have "lookup (disk store1) (Path True [''out'']) = Some (RegNode 0)"
    "inodes (disk store1) 0 = Some \<lparr>content = [9], mode = 420, atime = 0\<rparr>" "comps (Path True [''out'']) \<noteq> []"
    by (simp_all add: store1_def lookup_def)
  note local_put_file [OF store1_inv digest1_hex this] link_temp_free
  ultimately show ?thesis by fastforce
qed

end
