(* ===== verification/Janitor.thy ===== *)
theory Janitor
  imports OS "HOL-Library.Char_ord" "HOL-Library.List_Lexorder" "HOL-Library.Multiset"
begin

text \<open>
  The janitor (\<^verbatim>\<open>pkg/janitor/janitor.go\<close>): eviction of the least recently used files when the cache is
  over its limit, and the debounced loop that triggers it. \<open>Cleanup\<close> works on the package's own
  \<open>fileSystem\<close> interface, here the arguments \<open>walk\<close> and \<open>remove\<close>; its laws are the locale
  \<open>janitor_fs\<close>, interpreted on \<open>stdFileSystem\<close> over the modelled disk. Sizes are signed 64-bit
  words, as in the code.
\<close>

section \<open>Cleanup\<close>

record fileEntry =
  fe_Size :: "64 word"
  fe_IsDir :: bool
  fe_AccessTime :: gotime

text \<open>One call of the function given to \<open>Walk\<close>: a path with its entry, or an error.\<close>

datatype visit = Visit path fileEntry | VisitErr goerr

record fileInfo =
  fi_path :: path
  fi_entry :: fileEntry

record Janitor =
  jan_rootDir :: path
  maxSize :: "64 word"
  minAge :: duration
  debounceDur :: duration

definition NewJanitor :: "path \<Rightarrow> int \<Rightarrow> Janitor" where
  "NewJanitor dir maxSizeGB =
     \<lparr>jan_rootDir = dir, maxSize = word_of_int maxSizeGB * 1024 * 1024 * 1024,
      minAge = 30 * second, debounceDur = 5 * second\<rparr>"

text \<open>The function \<open>Cleanup\<close> gives to \<open>Walk\<close>, over all its calls: an error ends the walk.\<close>

fun collect :: "visit list \<Rightarrow> fileInfo list \<Rightarrow> 64 word \<Rightarrow> goerr + (fileInfo list \<times> 64 word)" where
  "collect [] files totalSize = Inr (files, totalSize)"
| "collect (VisitErr e # vs) files totalSize = Inl e"
| "collect (Visit p info # vs) files totalSize =
     (if \<not> fe_IsDir info
      then collect vs (files @ [\<lparr>fi_path = p, fi_entry = info\<rparr>]) (totalSize + fe_Size info)
      else collect vs files totalSize)"

text \<open>The eviction loop; comparisons are signed.\<close>

fun evict ::
  "('s \<Rightarrow> path \<Rightarrow> 's \<times> (goerr + unit)) \<Rightarrow> Janitor \<Rightarrow> gotime \<Rightarrow> 's \<Rightarrow> fileInfo list \<Rightarrow> 64 word \<Rightarrow> 's" where
  "evict remove j now s [] totalSize = s"
| "evict remove j now s (f # fs) totalSize =
     (if sint totalSize \<le> sint (maxSize j) then s
      else if now - fe_AccessTime (fi_entry f) < minAge j then evict remove j now s fs totalSize
      else (case remove s (fi_path f) of
              (s, Inl err) \<Rightarrow> evict remove j now s fs totalSize
            | (s, Inr _) \<Rightarrow> evict remove j now s fs (totalSize - fe_Size (fi_entry f))))"

text \<open>
  \<open>sort.Slice\<close> is not stable, so the order of files with equal access times is open: the sort is the
  argument \<open>srt\<close>.
\<close>

definition Cleanup ::
  "('s \<Rightarrow> path \<Rightarrow> 's \<times> visit list) \<Rightarrow> ('s \<Rightarrow> path \<Rightarrow> 's \<times> (goerr + unit)) \<Rightarrow> (fileInfo list \<Rightarrow> fileInfo list) \<Rightarrow>
     Janitor \<Rightarrow> gotime \<Rightarrow> 's \<Rightarrow> 's \<times> goerr option" where
  "Cleanup walk remove srt j now s =
     (case walk s (jan_rootDir j) of
        (s, visits) \<Rightarrow>
          (case collect visits [] 0 of
             Inl e \<Rightarrow> (s, Some e)
           | Inr (files, totalSize) \<Rightarrow>
               if sint totalSize \<le> sint (maxSize j) then (s, None)
               else (evict remove j now s (srt files) totalSize, None)))"

section \<open>stdFileSystem\<close>

text \<open>A file as \<open>Lstat\<close> describes it; the access time is the one the kernel keeps.\<close>

definition stdFileEntry :: "fsys \<Rightarrow> node \<Rightarrow> fileEntry" where
  "stdFileEntry s n =
     (case n of
        DirNode \<Rightarrow> \<lparr>fe_Size = 0, fe_IsDir = True, fe_AccessTime = 0\<rparr>
      | SymNode target a \<Rightarrow> \<lparr>fe_Size = of_nat (length target), fe_IsDir = False, fe_AccessTime = a\<rparr>
      | RegNode i \<Rightarrow>
          (case inodes s i of
             Some ino \<Rightarrow> \<lparr>fe_Size = of_nat (length (content ino)), fe_IsDir = False, fe_AccessTime = atime ino\<rparr>
           | None \<Rightarrow> \<lparr>fe_Size = 0, fe_IsDir = False, fe_AccessTime = 0\<rparr>))"

definition under :: "path \<Rightarrow> path \<Rightarrow> bool" where
  "under root p \<longleftrightarrow> rooted p = rooted root \<and> take (length (comps root)) (comps p) = comps root"

text \<open>
  \<open>filepath.Walk\<close> visits everything under the root in lexical order, one \<open>Lstat\<close> each.
\<close>

definition walk_paths :: "fsys \<Rightarrow> path \<Rightarrow> path list" where
  "walk_paths s root = sort_key comps (filter (under root) (remdups (map fst (nodes s))))"

fun walk_from :: "fsys \<Rightarrow> path list \<Rightarrow> nat \<Rightarrow> visit list" where
  "walk_from s [] n = []"
| "walk_from s (p # ps) n =
     (case fault s n of
        Some e \<Rightarrow> VisitErr e
      | None \<Rightarrow> (case lookup s p of Some nd \<Rightarrow> Visit p (stdFileEntry s nd) | None \<Rightarrow> VisitErr ErrNotExist))
     # walk_from s ps (Suc n)"

definition std_Walk :: "fsys \<Rightarrow> path \<Rightarrow> fsys \<times> visit list" where
  "std_Walk s root =
     (if lookup s root = None then (s\<lparr>sysno := Suc (sysno s)\<rparr>, [VisitErr ErrNotExist])
      else (s\<lparr>sysno := sysno s + length (walk_paths s root)\<rparr>, walk_from s (walk_paths s root) (sysno s)))"

definition std_Remove :: "fsys \<Rightarrow> path \<Rightarrow> fsys \<times> (goerr + unit)" where
  "std_Remove s p = Remove (fst (Chmod 420 s p)) p"

section \<open>The debounced loop\<close>

text \<open>
  The state of \<open>Run\<close>: the one-slot notification channel, whether a timer was ever made, the deadline of
  an armed timer, the timer functions that have started and not yet sent, the one-slot debounce
  channel, and whether the loop has returned. \<open>cleanups\<close> and \<open>taken_notes\<close> count the cleanups run and
  the notifications received.
\<close>

record loop =
  notifyCh :: bool
  hasTimer :: bool
  armed :: "gotime option"
  firing :: nat
  debounceCh :: bool
  stopped :: bool
  cleanups :: nat
  taken_notes :: nat

definition loop0 :: loop where
  "loop0 = \<lparr>notifyCh = False, hasTimer = False, armed = None, firing = 0, debounceCh = False,
            stopped = False, cleanups = 0, taken_notes = 0\<rparr>"

definition Notify :: "loop \<Rightarrow> loop" where
  "Notify s = s\<lparr>notifyCh := True\<rparr>"

datatype jan_event =
    JNotify
  | JReceive gotime
  | JFire gotime
  | JSend
  | JCleanup
  | JDone

text \<open>
  One case of the select, or one step of the timer: \<open>None\<close> where the step is not possible.
\<close>

fun jan_step :: "Janitor \<Rightarrow> loop \<Rightarrow> jan_event \<Rightarrow> loop option" where
  "jan_step j s JNotify = Some (Notify s)"
| "jan_step j s (JReceive now) =
     (if notifyCh s \<and> \<not> stopped s
      then Some (s\<lparr>notifyCh := False,
                   debounceCh := (if hasTimer s then False else debounceCh s),
                   hasTimer := True, armed := Some (now + debounceDur j),
                   taken_notes := Suc (taken_notes s)\<rparr>)
      else None)"
| "jan_step j s (JFire now) =
     (case armed s of
        Some deadline \<Rightarrow>
          if deadline \<le> now then Some (s\<lparr>armed := None, firing := Suc (firing s)\<rparr>) else None
      | None \<Rightarrow> None)"
| "jan_step j s JSend =
     (if 0 < firing s then Some (s\<lparr>firing := firing s - 1, debounceCh := True\<rparr>) else None)"
| "jan_step j s JCleanup =
     (if debounceCh s \<and> \<not> stopped s then Some (s\<lparr>debounceCh := False, cleanups := Suc (cleanups s)\<rparr>) else None)"
| "jan_step j s JDone = (if stopped s then None else Some (s\<lparr>stopped := True, armed := None\<rparr>))"

section \<open>The fileSystem interface\<close>

text \<open>
  What \<open>Cleanup\<close> relies on: a walk without errors visits every file exactly once and changes none,
  and removing a file takes it away or, on an error, leaves everything as it was.
\<close>

definition entries :: "visit list \<Rightarrow> (path \<times> fileEntry) list" where
  "entries vs = concat (map (\<lambda>v. case v of Visit p i \<Rightarrow> if fe_IsDir i then [] else [(p, i)] | VisitErr e \<Rightarrow> []) vs)"

definition esize :: "fileEntry \<Rightarrow> int" where
  "esize i = sint (fe_Size i)"

definition total_of :: "(path \<Rightarrow> fileEntry option) \<Rightarrow> int" where
  "total_of m = (\<Sum>p \<in> dom m. esize (the (m p)))"

lemma collect_ok:
  "(\<forall>e. VisitErr e \<notin> set vs) \<Longrightarrow>
     collect vs files tot =
       Inr (files @ map (\<lambda>(p, i). \<lparr>fi_path = p, fi_entry = i\<rparr>) (entries vs),
            tot + sum_list (map (fe_Size \<circ> snd) (entries vs)))"
proof (induction vs arbitrary: files tot)
  case Nil
  then show ?case by (simp add: entries_def)
next
  case (Cons v vs)
  then show ?case by (cases v) (auto simp: entries_def algebra_simps)
qed

lemma collect_err: "VisitErr e \<in> set vs \<Longrightarrow> \<exists>e'. collect vs files tot = Inl e' \<and> VisitErr e' \<in> set vs"
proof (induction vs arbitrary: files tot)
  case (Cons v vs)
  then show ?case by (cases v) fastforce+
qed simp

text \<open>Sums of sizes do not wrap while they fit into a signed word.\<close>

lemma sint_add_small:
  fixes a b :: "64 word"
  assumes "0 \<le> sint a" "0 \<le> sint b" "sint a + sint b < 2 ^ 63"
  shows "sint (a + b) = sint a + sint b"
  using assms signed_take_bit_int_eq_self [of 63 "sint a + sint b"]
  by (simp add: sint_word_ariths)

lemma sint_diff_small:
  fixes a b :: "64 word"
  assumes "0 \<le> sint b" "sint b \<le> sint a"
  shows "sint (a - b) = sint a - sint b"
proof -
  have "sint a < 2 ^ 63" using sint_lt [of a] by simp
  then show ?thesis using assms signed_take_bit_int_eq_self [of 63 "sint a - sint b"] by (simp add: sint_word_ariths)
qed

lemma sint_sum_list:
  fixes xs :: "64 word list"
  assumes "\<forall>x \<in> set xs. 0 \<le> sint x" "sum_list (map sint xs) < 2 ^ 63"
  shows "sint (sum_list xs) = sum_list (map sint xs)"
  using assms
proof (induction xs)
  case (Cons x xs)
  have "0 \<le> sum_list (map sint xs)" using Cons.prems(1) by (intro sum_list_nonneg) auto
  then have "sint (sum_list xs) = sum_list (map sint xs)" using Cons by simp
  moreover have "sint (x + sum_list xs) = sint x + sint (sum_list xs)"
    using Cons.prems \<open>0 \<le> _\<close> calculation by (intro sint_add_small) simp_all
  ultimately show ?case by simp
qed simp


definition fsum :: "fileInfo list \<Rightarrow> int" where
  "fsum fs = sum_list (map (esize \<circ> fi_entry) fs)"

lemma fsum_simps [simp]: "fsum [] = 0" "fsum (f # fs) = esize (fi_entry f) + fsum fs"
  by (simp_all add: fsum_def)

abbreviation accessed :: "fileInfo \<Rightarrow> gotime" where
  "accessed f \<equiv> fe_AccessTime (fi_entry f)"

locale janitor_fs =
  fixes walk :: "'s \<Rightarrow> path \<Rightarrow> 's \<times> visit list"
    and remove :: "'s \<Rightarrow> path \<Rightarrow> 's \<times> (goerr + unit)"
    and files :: "'s \<Rightarrow> path \<Rightarrow> fileEntry option"
    and inv :: "'s \<Rightarrow> bool" and root :: path
  assumes walk_law: "inv s \<Longrightarrow> walk s root = (t, vs) \<Longrightarrow> inv t \<and> files t = files s \<and>
      ((\<forall>e. VisitErr e \<notin> set vs) \<longrightarrow>
         distinct (map fst (entries vs)) \<and> set (entries vs) = {(p, i). files s p = Some i})"
    and remove_law: "inv s \<Longrightarrow> files s p \<noteq> None \<Longrightarrow> remove s p = (t, r) \<Longrightarrow> inv t \<and>
      files t = (case r of Inr _ \<Rightarrow> (files s)(p := None) | Inl e \<Rightarrow> files s)"
begin

text \<open>The file system would not remove the file.\<close>

definition refused :: "fileInfo \<Rightarrow> bool" where
  "refused f \<longleftrightarrow> (\<exists>u v e. inv u \<and> files u (fi_path f) = Some (fi_entry f) \<and> remove u (fi_path f) = (v, Inl e))"

text \<open>
  The eviction loop removes a list \<open>rs\<close> of the files: none younger than \<open>minAge\<close>; none while an older
  file that could be removed stays; not one more than needed; and it goes on until the limit is met or
  only young files and refused ones are left.
\<close>

definition evicted :: "Janitor \<Rightarrow> gotime \<Rightarrow> fileInfo list \<Rightarrow> int \<Rightarrow> 's \<Rightarrow> 's \<Rightarrow> fileInfo list \<Rightarrow> bool" where
  "evicted j now fs tot s t rs \<longleftrightarrow>
     set rs \<subseteq> set fs \<and> distinct (map fi_path rs) \<and> inv t \<and>
     files t = (\<lambda>p. if p \<in> fi_path ` set rs then None else files s p) \<and>
     (\<forall>f \<in> set rs. minAge j \<le> now - accessed f) \<and>
     (rs \<noteq> [] \<longrightarrow> sint (maxSize j) < tot - fsum rs + esize (fi_entry (last rs))) \<and>
     (tot - fsum rs \<le> sint (maxSize j) \<or> (\<forall>f \<in> set fs - set rs. now - accessed f < minAge j \<or> refused f)) \<and>
     (\<forall>f \<in> set rs. \<forall>g \<in> set fs - set rs. accessed g < accessed f \<longrightarrow> refused g)"

lemma evicted_Nil: "inv s \<Longrightarrow> tot \<le> sint (maxSize j) \<or> fs = [] \<Longrightarrow> evicted j now fs tot s s []"
  by (auto simp: evicted_def)

lemma evicted_skip:
  assumes "evicted j now fs tot u t rs" "files u = files s" "fi_path a \<notin> fi_path ` set fs"
    and "now - accessed a < minAge j \<or> refused a"
  shows "evicted j now (a # fs) tot s t rs"
proof -
  have "refused a" if "f \<in> set rs" "accessed a < accessed f" for f
  proof -
    have "minAge j \<le> now - accessed f" using assms(1) that(1) by (simp add: evicted_def)
    then show ?thesis using assms(4) that(2) by linarith
  qed
  then show ?thesis using assms unfolding evicted_def by auto
qed

lemma evicted_take:
  assumes "evicted j now fs (tot - esize (fi_entry a)) u t rs" "files u = (files s)(fi_path a := None)"
    and "fi_path a \<notin> fi_path ` set fs" "\<forall>g \<in> set fs. accessed a \<le> accessed g"
    and "minAge j \<le> now - accessed a" "sint (maxSize j) < tot"
  shows "evicted j now (a # fs) tot s t (a # rs)"
proof -
  have sub: "set rs \<subseteq> set fs" using assms(1) by (simp add: evicted_def)
  have fl: "files t = (\<lambda>p. if p \<in> fi_path ` set (a # rs) then None else files s p)"
    using assms(1,2) by (auto simp: evicted_def fun_eq_iff)
  have "sint (maxSize j) < tot - fsum (a # rs) + esize (fi_entry (last (a # rs)))"
    using assms(1,6) by (auto simp: evicted_def)
  then show ?thesis using assms sub fl unfolding evicted_def by (auto simp: algebra_simps)
qed

lemma evict_spec:
  assumes "inv s" "distinct (map fi_path fs)" "\<forall>f \<in> set fs. files s (fi_path f) = Some (fi_entry f)"
    and "sorted_wrt (\<lambda>f g. accessed f \<le> accessed g) fs" "\<forall>f \<in> set fs. 0 \<le> esize (fi_entry f)" "fsum fs \<le> sint tot"
  shows "\<exists>rs. evicted j now fs (sint tot) s (evict remove j now s fs tot) rs"
  using assms
proof (induction fs arbitrary: s tot)
  case Nil
  then show ?case by (auto intro!: exI [of _ "[]"] evicted_Nil)
next
  case (Cons a fs)
  have nn: "0 \<le> fsum fs" unfolding fsum_def using Cons.prems(5) by (intro sum_list_nonneg) auto
  have pa: "fi_path a \<notin> fi_path ` set fs" using Cons.prems(2) by simp
  consider "sint tot \<le> sint (maxSize j)" | "sint (maxSize j) < sint tot" "now - accessed a < minAge j"
    | "sint (maxSize j) < sint tot" "minAge j \<le> now - accessed a" by linarith
  then show ?case
  proof cases
    case 1
    then show ?thesis using evicted_Nil [OF Cons.prems(1)] by (intro exI [of _ "[]"]) simp
  next
    case 2
    obtain rs where "evicted j now fs (sint tot) s (evict remove j now s fs tot) rs"
      using Cons.IH [of s tot] Cons.prems by fastforce
    then have "evicted j now (a # fs) (sint tot) s (evict remove j now s fs tot) rs"
      using evicted_skip [OF _ refl pa] 2(2) by blast
    then show ?thesis using 2 by auto
  next
    case 3
    obtain u r where rm: "remove s (fi_path a) = (u, r)" by fastforce
    have law: "inv u" "files u = (case r of Inr _ \<Rightarrow> (files s)(fi_path a := None) | Inl e \<Rightarrow> files s)"
      using remove_law [OF Cons.prems(1) _ rm] Cons.prems(3) by auto
    show ?thesis
    proof (cases r)
      case (Inl e)
      then obtain rs where "evicted j now fs (sint tot) u (evict remove j now u fs tot) rs"
        using Cons.IH [of u tot] Cons.prems law by fastforce
      moreover have "refused a" unfolding refused_def using Cons.prems(1,3) rm Inl by auto
      moreover have "files u = files s" using law(2) Inl by simp
      ultimately have "evicted j now (a # fs) (sint tot) s (evict remove j now u fs tot) rs"
        using evicted_skip [OF _ _ pa] by blast
      then show ?thesis using Inl 3 rm by auto
    next
      case (Inr x)
      have d: "sint (tot - fe_Size (fi_entry a)) = sint tot - esize (fi_entry a)"
        using Cons.prems(5,6) nn unfolding esize_def by (intro sint_diff_small) (simp_all add: esize_def)
      then obtain rs where "evicted j now fs (sint tot - esize (fi_entry a)) u
          (evict remove j now u fs (tot - fe_Size (fi_entry a))) rs"
        using Cons.IH [of u "tot - fe_Size (fi_entry a)"] Cons.prems law Inr pa by (fastforce simp: image_iff)
      moreover have "files u = (files s)(fi_path a := None)" using law(2) Inr by simp
      moreover have "\<forall>g \<in> set fs. accessed a \<le> accessed g" using Cons.prems(4) by simp
      ultimately have "evicted j now (a # fs) (sint tot) s
          (evict remove j now u fs (tot - fe_Size (fi_entry a))) (a # rs)"
        using evicted_take [OF _ _ pa _ 3(2,1)] by blast
      then show ?thesis using Inr 3 rm by auto
    qed
  qed
qed

end

lemma fsum_total:
  assumes "distinct (map fi_path fs)" "\<forall>f \<in> set fs. m (fi_path f) = Some (fi_entry f)" "fi_path ` set fs = A"
  shows "(\<Sum>p \<in> A. esize (the (m p))) = fsum fs"
proof -
  have "(\<Sum>p \<in> fi_path ` set fs. esize (the (m p))) = (\<Sum>f \<in> set fs. esize (the (m (fi_path f))))"
    using assms(1) by (intro sum.reindex_cong [OF _ refl refl]) (simp add: distinct_map)
  also have "\<dots> = (\<Sum>f \<in> set fs. esize (fi_entry f))" using assms(2) by (intro sum.cong) auto
  also have "\<dots> = fsum fs"
    using assms(1) by (simp add: fsum_def distinct_map sum_list_distinct_conv_sum_set comp_def)
  finally show ?thesis using assms(3) by simp
qed

text \<open>
  The effect of a cleanup on the files, as a map from paths: a set \<open>R\<close> of paths is removed. \<open>stuck\<close> are
  the files that could not be removed.
\<close>

definition at :: "(path \<Rightarrow> fileEntry option) \<Rightarrow> path \<Rightarrow> gotime" where
  "at m p = fe_AccessTime (the (m p))"

definition lru_removed ::
  "Janitor \<Rightarrow> gotime \<Rightarrow> (path \<Rightarrow> bool) \<Rightarrow> (path \<Rightarrow> fileEntry option) \<Rightarrow> path set \<Rightarrow> (path \<Rightarrow> fileEntry option) \<Rightarrow> bool" where
  "lru_removed j now stuck m R m' \<longleftrightarrow>
     R \<subseteq> dom m \<and> m' = m |` (- R) \<and>
     (\<forall>p \<in> R. minAge j \<le> now - at m p) \<and>
     (\<forall>p \<in> R. \<forall>q \<in> dom m - R. at m q < at m p \<longrightarrow> stuck q) \<and>
     (R \<noteq> {} \<longrightarrow> sint (maxSize j) < total_of m \<and>
        (\<exists>p \<in> R. sint (maxSize j) < total_of m' + esize (the (m p)))) \<and>
     (total_of m' \<le> sint (maxSize j) \<or> (\<forall>q \<in> dom m - R. now - at m q < minAge j \<or> stuck q))"

context janitor_fs
begin

lemma evicted_removed:
  assumes e: "evicted j now fs (total_of m) s t rs" and m: "files s = m"
    and fs: "distinct (map fi_path fs)" "\<forall>f \<in> set fs. m (fi_path f) = Some (fi_entry f)" "fi_path ` set fs = dom m"
    and over: "sint (maxSize j) < total_of m"
  shows "lru_removed j now (\<lambda>p. \<exists>f. fi_path f = p \<and> refused f) m (fi_path ` set rs) (files t)"
proof -
  let ?R = "fi_path ` set rs"
  have sub: "set rs \<subseteq> set fs" and drs: "distinct (map fi_path rs)"
    and ft: "files t = (\<lambda>p. if p \<in> ?R then None else m p)"
    using e m by (auto simp: evicted_def)
  have fin: "finite (dom m)" using fs(3) by (metis List.finite_set finite_imageI)
  have mt: "files t = m |` (- ?R)" using ft by (auto simp: restrict_map_def fun_eq_iff)
  have Rd: "?R \<subseteq> dom m" using sub fs(3) by blast
  have "total_of (files t) = (\<Sum>p \<in> dom m - ?R. esize (the (m p)))"
    unfolding total_of_def mt by (rule sum.cong) (auto simp: restrict_map_def split: if_splits)
  also have "\<dots> = total_of m - (\<Sum>p \<in> ?R. esize (the (m p)))"
    unfolding total_of_def by (rule sum_diff [OF fin Rd])
  also have "(\<Sum>p \<in> ?R. esize (the (m p))) = fsum rs"
    by (rule fsum_total [OF drs _ refl]) (use sub fs(2) in blast)
  finally have tt: "total_of (files t) = total_of m - fsum rs" .
  have am: "at m (fi_path f) = accessed f" "the (m (fi_path f)) = fi_entry f" if "f \<in> set fs" for f
    using fs(2) that by (simp_all add: at_def)
  have kept: "\<exists>f \<in> set fs - set rs. q = fi_path f" if "q \<in> dom m - ?R" for q
    using that fs(3) by blast
  have old: "\<forall>f \<in> set rs. minAge j \<le> now - accessed f"
    and need: "rs \<noteq> [] \<Longrightarrow> sint (maxSize j) < total_of m - fsum rs + esize (fi_entry (last rs))"
    and enough: "total_of m - fsum rs \<le> sint (maxSize j) \<or> (\<forall>f \<in> set fs - set rs. now - accessed f < minAge j \<or> refused f)"
    and lru: "\<forall>f \<in> set rs. \<forall>g \<in> set fs - set rs. accessed g < accessed f \<longrightarrow> refused g"
    using e unfolding evicted_def by blast+
  have "minAge j \<le> now - at m p" if "p \<in> ?R" for p using that old sub am by auto
  moreover have "\<exists>f. fi_path f = q \<and> refused f" if pq: "p \<in> ?R" "q \<in> dom m - ?R" "at m q < at m p" for p q
  proof -
    obtain g where g: "g \<in> set fs - set rs" "q = fi_path g" using kept [OF pq(2)] by blast
    obtain f where f: "f \<in> set rs" "p = fi_path f" using pq(1) by blast
    have "accessed g < accessed f" using pq(3) am(1) [of g] am(1) [of f] f g sub by auto
    then show ?thesis using lru f(1) g by blast
  qed
  moreover have "\<exists>p \<in> ?R. sint (maxSize j) < total_of (files t) + esize (the (m p))" if "?R \<noteq> {}"
  proof -
    have ne: "rs \<noteq> []" using that by auto
    then have l: "last rs \<in> set rs" by simp
    then have "the (m (fi_path (last rs))) = fi_entry (last rs)" using am(2) sub by blast
    then show ?thesis using need [OF ne] tt l by (intro bexI [of _ "fi_path (last rs)"]) simp_all
  qed
  moreover have "now - at m q < minAge j \<or> (\<exists>f. fi_path f = q \<and> refused f)"
    if ov: "\<not> total_of (files t) \<le> sint (maxSize j)" "q \<in> dom m - ?R" for q
  proof -
    obtain g where g: "g \<in> set fs - set rs" "q = fi_path g" using kept [OF ov(2)] by blast
    then show ?thesis using enough ov(1) tt am(1) [of g] by auto
  qed
  ultimately show ?thesis using Rd mt over unfolding lru_removed_def by blast
qed

lemma cleanup_spec:
  assumes inv: "inv s" and root: "jan_rootDir j = root"
    and srt: "\<And>xs. mset (srt xs) = mset xs" "\<And>xs. sorted_wrt (\<lambda>f g. accessed f \<le> accessed g) (srt xs)"
    and w: "walk s root = (s1, vs)" "\<forall>e. VisitErr e \<notin> set vs"
    and sizes: "\<forall>p i. files s p = Some i \<longrightarrow> 0 \<le> esize i" "total_of (files s) < 2 ^ 63"
  shows "\<exists>t R. Cleanup walk remove srt j now s = (t, None) \<and>
    lru_removed j now (\<lambda>p. \<exists>f. fi_path f = p \<and> refused f) (files s) R (files t)"
proof -
  have s1: "inv s1" "files s1 = files s" and en: "distinct (map fst (entries vs))" "set (entries vs) = {(p, i). files s p = Some i}"
    using walk_law [OF inv w(1)] w(2) by auto
  define fl where "fl = map (\<lambda>(p, i). \<lparr>fi_path = p, fi_entry = i\<rparr>) (entries vs)"
  define tot where "tot = sum_list (map (fe_Size \<circ> snd) (entries vs))"
  have col: "collect vs [] 0 = Inr (fl, tot)" using collect_ok [OF w(2), of "[]" 0] by (simp add: fl_def tot_def)
  have fp: "map fi_path fl = map fst (entries vs)" "map (esize \<circ> fi_entry) fl = map sint (map (fe_Size \<circ> snd) (entries vs))"
    by (auto simp: fl_def esize_def)
  have "fi_path ` set fl = fst ` set (entries vs)" using fp(1) by (metis list.set_map)
  then have fl: "distinct (map fi_path fl)" "\<forall>f \<in> set fl. files s (fi_path f) = Some (fi_entry f)" "fi_path ` set fl = dom (files s)"
    using en fp(1) by (simp) (auto simp: fl_def en(2), (force simp: en(2))+)
  have tf: "total_of (files s) = fsum fl" unfolding total_of_def by (rule fsum_total [OF fl])
  then have tot: "sint tot = total_of (files s)"
    unfolding tot_def using sizes en(2) fp(2) by (subst sint_sum_list) (auto simp: fsum_def esize_def)
  show ?thesis
  proof (cases "sint tot \<le> sint (maxSize j)")
    case True
    then have "Cleanup walk remove srt j now s = (s1, None)" using w col by (simp add: Cleanup_def root)
    moreover have "lru_removed j now st (files s) {} (files s1)" for st
      using True tot s1 by (simp add: lru_removed_def restrict_map_def)
    ultimately show ?thesis by blast
  next
    case False
    let ?fs = "srt fl"
    have "set ?fs = set fl" "distinct (map fi_path ?fs)"
      using srt(1) fl(1) by (metis mset_eq_setD) (metis srt(1) fl(1) mset_map mset_eq_imp_distinct_iff)
    then have fs: "distinct (map fi_path ?fs)" "\<forall>f \<in> set ?fs. files s (fi_path f) = Some (fi_entry f)" "fi_path ` set ?fs = dom (files s)"
      using fl by auto
    have "total_of (files s) = fsum ?fs" unfolding total_of_def by (rule fsum_total [OF fs])
    then obtain rs where "evicted j now ?fs (sint tot) s1 (evict remove j now s1 ?fs tot) rs"
      using evict_spec [OF s1(1) fs(1) _ srt(2), of tot] fs(2) s1(2) sizes(1) tot by force
    moreover have "Cleanup walk remove srt j now s = (evict remove j now s1 ?fs tot, None)"
      using w col False by (simp add: Cleanup_def root)
    ultimately show ?thesis using evicted_removed [OF _ s1(2) fs] False tot by fastforce
  qed
qed

text \<open>A walk that fails stops the cleanup before anything is removed.\<close>

lemma cleanup_walk_error:
  assumes "inv s" "jan_rootDir j = root" "walk s root = (s1, vs)" "VisitErr e \<in> set vs"
  shows "\<exists>e'. Cleanup walk remove srt j now s = (s1, Some e') \<and> VisitErr e' \<in> set vs \<and> files s1 = files s"
  using collect_err [OF assms(4), of "[]" 0] walk_law [OF assms(1,3)] assms(2,3) by (auto simp: Cleanup_def)

end

text \<open>The files under a root on the modelled disk.\<close>

definition std_files :: "path \<Rightarrow> fsys \<Rightarrow> path \<Rightarrow> fileEntry option" where
  "std_files root s p =
     (if under root p
      then (case lookup s p of None \<Rightarrow> None | Some DirNode \<Rightarrow> None | Some n \<Rightarrow> Some (stdFileEntry s n))
      else None)"

lemma entries_simps [simp]:
  "entries [] = []" "entries (VisitErr e # vs) = entries vs"
  "entries (Visit p i # vs) = (if fe_IsDir i then entries vs else (p, i) # entries vs)"
  by (simp_all add: entries_def)

lemma walk_from_entries:
  "\<forall>e. VisitErr e \<notin> set (walk_from s ps n) \<Longrightarrow>
     entries (walk_from s ps n) =
       map (\<lambda>p. (p, stdFileEntry s (the (lookup s p)))) (filter (\<lambda>p. lookup s p \<notin> {None, Some DirNode}) ps)"
proof (induction ps arbitrary: n)
  case (Cons p ps)
  then obtain nd where nd: "fault s n = None" "lookup s p = Some nd"
    by (auto split: option.splits)
  have "fe_IsDir (stdFileEntry s nd) \<longleftrightarrow> nd = DirNode"
    by (auto simp: stdFileEntry_def split: node.splits option.splits)
  with Cons nd show ?case by auto
qed simp

lemma std_files_same:
  assumes "lookup t = lookup s"
    and "\<And>i. map_option (\<lambda>ino. (content ino, atime ino)) (inodes t i) = map_option (\<lambda>ino. (content ino, atime ino)) (inodes s i)"
  shows "std_files root t = std_files root s"
proof -
  have "stdFileEntry t nd = stdFileEntry s nd" for nd
  proof (cases nd)
    case (RegNode i)
    with assms(2) [of i] show ?thesis by (auto simp: stdFileEntry_def split: option.splits)
  qed (simp_all add: stdFileEntry_def)
  then show ?thesis by (simp add: std_files_def fun_eq_iff assms(1) split: option.splits node.splits)
qed

lemma on_file_cases:
  "on_file f s p = (t, r) \<Longrightarrow> lookup t = lookup s \<and> fault t = fault s \<and>
     (inodes t = inodes s \<or> (\<exists>i. inodes t = (inodes s)(i := map_option f (inodes s i))))"
  by (auto simp: on_file_def syscall_def Let_def split: option.splits sum.splits node.splits if_splits)

lemma Chmod_files:
  assumes "Chmod m s p = (t, r)"
  shows "lookup t = lookup s" "fault t = fault s" "std_files root t = std_files root s"
proof -
  note c = on_file_cases [OF assms [unfolded Chmod_def]]
  then show "lookup t = lookup s" "fault t = fault s" by auto
  show "std_files root t = std_files root s"
    by (rule std_files_same) (use c in \<open>auto simp: option.map_comp comp_def\<close>)
qed

lemma std_Remove_files:
  assumes f: "std_files root s p \<noteq> None" and rm: "std_Remove s p = (t, r)"
  shows "fault t = fault s"
    "std_files root t = (case r of Inr _ \<Rightarrow> (std_files root s)(p := None) | Inl e \<Rightarrow> std_files root s)"
    "r = Inl e \<Longrightarrow> \<exists>n. fault s n = Some e"
proof -
  obtain u x where ch: "Chmod 420 s p = (u, x)" by fastforce
  note c = Chmod_files [OF ch]
  obtain nd where nd: "lookup u p = Some nd" "nd \<noteq> DirNode"
    using f c(1) by (auto simp: std_files_def split: if_splits option.splits node.splits)
  have "Remove u p = (t, r)" using rm ch by (simp add: std_Remove_def)
  then have "(r = Inr () \<and> t = del_node (u\<lparr>sysno := Suc (sysno u)\<rparr>) p) \<or>
      (\<exists>e'. r = Inl e' \<and> t = u\<lparr>sysno := Suc (sysno u)\<rparr> \<and> fault u (sysno u) = Some e')"
    using nd by (auto simp: Remove_def syscall_def Let_def split: option.splits)
  note D = this
  then show "fault t = fault s" "r = Inl e \<Longrightarrow> \<exists>n. fault s n = Some e" using c(2) by auto
  have del: "std_files root (del_node (u\<lparr>sysno := n\<rparr>) p) = (std_files root u)(p := None)" for n
    by (auto simp: std_files_def stdFileEntry_def fun_eq_iff split: option.splits node.splits)
  have "std_files root (u\<lparr>sysno := n\<rparr>) = std_files root u" for n by (rule std_files_same) simp_all
  with D del c(3)
  show "std_files root t = (case r of Inr _ \<Rightarrow> (std_files root s)(p := None) | Inl e \<Rightarrow> std_files root s)" by auto
qed

lemma walk_paths_set: "set (walk_paths s root) = {p \<in> fst ` set (nodes s). under root p}"
  by (auto simp: walk_paths_def)

lemma std_Walk_law:
  assumes "std_Walk s root = (t, vs)"
  shows "fault t = fault s" "std_files root t = std_files root s"
    "\<forall>e. VisitErr e \<notin> set vs \<Longrightarrow> distinct (map fst (entries vs)) \<and> set (entries vs) = {(p, i). std_files root s p = Some i}"
proof -
  have t: "\<exists>n. t = s\<lparr>sysno := n\<rparr>" using assms by (auto simp: std_Walk_def split: if_splits)
  then show "fault t = fault s" by auto
  show "std_files root t = std_files root s" by (rule std_files_same) (use t in auto)
  assume ok: "\<forall>e. VisitErr e \<notin> set vs"
  then have vs: "vs = walk_from s (walk_paths s root) (sysno s)"
    using assms by (auto simp: std_Walk_def split: if_splits)
  note en = walk_from_entries [OF ok [unfolded vs], folded vs]
  have "distinct (walk_paths s root)" by (simp add: walk_paths_def)
  then have "distinct (map fst (entries vs))" by (simp add: en comp_def)
  moreover have "(p, i) \<in> set (entries vs) \<longleftrightarrow> std_files root s p = Some i" for p i
  proof -
    have "lookup s p \<noteq> None \<Longrightarrow> p \<in> fst ` set (nodes s)"
      by (simp add: lookup_def) (metis map_of_eq_None_iff option.distinct(1))
    then show ?thesis
      by (auto simp: en walk_paths_set std_files_def split: option.splits node.splits if_splits)
  qed
  ultimately show "distinct (map fst (entries vs)) \<and> set (entries vs) = {(p, i). std_files root s p = Some i}" by auto
qed

interpretation std: janitor_fs std_Walk std_Remove "std_files root" "\<lambda>s. fault s = F" root for root F
proof unfold_locales
  show "fault t = F \<and> std_files root t = std_files root s \<and>
      ((\<forall>e. VisitErr e \<notin> set vs) \<longrightarrow>
         distinct (map fst (entries vs)) \<and> set (entries vs) = {(p, i). std_files root s p = Some i})"
    if "fault s = F" "std_Walk s root = (t, vs)" for s t vs
    using std_Walk_law [OF that(2)] that(1) by simp
  show "fault t = F \<and> std_files root t =
      (case r of Inr _ \<Rightarrow> (std_files root s)(p := None) | Inl e \<Rightarrow> std_files root s)"
    if "fault s = F" "std_files root s p \<noteq> None" "std_Remove s p = (t, r)" for s p t r
    using std_Remove_files(1,2) [OF that(2,3)] that(1) by simp
qed

lemma lru_removed_mono:
  "lru_removed j now stuck m R m' \<Longrightarrow> (\<And>p. p \<in> dom m - R \<Longrightarrow> stuck p \<Longrightarrow> stuck' p) \<Longrightarrow> lru_removed j now stuck' m R m'"
  unfolding lru_removed_def by blast

section \<open>Properties of the janitor\<close>


definition disk2 :: fsys where
  "disk2 = \<lparr>nodes = [(Path True [''c''], DirNode), (Path True [''c'', ''a''], RegNode 0)],
            inodes = [0 \<mapsto> \<lparr>content = [1, 2, 3], mode = 292, atime = 0\<rparr>], next_ino = 1, sysno = 0,
            fault = (\<lambda>_. None), short = (\<lambda>_. 0), rnd = (\<lambda>n. n), clock = (\<lambda>_. 0)\<rparr>"

definition jan0 :: Janitor where
  "jan0 = NewJanitor (Path True [''c'']) 0"

lemma disk2_files:
  "std_files (Path True [''c'']) disk2 = [Path True [''c'', ''a''] \<mapsto> \<lparr>fe_Size = 3, fe_IsDir = False, fe_AccessTime = 0\<rparr>]"
  by (auto simp: std_files_def disk2_def lookup_def fun_eq_iff under_def stdFileEntry_def)


text \<open>A cleanup whose walk meets an error removes nothing and reports the error.\<close>

theorem janitor_walk_error:
  assumes "std_Walk s (jan_rootDir j) = (s1, vs)" "VisitErr e \<in> set vs"
  shows "\<exists>e'. Cleanup std_Walk std_Remove srt j now s = (s1, Some e') \<and> VisitErr e' \<in> set vs \<and>
     std_files (jan_rootDir j) s1 = std_files (jan_rootDir j) s"
  by (rule std.cleanup_walk_error [OF refl refl assms])

theorem janitor_walk_error_witness:
  "\<exists>e t. Cleanup std_Walk std_Remove (sort_key accessed) (NewJanitor (Path True [''x'']) 1) 0 disk2 = (t, Some e)"
  using janitor_walk_error [of disk2 "NewJanitor (Path True [''x'']) 1" _ "[VisitErr ErrNotExist]" ErrNotExist "sort_key accessed" 0]
  by (auto simp: std_Walk_def lookup_def disk2_def NewJanitor_def)

text \<open>C12: The size limit is the configured number of gigabytes for every value below 8589934592; the product
  wraps to a negative limit at that value.\<close>

theorem max_size_exact:
  assumes "0 \<le> gb" "gb < 2 ^ 33"
  shows "sint (maxSize (NewJanitor dir gb)) = gb * 2 ^ 30 \<and> sint (maxSize (NewJanitor dir (2 ^ 33))) < 0"
proof -
  have "maxSize (NewJanitor dir gb) = word_of_int (gb * 2 ^ 30)"
    by (simp add: NewJanitor_def wi_hom_mult flip: mult.assoc)
  then have "sint (maxSize (NewJanitor dir gb)) = signed_take_bit 63 (gb * 2 ^ 30)"
    by (simp only: sint_sbintrunc') simp
  also have "\<dots> = gb * 2 ^ 30" using assms by (intro signed_take_bit_int_eq_self) simp_all
  finally show ?thesis by (simp add: NewJanitor_def)
qed

theorem max_size_exact_witness: "sint (maxSize (NewJanitor (Path True []) 100)) = 107374182400"
  using max_size_exact [of 100 "Path True []"] by simp

definition pending :: "loop \<Rightarrow> bool" where
  "pending s \<longleftrightarrow> notifyCh s \<or> armed s \<noteq> None \<or> 0 < firing s \<or> debounceCh s"

lemma pending_step:
  "jan_step j s e = Some t \<Longrightarrow> e \<noteq> JCleanup \<Longrightarrow> e \<noteq> JDone \<Longrightarrow> pending s \<Longrightarrow> \<not> stopped s \<Longrightarrow> pending t \<and> \<not> stopped t"
  by (cases e) (auto simp: pending_def Notify_def split: if_splits option.splits)

lemma pending_run:
  "run (jan_step j) s es = Some t \<Longrightarrow> JCleanup \<notin> set es \<Longrightarrow> JDone \<notin> set es \<Longrightarrow> pending s \<Longrightarrow> \<not> stopped s \<Longrightarrow>
     pending t \<and> \<not> stopped t"
proof (induction es arbitrary: s)
  case (Cons e es)
  then obtain u where u: "jan_step j s e = Some u" "run (jan_step j) u es = Some t"
    by (auto split: option.splits)
  with pending_step [OF u(1)] Cons show ?case by auto
qed simp

lemma pending_cleanup:
  assumes "pending s" "\<not> stopped s"
  shows "\<exists>fs u. run (jan_step j) s fs = Some u \<and> JNotify \<notin> set fs \<and> cleanups u = Suc (cleanups s)"
proof -
  consider "debounceCh s" | "0 < firing s" | d where "armed s = Some d" | "notifyCh s"
    using assms(1) by (auto simp: pending_def)
  then show ?thesis
  proof cases
    case 1
    then show ?thesis using assms(2) by (intro exI [of _ "[JCleanup]"]) simp
  next
    case 2
    then show ?thesis using assms(2) by (intro exI [of _ "[JSend, JCleanup]"]) simp
  next
    case 3
    then show ?thesis using assms(2) by (intro exI [of _ "[JFire d, JSend, JCleanup]"]) simp
  next
    case 4
    then show ?thesis using assms(2)
      by (intro exI [of _ "[JReceive 0, JFire (debounceDur j), JSend, JCleanup]"]) simp
  qed
qed

text \<open>C13: No notification is lost: after a notification, as long as no cleanup has run and the loop was
  not stopped, whatever further notifications and timer events come in between, the loop and its timer can
  go on by themselves to a cleanup.\<close>

theorem notify_leads_to_cleanup:
  assumes "run (jan_step j) s (JNotify # es) = Some t" "JCleanup \<notin> set es" "JDone \<notin> set es" "\<not> stopped s"
  shows "\<exists>fs u. run (jan_step j) t fs = Some u \<and> JNotify \<notin> set fs \<and> cleanups u = Suc (cleanups t)"
proof -
  have "run (jan_step j) (Notify s) es = Some t" using assms(1) by simp
  moreover have "pending (Notify s)" "\<not> stopped (Notify s)" using assms(4) by (simp_all add: pending_def Notify_def)
  ultimately show ?thesis using pending_run [OF _ assms(2,3)] pending_cleanup by blast
qed

theorem notify_leads_to_cleanup_witness:
  "\<exists>t fs u. run (jan_step jan0) loop0 (JNotify # [JReceive 0, JNotify, JFire (5 * second)]) = Some t \<and>
     run (jan_step jan0) t fs = Some u \<and> JNotify \<notin> set fs \<and> cleanups u = Suc (cleanups t)"
proof -
  obtain t where t: "run (jan_step jan0) loop0 (JNotify # [JReceive 0, JNotify, JFire (5 * second)]) = Some t"
    by (simp add: loop0_def jan0_def NewJanitor_def Notify_def)
  with notify_leads_to_cleanup [OF t] show ?thesis by (auto simp: loop0_def)
qed

definition owed :: "loop \<Rightarrow> nat" where
  "owed s = cleanups s + firing s + (if armed s = None then 0 else 1) + (if debounceCh s then 1 else 0)"

lemma owed_step: "jan_step j s e = Some t \<Longrightarrow> owed s \<le> taken_notes s \<Longrightarrow> owed t \<le> taken_notes t"
  by (cases e) (auto simp: owed_def Notify_def split: if_splits option.splits)

text \<open>Cleanups do not outnumber notifications: a run of the loop cleans up at most once for each
  notification it received, however often the timer is restarted.\<close>

theorem cleanups_bounded:
  assumes "run (jan_step j) loop0 es = Some t"
  shows "cleanups t \<le> taken_notes t"
proof -
  have "owed t \<le> taken_notes t" if "run (jan_step j) s es = Some t" "owed s \<le> taken_notes s" for s
    using that
  proof (induction es arbitrary: s)
    case (Cons e es)
    then show ?case using owed_step by (fastforce split: option.splits)
  qed simp
  from this [OF assms] show ?thesis by (simp add: owed_def loop0_def)
qed

theorem cleanups_bounded_witness:
  "\<exists>t. run (jan_step jan0) loop0 [JNotify, JReceive 0, JFire (5 * second), JSend, JCleanup] = Some t \<and>
     cleanups t \<le> taken_notes t"
proof -
  obtain t where t: "run (jan_step jan0) loop0 [JNotify, JReceive 0, JFire (5 * second), JSend, JCleanup] = Some t"
    by (simp add: loop0_def jan0_def NewJanitor_def Notify_def)
  with cleanups_bounded [OF t] show ?thesis by blast
qed

end
