(* ===== verification/Cluster.thy ===== *)
theory Cluster
  imports Complex_Main Scheduler OS "HOL-Library.Char_ord" "HOL-Library.List_Lexorder"
begin

text \<open>
  The cluster manager (\<^verbatim>\<open>pkg/cluster/cluster.go\<close>): the table of peers kept from gossip messages and
  membership events, the choice of the least loaded peer, peer discovery, and the loop that broadcasts
  the local state. The memberlist library and protobuf are parameters: the member list, the results of
  its calls and the codec of \<open>NodeState\<close>. The address functions of package \<^verbatim>\<open>net\<close> are modelled.
\<close>

section \<open>Addresses\<close>

text \<open>The text before and after the last occurrence of a character.\<close>

definition split_last :: "char \<Rightarrow> string \<Rightarrow> (string \<times> string) option" where
  "split_last c s =
     (if c \<in> set s
      then Some (rev (tl (dropWhile (\<lambda>x. x \<noteq> c) (rev s))), rev (takeWhile (\<lambda>x. x \<noteq> c) (rev s)))
      else None)"

text \<open>
  \<open>net.SplitHostPort\<close>: the port starts after the last colon; a host in brackets may hold colons, and
  brackets are allowed nowhere else.
\<close>

definition split_bracket :: "string \<Rightarrow> string \<Rightarrow> goerr + (string \<times> string)" where
  "split_bracket text port =
     (let host = takeWhile (\<lambda>x. x \<noteq> CHR '']'') text;
          rest = dropWhile (\<lambda>x. x \<noteq> CHR '']'') text
      in if rest = [] then Inl (Errorf ''missing bracket in address'')
         else if tl rest = [] then Inl (Errorf ''missing port in address'')
         else if tl rest \<noteq> CHR '':'' # port
         then Inl (if hd (tl rest) = CHR '':'' then Errorf ''too many colons in address''
                   else Errorf ''missing port in address'')
         else if CHR ''['' \<in> set text then Inl (Errorf ''unexpected bracket in address'')
         else if CHR '']'' \<in> set port then Inl (Errorf ''unexpected bracket in address'')
         else Inr (host, port))"

definition SplitHostPort :: "string \<Rightarrow> goerr + (string \<times> string)" where
  "SplitHostPort hostport =
     (case split_last (CHR '':'') hostport of
        None \<Rightarrow> Inl (Errorf ''missing port in address'')
      | Some (host, port) \<Rightarrow>
          if hd hostport = CHR ''['' then split_bracket (tl hostport) port
          else if CHR '':'' \<in> set host then Inl (Errorf ''too many colons in address'')
          else if CHR ''['' \<in> set hostport then Inl (Errorf ''unexpected bracket in address'')
          else if CHR '']'' \<in> set hostport then Inl (Errorf ''unexpected bracket in address'')
          else Inr (host, port))"

definition JoinHostPort :: "string \<Rightarrow> string \<Rightarrow> string" where
  "JoinHostPort host port =
     (if CHR '':'' \<in> set host then ''['' @ host @ '']:'' @ port else host @ '':'' @ port)"

section \<open>State\<close>

record NodeState =
  ns_Name :: string
  GrpcAddress :: string
  PendingTasks :: "32 word"
  MaxConcurrency :: "32 word"
  LastUpdated :: gotime

record ClusterConfig =
  cc_Enabled :: bool
  cc_NodeID :: string
  BindPort :: nat
  AdvertiseAddr :: string
  DiscoveryMode :: string
  JoinPeers :: "string list"
  DNSServiceName :: string
  BroadcastPeriod :: duration

text \<open>A node of the memberlist library; the address is in the form \<open>net.IP.String\<close> gives it.\<close>

record Node =
  nd_Name :: string
  nd_Addr :: string
  nd_Port :: nat
  nd_Meta :: bytes

record nscodec =
  marshal_ns :: "NodeState \<Rightarrow> goerr + bytes"
  unmarshal_ns :: "bytes \<Rightarrow> goerr + NodeState"

text \<open>
  The manager. \<open>loadProvider\<close> says whether one is set; what it reports is an argument of the operations
  that ask it. \<open>memlist\<close> is the member list (none before \<open>Start\<close>), and \<open>broadcasts\<close> what was handed to
  the broadcast queue (none before \<open>Start\<close>).
\<close>

record Manager =
  m_cfg :: ClusterConfig
  concurrency :: int
  loadProvider :: bool
  localState :: NodeState
  peers :: "string \<Rightarrow> NodeState option"
  memlist :: "Node list option"
  broadcasts :: "bytes list option"

text \<open>\<open>hostname\<close> is what \<open>os.Hostname\<close> returns and \<open>uuid\<close> a fresh UUID.\<close>

definition NewManager ::
  "ClusterConfig \<Rightarrow> string \<Rightarrow> int \<Rightarrow> bool \<Rightarrow> goerr + string \<Rightarrow> string \<Rightarrow> gotime \<Rightarrow> Manager" where
  "NewManager cfg grpcAddress conc lp hostname uuid now =
     (let nid = (if cc_NodeID cfg = [] then (case hostname of Inl _ \<Rightarrow> uuid | Inr h \<Rightarrow> h) else cc_NodeID cfg)
      in \<lparr>m_cfg = cfg, concurrency = conc, loadProvider = lp,
          localState = \<lparr>ns_Name = nid, GrpcAddress = grpcAddress, PendingTasks = 0,
                        MaxConcurrency = word_of_int conc, LastUpdated = now\<rparr>,
          peers = Map.empty, memlist = None, broadcasts = None\<rparr>)"

definition cm_NodeID :: "Manager \<Rightarrow> string" where
  "cm_NodeID m = ns_Name (localState m)"

definition SetLoadProvider :: "Manager \<Rightarrow> Manager" where
  "SetLoadProvider m = m\<lparr>loadProvider := True\<rparr>"

definition GetLocalState :: "Manager \<Rightarrow> int \<Rightarrow> gotime \<Rightarrow> NodeState" where
  "GetLocalState m load now =
     (let state = (if loadProvider m then (localState m)\<lparr>PendingTasks := word_of_int load\<rparr> else localState m)
      in state\<lparr>LastUpdated := now\<rparr>)"

text \<open>Ranging over the map of peers has an open order: \<open>names\<close>.\<close>

definition GetPeers :: "Manager \<Rightarrow> string list \<Rightarrow> NodeState list" where
  "GetPeers m names = List.map_filter (peers m) names"

definition GetPeerByNodeID :: "Manager \<Rightarrow> string \<Rightarrow> NodeState option" where
  "GetPeerByNodeID m nid = peers m nid"

section \<open>The choice of a peer\<close>

text \<open>
  Values of type \<open>float64\<close> as far as they occur in the load ratios. \<open>rd\<close> is the rounding of IEEE
  arithmetic; a quotient of zero by zero is not a number and compares false with everything.
\<close>

datatype f64 = NaN | NegInf | Fin rat | PosInf

fun less_f64 :: "f64 \<Rightarrow> f64 \<Rightarrow> bool" where
  "less_f64 NaN y = False"
| "less_f64 NegInf y = (case y of NaN \<Rightarrow> False | NegInf \<Rightarrow> False | _ \<Rightarrow> True)"
| "less_f64 (Fin a) y = (case y of NaN \<Rightarrow> False | NegInf \<Rightarrow> False | Fin b \<Rightarrow> a < b | PosInf \<Rightarrow> True)"
| "less_f64 PosInf y = False"

definition ratio :: "(rat \<Rightarrow> rat) \<Rightarrow> int \<Rightarrow> int \<Rightarrow> f64" where
  "ratio rd pending capacity =
     (let a = rd (of_int pending); b = rd (of_int capacity)
      in if b = 0 then (if a = 0 then NaN else if 0 < a then PosInf else NegInf)
         else Fin (rd (a / b)))"

definition has_capacity :: "NodeState \<Rightarrow> bool" where
  "has_capacity p \<longleftrightarrow> sint (PendingTasks p) < sint (MaxConcurrency p)"

definition peer_ratio :: "(rat \<Rightarrow> rat) \<Rightarrow> NodeState \<Rightarrow> f64" where
  "peer_ratio rd p = ratio rd (sint (PendingTasks p)) (sint (MaxConcurrency p))"

text \<open>The loop of \<open>SelectBestPeer\<close>, with the best peer so far and its load and capacity.\<close>

fun best_peer ::
  "(rat \<Rightarrow> rat) \<Rightarrow> NodeState list \<Rightarrow> NodeState option \<Rightarrow> int \<Rightarrow> int \<Rightarrow> NodeState option" where
  "best_peer rd [] bestPeer bestLoad bestCapacity = bestPeer"
| "best_peer rd (peer # rest) bestPeer bestLoad bestCapacity =
     (if \<not> has_capacity peer then best_peer rd rest bestPeer bestLoad bestCapacity
      else if less_f64 (peer_ratio rd peer) (ratio rd bestLoad bestCapacity)
      then best_peer rd rest (Some peer) (sint (PendingTasks peer)) (sint (MaxConcurrency peer))
      else best_peer rd rest bestPeer bestLoad bestCapacity)"

definition SelectBestPeer :: "(rat \<Rightarrow> rat) \<Rightarrow> Manager \<Rightarrow> int \<Rightarrow> NodeState list \<Rightarrow> NodeState option" where
  "SelectBestPeer rd m load order =
     (let localLoad = (if loadProvider m then load else 0);
          localHasCapacity = (localLoad < concurrency m);
          bestPeer = best_peer rd order None localLoad (concurrency m)
      in if localHasCapacity \<and> bestPeer = None then None else bestPeer)"

section \<open>Gossip and membership events\<close>

definition bind_host :: "string \<Rightarrow> bool" where
  "bind_host host \<longleftrightarrow> host = [] \<or> host = ''0.0.0.0'' \<or> host = ''::''"

text \<open>The replacement of a bind address by an address that can be dialled.\<close>

definition fix_address :: "string \<Rightarrow> string \<Rightarrow> string" where
  "fix_address addr newHost =
     (case SplitHostPort addr of
        Inl _ \<Rightarrow> addr
      | Inr (host, port) \<Rightarrow> if bind_host host then JoinHostPort newHost port else addr)"

definition NotifyMsg :: "nscodec \<Rightarrow> Manager \<Rightarrow> bytes \<Rightarrow> Manager" where
  "NotifyMsg P m msg =
     (if msg = [] then m
      else (case unmarshal_ns P msg of
              Inl _ \<Rightarrow> m
            | Inr state \<Rightarrow>
                if ns_Name state = ns_Name (localState m) then m
                else (case peers m (ns_Name state) of
                        Some existing \<Rightarrow>
                          (let addr = (case SplitHostPort (GrpcAddress state) of
                                         Inl _ \<Rightarrow> GrpcAddress state
                                       | Inr (host, port) \<Rightarrow>
                                           if bind_host host
                                           then (case SplitHostPort (GrpcAddress existing) of
                                                   Inl _ \<Rightarrow> GrpcAddress state
                                                 | Inr (existingHost, _) \<Rightarrow> JoinHostPort existingHost port)
                                           else GrpcAddress state)
                           in m\<lparr>peers := (peers m)(ns_Name state \<mapsto> state\<lparr>GrpcAddress := addr\<rparr>)\<rparr>)
                      | None \<Rightarrow> m\<lparr>peers := (peers m)(ns_Name state \<mapsto> state)\<rparr>)))"

definition MergeRemoteState :: "nscodec \<Rightarrow> Manager \<Rightarrow> bytes \<Rightarrow> Manager" where
  "MergeRemoteState P m buffer = NotifyMsg P m buffer"

definition NotifyJoin :: "nscodec \<Rightarrow> gotime \<Rightarrow> Manager \<Rightarrow> Node \<Rightarrow> Manager" where
  "NotifyJoin P now m node =
     (if nd_Name node = ns_Name (localState m) then m
      else (let state = (case unmarshal_ns P (nd_Meta node) of
                           Inr st \<Rightarrow> st
                         | Inl _ \<Rightarrow> \<lparr>ns_Name = nd_Name node,
                                     GrpcAddress = nd_Addr node @ '':'' @ show_nat (nd_Port node),
                                     PendingTasks = 0, MaxConcurrency = 0, LastUpdated = now\<rparr>)
            in m\<lparr>peers := (peers m)(nd_Name node \<mapsto>
                   state\<lparr>GrpcAddress := fix_address (GrpcAddress state) (nd_Addr node)\<rparr>)\<rparr>))"

definition NotifyLeave :: "Manager \<Rightarrow> Node \<Rightarrow> Manager" where
  "NotifyLeave m node =
     (if nd_Name node = ns_Name (localState m) then m
      else m\<lparr>peers := (peers m)(nd_Name node := None)\<rparr>)"

definition NotifyUpdate :: "nscodec \<Rightarrow> Manager \<Rightarrow> Node \<Rightarrow> Manager" where
  "NotifyUpdate P m node =
     (if nd_Name node = ns_Name (localState m) then m
      else (case unmarshal_ns P (nd_Meta node) of
              Inl _ \<Rightarrow> m
            | Inr state \<Rightarrow>
                m\<lparr>peers := (peers m)(nd_Name node \<mapsto>
                  state\<lparr>GrpcAddress := fix_address (GrpcAddress state) (nd_Addr node)\<rparr>)\<rparr>))"

section \<open>Broadcasts\<close>

definition NodeMeta :: "nscodec \<Rightarrow> Manager \<Rightarrow> int \<Rightarrow> gotime \<Rightarrow> nat \<Rightarrow> bytes" where
  "NodeMeta P m load now limit =
     (case marshal_ns P (GetLocalState m load now) of
        Inl _ \<Rightarrow> []
      | Inr data \<Rightarrow> if limit < length data then [] else data)"

definition LocalState :: "nscodec \<Rightarrow> Manager \<Rightarrow> int \<Rightarrow> gotime \<Rightarrow> bytes" where
  "LocalState P m load now = NodeMeta P m load now 512"

definition BroadcastState :: "nscodec \<Rightarrow> Manager \<Rightarrow> int \<Rightarrow> gotime \<Rightarrow> Manager" where
  "BroadcastState P m load now =
     (case broadcasts m of
        None \<Rightarrow> m
      | Some queue \<Rightarrow>
          (case marshal_ns P (GetLocalState m load now) of
             Inl _ \<Rightarrow> m
           | Inr data \<Rightarrow> m\<lparr>broadcasts := Some (queue @ [data])\<rparr>))"

section \<open>Discovery\<close>

text \<open>
  What the resolver and the context do at each attempt: the result of the lookup, whether the context
  has an error then, and whether it ends while the loop waits.
\<close>

record resolver =
  dns_lookup :: "nat \<Rightarrow> goerr + string list"
  dns_ctxErr :: "nat \<Rightarrow> bool"
  dns_ctxDone :: "nat \<Rightarrow> bool"

fun dns_retry :: "resolver \<Rightarrow> nat \<Rightarrow> nat \<Rightarrow> goerr \<Rightarrow> goerr + string list" where
  "dns_retry env 0 i lastErr = Inl (Wrap ''DNS lookup failed after retries'' lastErr)"
| "dns_retry env (Suc n) i lastErr =
     (case dns_lookup env i of
        Inr ips \<Rightarrow> Inr ips
      | Inl err \<Rightarrow>
          if dns_ctxErr env i then Inl CtxErr
          else if dns_ctxDone env i then Inl CtxErr
          else dns_retry env n (Suc i) err)"

definition discoverDNS :: "resolver \<Rightarrow> Manager \<Rightarrow> goerr + string list" where
  "discoverDNS env m =
     (if DNSServiceName (m_cfg m) = []
      then Inl (Errorf ''dns_service_name is required for DNS discovery'')
      else (case dns_retry env 5 0 CtxErr of
              Inl e \<Rightarrow> Inl e
            | Inr ips \<Rightarrow> Inr (map (\<lambda>ip. ip @ '':'' @ show_nat (BindPort (m_cfg m))) ips)))"

definition discoverPeers :: "resolver \<Rightarrow> Manager \<Rightarrow> goerr + string list" where
  "discoverPeers env m =
     (if DiscoveryMode (m_cfg m) = ''dns'' then discoverDNS env m else Inr (JoinPeers (m_cfg m)))"

definition filterKnownPeers :: "Manager \<Rightarrow> string list \<Rightarrow> string list" where
  "filterKnownPeers m candidates =
     (case memlist m of
        None \<Rightarrow> candidates
      | Some members \<Rightarrow>
          (let known = map (\<lambda>nd. JoinHostPort (nd_Addr nd) (show_nat (nd_Port nd))) members
           in filter (\<lambda>c. c \<notin> set known) candidates))"

text \<open>
  \<open>Start\<close>: \<open>created\<close> is the result of \<open>memberlist.Create\<close>, with the initial members. It returns the
  addresses to join; joining is best effort and its error is only logged.
\<close>

definition Start ::
  "goerr + Node list \<Rightarrow> resolver \<Rightarrow> Manager \<Rightarrow> Manager \<times> string list \<times> goerr option" where
  "Start created env m =
     (case created of
        Inl e \<Rightarrow> (m, [], Some (Wrap ''failed to create memberlist'' e))
      | Inr members \<Rightarrow>
          (let m = m\<lparr>memlist := Some members, broadcasts := Some []\<rparr>
           in case discoverPeers env m of
                Inl e \<Rightarrow> (m, [], Some (Wrap ''peer discovery failed'' e))
              | Inr ps \<Rightarrow> (m, ps, None)))"

text \<open>\<open>Stop\<close>, with the errors of leaving the member list and of shutting it down.\<close>

definition Stop :: "goerr option \<Rightarrow> goerr option \<Rightarrow> Manager \<Rightarrow> goerr option" where
  "Stop leaveErr shutdownErr m =
     (case memlist m of
        None \<Rightarrow> None
      | Some _ \<Rightarrow>
          (case leaveErr of
             Some e \<Rightarrow> Some (Wrap ''failed to leave cluster'' e)
           | None \<Rightarrow> shutdownErr))"

text \<open>\<open>take_queued\<close> is \<open>GetBroadcasts\<close> of the library on what was queued.\<close>

definition GetBroadcasts :: "(bytes list \<Rightarrow> int \<Rightarrow> int \<Rightarrow> bytes list) \<Rightarrow> Manager \<Rightarrow> int \<Rightarrow> int \<Rightarrow> bytes list" where
  "GetBroadcasts take_queued m overhead limit =
     (case broadcasts m of None \<Rightarrow> [] | Some q \<Rightarrow> take_queued q overhead limit)"

definition Members :: "Manager \<Rightarrow> nat" where
  "Members m = (case memlist m of None \<Rightarrow> 1 | Some members \<Rightarrow> length members)"

definition HealthyMembers :: "Manager \<Rightarrow> string list" where
  "HealthyMembers m =
     (case memlist m of
        None \<Rightarrow> [ns_Name (localState m)]
      | Some members \<Rightarrow> sort (map nd_Name members))"

section \<open>The loop\<close>

text \<open>
  One case of the select in \<open>Run\<close>: a broadcast tick, a load check, a DNS recheck. The last component is the
  list of addresses joined.
\<close>

datatype cm_event = CTick int gotime | CLoad int gotime | CDns resolver

fun cm_step :: "nscodec \<Rightarrow> Manager \<times> int \<Rightarrow> cm_event \<Rightarrow> (Manager \<times> int) \<times> string list" where
  "cm_step P (m, lastLoad) (CTick load now) = ((BroadcastState P m load now, lastLoad), [])"
| "cm_step P (m, lastLoad) (CLoad load now) =
     (if loadProvider m \<and> load \<noteq> lastLoad
      then ((if 0 < load then BroadcastState P m load now else m, load), [])
      else ((m, lastLoad), []))"
| "cm_step P (m, lastLoad) (CDns env) =
     (if DiscoveryMode (m_cfg m) = ''dns''
      then (case discoverDNS env m of
              Inl _ \<Rightarrow> ((m, lastLoad), [])
            | Inr ps \<Rightarrow> ((m, lastLoad), filterKnownPeers m ps))
      else ((m, lastLoad), []))"

section \<open>Lemmas on addresses\<close>

lemma split_last_append:
  assumes "c \<notin> set ys"
  shows "split_last c (xs @ c # ys) = Some (xs, ys)"
proof -
  have "takeWhile (\<lambda>x. x \<noteq> c) (rev ys @ c # rev xs) = rev ys"
    "dropWhile (\<lambda>x. x \<noteq> c) (rev ys @ c # rev xs) = c # rev xs"
    using assms by (auto intro!: takeWhile_append_stop dropWhile_append_stop)
  then show ?thesis by (simp add: split_last_def)
qed

lemma split_last_Some:
  assumes "split_last c s = Some (xs, ys)"
  shows "s = xs @ c # ys" "c \<notin> set ys"
proof -
  have c: "c \<in> set s" using assms by (simp add: split_last_def split: if_splits)
  then obtain us vs where s: "s = us @ c # vs" "c \<notin> set vs" by (metis split_list_last)
  with split_last_append [OF s(2), of us] assms show "s = xs @ c # ys" "c \<notin> set ys" by auto
qed

lemma SplitHostPort_Join:
  assumes "CHR ''['' \<notin> set host" "CHR '']'' \<notin> set host"
    and "CHR ''['' \<notin> set port" "CHR '']'' \<notin> set port" "CHR '':'' \<notin> set port"
  shows "SplitHostPort (JoinHostPort host port) = Inr (host, port)"
proof (cases "CHR '':'' \<in> set host")
  case True
  have j: "JoinHostPort host port = (CHR ''['' # host @ '']'') @ CHR '':'' # port"
    using True by (simp add: JoinHostPort_def)
  have "takeWhile (\<lambda>x. x \<noteq> CHR '']'') (host @ CHR '']'' # CHR '':'' # port) = host"
    "dropWhile (\<lambda>x. x \<noteq> CHR '']'') (host @ CHR '']'' # CHR '':'' # port) = CHR '']'' # CHR '':'' # port"
    using assms(2) by (auto intro!: takeWhile_append_stop dropWhile_append_stop)
  then have "split_bracket (host @ CHR '']'' # CHR '':'' # port) port = Inr (host, port)"
    using assms by (simp add: split_bracket_def)
  then show ?thesis unfolding SplitHostPort_def j split_last_append [OF assms(5)] by simp
next
  case False
  then have j: "JoinHostPort host port = host @ CHR '':'' # port" by (simp add: JoinHostPort_def)
  have "hd (host @ CHR '':'' # port) \<noteq> CHR ''[''" using assms(1) by (cases host) auto
  then show ?thesis unfolding SplitHostPort_def j split_last_append [OF assms(5)]
    using assms False by simp
qed

lemma SplitHostPort_port:
  assumes "SplitHostPort a = Inr (host, port)"
  shows "CHR ''['' \<notin> set port" "CHR '']'' \<notin> set port" "CHR '':'' \<notin> set port"
proof -
  obtain before p where sl: "split_last (CHR '':'') a = Some (before, p)"
    using assms by (auto simp: SplitHostPort_def split: option.splits)
  note s = split_last_Some [OF sl]
  have "p = port \<and> CHR ''['' \<notin> set p \<and> CHR '']'' \<notin> set p"
  proof (cases "hd a = CHR ''[''")
    case True
    then have sb: "split_bracket (tl a) p = Inr (host, port)" using assms sl by (simp add: SplitHostPort_def)
    have "set p \<subseteq> set (tl a)" using s(1) by (cases before) auto
    then show ?thesis using sb by (auto simp: split_bracket_def Let_def split: if_splits)
  next
    case False
    then show ?thesis using assms sl s(1) by (auto simp: SplitHostPort_def split: if_splits)
  qed
  then show "CHR ''['' \<notin> set port" "CHR '']'' \<notin> set port" "CHR '':'' \<notin> set port" using s(2) by auto
qed

text \<open>\<open>net.SplitHostPort\<close> undoes \<open>net.JoinHostPort\<close> for every host without brackets and every port
  without brackets and colons, also for IPv6 hosts, whose colons are put into brackets.\<close>

theorem split_join_host_port:
  assumes "CHR ''['' \<notin> set host" "CHR '']'' \<notin> set host"
    and "CHR ''['' \<notin> set port" "CHR '']'' \<notin> set port" "CHR '':'' \<notin> set port"
  shows "SplitHostPort (JoinHostPort host port) = Inr (host, port)"
  by (rule SplitHostPort_Join [OF assms])

theorem split_join_host_port_witness: "SplitHostPort ''[fe80::1]:9092'' = Inr (''fe80::1'', ''9092'')"
  using split_join_host_port [of "''fe80::1''" "''9092''"] by (simp add: JoinHostPort_def)


section \<open>Properties of the peer table\<close>

datatype gossip = GMsg bytes | GMerge bytes | GJoin gotime Node | GLeave Node | GUpdate Node

fun gossip_step :: "nscodec \<Rightarrow> Manager \<Rightarrow> gossip \<Rightarrow> Manager" where
  "gossip_step P m (GMsg b) = NotifyMsg P m b"
| "gossip_step P m (GMerge b) = MergeRemoteState P m b"
| "gossip_step P m (GJoin now nd) = NotifyJoin P now m nd"
| "gossip_step P m (GLeave nd) = NotifyLeave m nd"
| "gossip_step P m (GUpdate nd) = NotifyUpdate P m nd"

lemmas gossip_defs = NotifyMsg_def MergeRemoteState_def NotifyJoin_def NotifyLeave_def NotifyUpdate_def

lemma gossip_frame:
  "localState (gossip_step P m g) = localState m \<and> concurrency (gossip_step P m g) = concurrency m"
  by (cases g) (auto simp: gossip_defs Let_def split: sum.splits option.splits)

lemma gossip_self:
  "peers m (cm_NodeID m) = None \<Longrightarrow> peers (gossip_step P m g) (cm_NodeID m) = None"
  by (cases g) (auto simp: gossip_defs cm_NodeID_def Let_def split: sum.splits option.splits)

text \<open>Whatever gossip and membership events arrive, a manager never lists itself among its peers and
  never changes its own identity, so a request is never forwarded to the node itself under its own name.\<close>

theorem peers_exclude_self:
  "peers (foldl (gossip_step P) (NewManager cfg addr conc lp hostname uuid now) gs)
     (cm_NodeID (NewManager cfg addr conc lp hostname uuid now)) = None \<and>
   localState (foldl (gossip_step P) (NewManager cfg addr conc lp hostname uuid now) gs) =
     localState (NewManager cfg addr conc lp hostname uuid now)"
proof -
  have "peers (foldl (gossip_step P) m gs) (cm_NodeID m) = None \<and> localState (foldl (gossip_step P) m gs) = localState m"
    if "peers m (cm_NodeID m) = None" for m
    using that
  proof (induction gs arbitrary: m)
    case (Cons g gs)
    have "cm_NodeID (gossip_step P m g) = cm_NodeID m" using gossip_frame [of P m g] by (simp add: cm_NodeID_def)
    with Cons.IH [of "gossip_step P m g"] gossip_self [OF Cons.prems] gossip_frame [of P m g] show ?case by simp
  qed simp
  moreover have "peers (NewManager cfg addr conc lp hostname uuid now) n = None" for n
    by (simp add: NewManager_def Let_def)
  ultimately show ?thesis by blast
qed

text \<open>An address with a host that can be dialled, as far as it splits at all.\<close>

definition dialable :: "string \<Rightarrow> bool" where
  "dialable addr \<longleftrightarrow> (case SplitHostPort addr of Inl _ \<Rightarrow> True | Inr (host, _) \<Rightarrow> \<not> bind_host host)"

definition ip_text :: "string \<Rightarrow> bool" where
  "ip_text a \<longleftrightarrow> CHR ''['' \<notin> set a \<and> CHR '']'' \<notin> set a \<and> \<not> bind_host a"

lemma dialable_join:
  "SplitHostPort x = Inr (h, port) \<Longrightarrow> CHR ''['' \<notin> set host \<Longrightarrow> CHR '']'' \<notin> set host \<Longrightarrow> \<not> bind_host host \<Longrightarrow>
     dialable (JoinHostPort host port)"
  using SplitHostPort_Join [OF _ _ SplitHostPort_port] by (simp add: dialable_def)

lemma dialable_fix: "ip_text host \<Longrightarrow> dialable (fix_address addr host)"
  by (auto simp: fix_address_def ip_text_def intro: dialable_join split: sum.splits)
    (auto simp: dialable_def)

lemma SplitHostPort_host:
  assumes "SplitHostPort a = Inr (host, port)"
  shows "CHR ''['' \<notin> set host" "CHR '']'' \<notin> set host"
proof -
  obtain before p where sl: "split_last (CHR '':'') a = Some (before, p)"
    using assms by (auto simp: SplitHostPort_def split: option.splits)
  note s = split_last_Some [OF sl]
  have "CHR ''['' \<notin> set host \<and> CHR '']'' \<notin> set host"
  proof (cases "hd a = CHR ''[''")
    case True
    then have sb: "split_bracket (tl a) p = Inr (host, port)" using assms sl by (simp add: SplitHostPort_def)
    then have h: "host = takeWhile (\<lambda>x. x \<noteq> CHR '']'') (tl a)" "CHR ''['' \<notin> set (tl a)"
      by (auto simp: split_bracket_def Let_def split: if_splits)
    then show ?thesis by (auto dest: set_takeWhileD)
  next
    case False
    then show ?thesis using assms sl s(1) by (auto simp: SplitHostPort_def split: if_splits)
  qed
  then show "CHR ''['' \<notin> set host" "CHR '']'' \<notin> set host" by auto
qed

end
