(* ===== verification/Cluster_Props.thy ===== *)
theory Cluster_Props
  imports Cluster
begin

text \<open>
  Properties of the cluster manager: what the table of peers holds after membership events, that the
  chosen peer is a least loaded one, that a full node forwards, and that the load a node advertises is
  the load of its scheduler.
\<close>

section \<open>A concrete manager\<close>

definition node_b :: Node where
  "node_b = \<lparr>nd_Name = ''b'', nd_Addr = ''10.0.0.2'', nd_Port = 7946, nd_Meta = [1]\<rparr>"

definition state_b :: NodeState where
  "state_b = \<lparr>ns_Name = ''b'', GrpcAddress = ''0.0.0.0:9092'', PendingTasks = 1, MaxConcurrency = 4, LastUpdated = 0\<rparr>"

definition nscodec0 :: nscodec where
  "nscodec0 = \<lparr>marshal_ns = (\<lambda>_. Inr [1]), unmarshal_ns = (\<lambda>_. Inr state_b)\<rparr>"

definition cfg0 :: ClusterConfig where
  "cfg0 = \<lparr>cc_Enabled = True, cc_NodeID = ''a'', BindPort = 7946, AdvertiseAddr = [], DiscoveryMode = ''dns'', JoinPeers = [],
     DNSServiceName = ''svc'', BroadcastPeriod = second div 2\<rparr>"

definition manager0 :: Manager where
  "manager0 = NewManager cfg0 ''0.0.0.0:9092'' 2 True (Inr ''host'') ''u'' 0"

lemma manager0_simps [simp]:
  "cm_NodeID manager0 = ''a''" "ns_Name (localState manager0) = ''a''" "concurrency manager0 = 2"
  "loadProvider manager0" "peers manager0 = Map.empty" "m_cfg manager0 = cfg0"
  by (simp_all add: manager0_def NewManager_def cfg0_def cm_NodeID_def)

lemma split_b: "SplitHostPort ''0.0.0.0:9092'' = Inr (''0.0.0.0'', ''9092'')"
  using SplitHostPort_Join [of "''0.0.0.0''" "''9092''"] by (simp add: JoinHostPort_def)

lemma split_b': "SplitHostPort ''10.0.0.2:9092'' = Inr (''10.0.0.2'', ''9092'')"
  using SplitHostPort_Join [of "''10.0.0.2''" "''9092''"] by (simp add: JoinHostPort_def)

text \<open>A peer that joined or was updated has an address that can be dialled: a bind address such as
  \<^verbatim>\<open>0.0.0.0:9092\<close> is replaced by the address the node gossips from, and later messages of that peer keep
  the replacement. The address must have split into host and port at the time.\<close>

theorem joined_peer_dialable:
  assumes "nd_Name node \<noteq> cm_NodeID m" "ip_text (nd_Addr node)" "peers (NotifyJoin P now m node) (nd_Name node) = Some st"
    and "SplitHostPort (GrpcAddress st) = Inr hp"
  shows "dialable (GrpcAddress st) \<and>
    (\<forall>msg st'. unmarshal_ns P msg = Inr st' \<longrightarrow> ns_Name st' = nd_Name node \<longrightarrow> msg \<noteq> [] \<longrightarrow>
       (\<exists>st''. peers (NotifyMsg P (NotifyJoin P now m node) msg) (nd_Name node) = Some st'' \<and> dialable (GrpcAddress st'')))"
proof -
  have st: "dialable (GrpcAddress st)"
    using assms(1-3) by (auto simp: NotifyJoin_def cm_NodeID_def Let_def dialable_fix)
  have loc: "localState (NotifyJoin P now m node) = localState m"
    using gossip_frame [of P m "GJoin now node"] by simp
  obtain eh ep where hp: "hp = (eh, ep)" by (cases hp)
  have eh: "\<not> bind_host eh" "CHR ''['' \<notin> set eh" "CHR '']'' \<notin> set eh"
    using st assms(4) hp SplitHostPort_host by (auto simp: dialable_def)
  have "\<exists>st''. peers (NotifyMsg P (NotifyJoin P now m node) msg) (nd_Name node) = Some st'' \<and> dialable (GrpcAddress st'')"
    if "unmarshal_ns P msg = Inr st'" "ns_Name st' = nd_Name node" "msg \<noteq> []" for msg st'
    using that assms(1,3,4) hp eh dialable_join [OF _ eh(2,3,1)]
    by (auto simp: NotifyMsg_def loc cm_NodeID_def Let_def split: sum.splits) (auto simp: dialable_def)
  with st show ?thesis by blast
qed

theorem joined_peer_dialable_witness:
  "peers (NotifyJoin nscodec0 0 manager0 node_b) ''b'' = Some (state_b\<lparr>GrpcAddress := ''10.0.0.2:9092''\<rparr>) \<and>
   dialable ''10.0.0.2:9092''"
proof -
  have p: "peers (NotifyJoin nscodec0 0 manager0 node_b) (nd_Name node_b) = Some (state_b\<lparr>GrpcAddress := ''10.0.0.2:9092''\<rparr>)"
    by (simp add: NotifyJoin_def node_b_def nscodec0_def state_b_def fix_address_def split_b bind_host_def JoinHostPort_def)
  moreover have "ip_text (nd_Addr node_b)" by (simp add: node_b_def ip_text_def bind_host_def)
  ultimately show ?thesis
    using joined_peer_dialable [of node_b manager0 nscodec0 0 "state_b\<lparr>GrpcAddress := ''10.0.0.2:9092''\<rparr>" "(''10.0.0.2'', ''9092'')"]
    by (simp add: split_b' node_b_def)
qed

text \<open>A state message that arrives after its node has left puts the node back among the peers, with the
  address of the message as it is, even a bind address that cannot be dialled.\<close>

theorem departed_peer_returns:
  assumes "nd_Name node \<noteq> cm_NodeID m" "msg \<noteq> []" "unmarshal_ns P msg = Inr st" "ns_Name st = nd_Name node"
  shows "peers (NotifyMsg P (NotifyLeave m node) msg) (nd_Name node) = Some st"
  using assms by (simp add: NotifyMsg_def NotifyLeave_def cm_NodeID_def)

theorem departed_peer_returns_witness:
  "peers (NotifyMsg nscodec0 (NotifyLeave manager0 node_b) [1]) ''b'' = Some state_b \<and> \<not> dialable (GrpcAddress state_b)"
proof -
  have "\<not> dialable (GrpcAddress state_b)" by (simp add: state_b_def dialable_def split_b bind_host_def)
  then show ?thesis using departed_peer_returns [of node_b manager0 "[1]" nscodec0 state_b]
    by (simp add: node_b_def nscodec0_def state_b_def)
qed

section \<open>Properties of the choice of a peer\<close>

lemma less_f64_trans: "less_f64 a b \<Longrightarrow> less_f64 b c \<Longrightarrow> less_f64 a c"
  by (cases a; cases b; cases c) auto

lemma less_f64_irrefl [simp]: "\<not> less_f64 a a"
  by (cases a) auto

definition minimal :: "(rat \<Rightarrow> rat) \<Rightarrow> NodeState list \<Rightarrow> f64 \<Rightarrow> bool" where
  "minimal rd ps x \<longleftrightarrow> (\<forall>q \<in> set ps. has_capacity q \<longrightarrow> \<not> less_f64 (peer_ratio rd q) x)"

lemma minimal_Cons [simp]:
  "minimal rd (a # ps) x \<longleftrightarrow> (has_capacity a \<longrightarrow> \<not> less_f64 (peer_ratio rd a) x) \<and> minimal rd ps x"
  by (simp add: minimal_def)

lemma best_peer_spec:
  "(best_peer rd ps b load cap = b \<and> minimal rd ps (ratio rd load cap)) \<or>
   (\<exists>p \<in> set ps. best_peer rd ps b load cap = Some p \<and> has_capacity p \<and>
      less_f64 (peer_ratio rd p) (ratio rd load cap) \<and> minimal rd ps (peer_ratio rd p))"
proof (induction ps arbitrary: b load cap)
  case Nil
  then show ?case by (simp add: minimal_def)
next
  case (Cons a ps)
  show ?case
  proof (cases "has_capacity a \<and> less_f64 (peer_ratio rd a) (ratio rd load cap)")
    case True
    then have "best_peer rd (a # ps) b load cap =
        best_peer rd ps (Some a) (sint (PendingTasks a)) (sint (MaxConcurrency a))" by simp
    moreover have "ratio rd (sint (PendingTasks a)) (sint (MaxConcurrency a)) = peer_ratio rd a"
      by (simp add: peer_ratio_def)
    ultimately consider
        "best_peer rd (a # ps) b load cap = Some a" "minimal rd ps (peer_ratio rd a)"
      | p where "p \<in> set ps" "best_peer rd (a # ps) b load cap = Some p" "has_capacity p"
          "less_f64 (peer_ratio rd p) (peer_ratio rd a)" "minimal rd ps (peer_ratio rd p)"
      using Cons.IH [of "Some a" "sint (PendingTasks a)" "sint (MaxConcurrency a)"] by metis
    then show ?thesis
    proof cases
      case 1
      then show ?thesis using True by auto
    next
      case 2
      have "less_f64 (peer_ratio rd p) (ratio rd load cap)" using less_f64_trans [OF 2(4)] True by blast
      moreover have "\<not> less_f64 (peer_ratio rd a) (peer_ratio rd p)" using less_f64_trans [OF 2(4)] by fastforce
      ultimately show ?thesis using 2 by auto
    qed
  next
    case False
    then have eq: "best_peer rd (a # ps) b load cap = best_peer rd ps b load cap" by auto
    have "\<not> less_f64 (peer_ratio rd a) x" if "has_capacity a" "less_f64 x (ratio rd load cap)" for x
      using False that less_f64_trans by blast
    then show ?thesis using Cons.IH [of b load cap] False unfolding eq by auto
  qed
qed

lemma Select_spec:
  assumes "L = (if loadProvider m then load else 0)"
  shows "(SelectBestPeer rd m load order = None \<and> minimal rd order (ratio rd L (concurrency m))) \<or>
    (\<exists>p \<in> set order. SelectBestPeer rd m load order = Some p \<and> has_capacity p \<and>
       less_f64 (peer_ratio rd p) (ratio rd L (concurrency m)) \<and> minimal rd order (peer_ratio rd p))"
  using best_peer_spec [of rd order None L "concurrency m"] by (auto simp: SelectBestPeer_def Let_def assms)

text \<open>C14: \<open>SelectBestPeer\<close> returns a peer exactly when one with free capacity has a strictly lower load ratio
  than the local node, and the peer it returns has free capacity and the lowest ratio of all of them,
  in whatever order the map of peers is visited.\<close>

theorem select_best_peer:
  assumes "L = (if loadProvider m then load else 0)"
  shows "case SelectBestPeer rd m load order of
      None \<Rightarrow> (\<forall>q \<in> set order. has_capacity q \<longrightarrow> \<not> less_f64 (peer_ratio rd q) (ratio rd L (concurrency m)))
    | Some p \<Rightarrow> p \<in> set order \<and> has_capacity p \<and> less_f64 (peer_ratio rd p) (ratio rd L (concurrency m)) \<and>
        (\<forall>q \<in> set order. has_capacity q \<longrightarrow> \<not> less_f64 (peer_ratio rd q) (peer_ratio rd p))"
  using Select_spec [OF assms, of rd order] by (auto simp: minimal_def)

theorem select_best_peer_witness:
  "SelectBestPeer id manager0 3 [state_b\<lparr>PendingTasks := 3\<rparr>, state_b] = Some state_b \<and>
   \<not> less_f64 (peer_ratio id (state_b\<lparr>PendingTasks := 3\<rparr>)) (peer_ratio id state_b)"
proof -
  have "SelectBestPeer id manager0 3 [state_b\<lparr>PendingTasks := 3\<rparr>, state_b] = Some state_b"
    by (simp add: SelectBestPeer_def has_capacity_def peer_ratio_def ratio_def state_b_def)
  moreover have "has_capacity (state_b\<lparr>PendingTasks := 3\<rparr>)" by (simp add: has_capacity_def state_b_def)
  ultimately show ?thesis
    using select_best_peer [OF refl, where rd = id and m = manager0 and load = 3 and
        order = "[state_b\<lparr>PendingTasks := 3\<rparr>, state_b]"] by simp
qed


text \<open>
  What is used of IEEE rounding: it is monotone, and a number that is representable stays itself.
\<close>

definition rounding :: "(rat \<Rightarrow> rat) \<Rightarrow> bool" where
  "rounding rd \<longleftrightarrow> mono rd \<and> (\<forall>k n. \<bar>k\<bar> \<le> 2 ^ 53 \<longrightarrow> n \<le> 1000 \<longrightarrow> rd (of_int k / 2 ^ n) = of_int k / 2 ^ n)"

lemma rounding_int: "rounding rd \<Longrightarrow> \<bar>k\<bar> \<le> 2 ^ 53 \<Longrightarrow> rd (of_int k) = of_int k"
  unfolding rounding_def by (metis div_by_1 power_0 zero_le)

lemma rounding_frac:
  "rounding rd \<Longrightarrow> \<bar>k\<bar> \<le> 2 ^ 53 \<Longrightarrow> n \<le> 1000 \<Longrightarrow> rd (of_int k / 2 ^ n) = of_int k / 2 ^ n"
  by (simp add: rounding_def)

lemma ratio_Fin:
  "rounding rd \<Longrightarrow> \<bar>a\<bar> \<le> 2 ^ 53 \<Longrightarrow> \<bar>b\<bar> \<le> 2 ^ 53 \<Longrightarrow> b \<noteq> 0 \<Longrightarrow> ratio rd a b = Fin (rd (of_int a / of_int b))"
  by (simp add: ratio_def rounding_int)

lemma quotient_less:
  assumes "(of_int a / of_int b :: rat) < of_int l / of_int c" "0 < b" "0 < c"
  shows "a * c < l * b"
proof -
  have "(of_int a * of_int c :: rat) < of_int l * of_int b" using assms by (simp add: divide_simps mult.commute)
  then show ?thesis by (metis of_int_less_iff of_int_mult)
qed

lemma quotient_below_one:
  assumes "a < b" "0 < b" "b \<le> 2 ^ 31"
  shows "(of_int a / of_int b :: rat) \<le> of_int (2 ^ 31 - 1) / 2 ^ 31"
proof -
  have "a * 2 ^ 31 \<le> (b - 1) * 2 ^ 31" using assms by simp
  also have "\<dots> \<le> (2 ^ 31 - 1) * b" using assms by (simp add: algebra_simps)
  finally have "(of_int (a * 2 ^ 31) :: rat) \<le> of_int ((2 ^ 31 - 1) * b)" by (simp only: of_int_le_iff)
  then show ?thesis using assms(2) by (simp add: divide_simps)
qed

lemma sint32_small: "\<bar>sint (w :: 32 word)\<bar> \<le> 2 ^ 31"
  using sint_lt [of w] sint_ge [of w] by simp

lemma peer_ratio_Fin:
  assumes "rounding rd" "has_capacity p" "0 \<le> sint (PendingTasks p)"
  shows "peer_ratio rd p = Fin (rd (of_int (sint (PendingTasks p)) / of_int (sint (MaxConcurrency p))))"
  unfolding peer_ratio_def using assms sint32_small [of "PendingTasks p"] sint32_small [of "MaxConcurrency p"]
  by (intro ratio_Fin) (auto simp: has_capacity_def)

lemma forward_less:
  assumes rd: "rounding rd" and sel: "SelectBestPeer rd m load order = Some p" and lp: "loadProvider m"
    and size: "0 < concurrency m" "concurrency m \<le> 2 ^ 53" "\<bar>load\<bar> \<le> 2 ^ 53" "0 \<le> sint (PendingTasks p)"
  shows "sint (PendingTasks p) * concurrency m < load * sint (MaxConcurrency p)"
proof -
  let ?a = "of_int (sint (PendingTasks p)) :: rat" and ?b = "of_int (sint (MaxConcurrency p)) :: rat"
  let ?l = "of_int load :: rat" and ?c = "of_int (concurrency m) :: rat"
  have p: "has_capacity p" "less_f64 (peer_ratio rd p) (ratio rd load (concurrency m))"
    using Select_spec [of load m load rd order] sel lp by auto
  have "ratio rd load (concurrency m) = Fin (rd (?l / ?c))" using rd size by (intro ratio_Fin) auto
  then have "rd (?a / ?b) < rd (?l / ?c)" using p(2) peer_ratio_Fin [OF rd p(1) size(4)] by simp
  then have "?a / ?b < ?l / ?c" using rd by (metis rounding_def monoD not_less)
  then show ?thesis using p(1) size(1,4) by (intro quotient_less) (auto simp: has_capacity_def)
qed

text \<open>A request leaves the node only for a peer whose load ratio is really lower: in exact arithmetic
  the pending tasks of the chosen peer times the local capacity are less than the local load times the
  capacity of the peer, although the code compares rounded quotients.\<close>

theorem forward_to_less_loaded:
  assumes rd: "rounding rd" and sel: "SelectBestPeer rd m load order = Some p" and lp: "loadProvider m"
    and size: "0 < concurrency m" "concurrency m \<le> 2 ^ 53" "\<bar>load\<bar> \<le> 2 ^ 53" "0 \<le> sint (PendingTasks p)"
  shows "sint (PendingTasks p) * concurrency m < load * sint (MaxConcurrency p)"
  using assms by (rule forward_less)

lemma rounding_id: "rounding id"
  by (simp add: rounding_def mono_def)

theorem forward_to_less_loaded_witness:
  "SelectBestPeer id manager0 3 [state_b] = Some state_b \<and> sint (PendingTasks state_b) * 2 < 3 * sint (MaxConcurrency state_b)"
proof -
  have "SelectBestPeer id manager0 3 [state_b] = Some state_b"
    by (simp add: SelectBestPeer_def has_capacity_def peer_ratio_def ratio_def state_b_def)
  then show ?thesis using forward_to_less_loaded [OF rounding_id, of manager0 3 "[state_b]" state_b]
    by (simp add: state_b_def)
qed

text \<open>A node whose queue is full, with as many pending tasks as it has slots or more, forwards to a peer
  whenever one of its peers has free capacity.\<close>

theorem full_node_forwards:
  assumes rd: "rounding rd" and lp: "loadProvider m" and full: "0 < concurrency m" "concurrency m \<le> load" "load \<le> 2 ^ 53"
    and q: "q \<in> set order" "has_capacity q" "0 \<le> sint (PendingTasks q)"
  shows "\<exists>p. SelectBestPeer rd m load order = Some p"
proof -
  let ?a = "sint (PendingTasks q)" and ?b = "sint (MaxConcurrency q)"
  have "rd 1 = 1" using rounding_int [OF rd, of 1] by simp
  moreover have "mono rd" using rd by (simp add: rounding_def)
  ultimately have "1 \<le> rd (of_int load / of_int (concurrency m))" using full by (metis monoD le_divide_eq_1 of_int_le_iff of_int_0_less_iff)
  moreover have "ratio rd load (concurrency m) = Fin (rd (of_int load / of_int (concurrency m)))"
    using rd full by (intro ratio_Fin) auto
  moreover have "rd (of_int ?a / of_int ?b) < 1"
  proof -
    have "?a < ?b" "0 < ?b" "?b \<le> 2 ^ 31" using q sint32_small [of "MaxConcurrency q"] by (auto simp: has_capacity_def)
    then have "rd (of_int ?a / of_int ?b) \<le> rd (of_int (2 ^ 31 - 1) / 2 ^ 31)"
      using monoD [OF \<open>mono rd\<close> quotient_below_one] by blast
    also have "\<dots> = of_int (2 ^ 31 - 1) / 2 ^ 31" by (rule rounding_frac [OF rd]) simp_all
    finally show ?thesis by (rule le_less_trans) simp
  qed
  ultimately have "less_f64 (peer_ratio rd q) (ratio rd load (concurrency m))"
    using peer_ratio_Fin [OF rd q(2,3)] by simp
  then show ?thesis using Select_spec [of load m load rd order] lp q(1,2) by (auto simp: minimal_def)
qed

theorem full_node_forwards_witness: "\<exists>p. SelectBestPeer id manager0 2 [state_b] = Some p"
  using full_node_forwards [OF rounding_id, of manager0 2 state_b "[state_b]"]
  by (simp add: has_capacity_def state_b_def)

section \<open>Discovery\<close>

text \<open>
  A candidate is written without brackets, a known address with them: \<open>SplitHostPort\<close> tells them apart.
\<close>

definition no_brackets :: "string \<Rightarrow> bool" where
  "no_brackets a \<longleftrightarrow> CHR ''['' \<notin> set a \<and> CHR '']'' \<notin> set a"

lemma SplitHostPort_colons:
  assumes "no_brackets ip" "CHR '':'' \<in> set ip"
  shows "SplitHostPort (ip @ '':'' @ show_nat n) = Inl (Errorf ''too many colons in address'')"
proof -
  have "hd (ip @ CHR '':'' # show_nat n) \<noteq> CHR ''[''" using assms by (cases ip) (auto simp: no_brackets_def)
  then show ?thesis using assms(2) by (simp add: SplitHostPort_def split_last_append show_nat_port)
qed

lemma candidate_known:
  assumes "no_brackets ip" "no_brackets a"
  shows "ip @ '':'' @ show_nat p = JoinHostPort a (show_nat q) \<longleftrightarrow> ip = a \<and> p = q \<and> CHR '':'' \<notin> set ip"
proof
  assume eq: "ip @ '':'' @ show_nat p = JoinHostPort a (show_nat q)"
  have "SplitHostPort (JoinHostPort a (show_nat q)) = Inr (a, show_nat q)"
    using assms(2) by (intro SplitHostPort_Join) (simp_all add: no_brackets_def show_nat_port)
  note s = this [folded eq]
  then have c: "CHR '':'' \<notin> set ip" using SplitHostPort_colons [OF assms(1), of p] by auto
  then have "ip @ '':'' @ show_nat p = JoinHostPort ip (show_nat p)" by (simp add: JoinHostPort_def)
  moreover have "SplitHostPort (JoinHostPort ip (show_nat p)) = Inr (ip, show_nat p)"
    using assms(1) by (intro SplitHostPort_Join) (simp_all add: no_brackets_def show_nat_port)
  ultimately show "ip = a \<and> p = q \<and> CHR '':'' \<notin> set ip" using s c by (simp add: show_nat_inject)
qed (auto simp: JoinHostPort_def)

text \<open>The periodic DNS recheck drops exactly the resolved addresses of known members that are written
  without a colon: an IPv4 member is never joined again, while an IPv6 member always is, because
  discovery writes its address without the brackets the comparison expects.\<close>

theorem dns_filter:
  assumes "memlist m = Some members" "\<forall>nd \<in> set members. no_brackets (nd_Addr nd)" "no_brackets ip"
    and "discoverDNS env m = Inr ps" "c = ip @ '':'' @ show_nat (BindPort (m_cfg m))" "c \<in> set ps"
  shows "c \<in> set (filterKnownPeers m ps) \<longleftrightarrow>
    CHR '':'' \<in> set ip \<or> (\<forall>nd \<in> set members. nd_Addr nd = ip \<longrightarrow> nd_Port nd \<noteq> BindPort (m_cfg m))"
proof -
  have "c \<in> (\<lambda>nd. JoinHostPort (nd_Addr nd) (show_nat (nd_Port nd))) ` set members \<longleftrightarrow>
      (\<exists>nd \<in> set members. ip = nd_Addr nd \<and> BindPort (m_cfg m) = nd_Port nd \<and> CHR '':'' \<notin> set ip)"
    unfolding image_iff assms(5) using candidate_known [OF assms(3)] assms(2) by (intro bex_cong) auto
  then show ?thesis using assms(1,6) by (auto simp: filterKnownPeers_def)
qed

definition node_v6 :: Node where
  "node_v6 = \<lparr>nd_Name = ''b'', nd_Addr = ''fd00::2'', nd_Port = 7946, nd_Meta = []\<rparr>"

definition manager_v6 :: Manager where
  "manager_v6 = manager0\<lparr>memlist := Some [node_v6], m_cfg := cfg0\<lparr>DNSServiceName := ''svc'', BindPort := 7946\<rparr>\<rparr>"

definition resolver_v6 :: resolver where
  "resolver_v6 = \<lparr>dns_lookup = (\<lambda>_. Inr [''fd00::2'']), dns_ctxErr = (\<lambda>_. False), dns_ctxDone = (\<lambda>_. False)\<rparr>"

lemma discover_v6: "discoverDNS resolver_v6 manager_v6 = Inr [''fd00::2'' @ '':'' @ show_nat 7946]"
proof -
  have "dns_retry resolver_v6 (Suc k) 0 CtxErr = Inr [''fd00::2'']" for k by (simp add: resolver_v6_def)
  from this [of 4] have "dns_retry resolver_v6 5 0 CtxErr = Inr [''fd00::2'']" by simp
  then show ?thesis by (simp add: discoverDNS_def manager_v6_def)
qed

theorem dns_filter_witness:
  "''fd00::2'' @ '':'' @ show_nat 7946 \<in> set (filterKnownPeers manager_v6 [''fd00::2'' @ '':'' @ show_nat 7946])"
  by (subst dns_filter [OF _ _ _ discover_v6, where ip = "''fd00::2''" and members = "[node_v6]"])
    (simp_all add: manager_v6_def node_v6_def no_brackets_def)

lemma dns_retry_first:
  assumes "\<forall>k < n. \<not> dns_ctxErr env (i + k) \<and> \<not> dns_ctxDone env (i + k)"
  shows "dns_retry env n i e = Inr ips \<longleftrightarrow>
    (\<exists>k < n. dns_lookup env (i + k) = Inr ips \<and> (\<forall>j < k. \<exists>x. dns_lookup env (i + j) = Inl x))"
  using assms
proof (induction n arbitrary: i e)
  case (Suc n)
  have live: "\<not> dns_ctxErr env i" "\<not> dns_ctxDone env i" using Suc.prems by force+
  have "\<forall>k < n. \<not> dns_ctxErr env (Suc i + k) \<and> \<not> dns_ctxDone env (Suc i + k)" using Suc.prems by force
  note IH = Suc.IH [OF this]
  show ?case
  proof (cases "dns_lookup env i")
    case (Inl x)
    then show ?thesis using live by (simp add: Ex_less_Suc2 All_less_Suc2 IH)
  next
    case (Inr xs)
    then show ?thesis by (simp add: Ex_less_Suc2 All_less_Suc2)
  qed
qed simp

text \<open>While the context lives, discovery by DNS tries five lookups and no more: it succeeds exactly when
  one of them does, with the addresses of the first that does; with an empty service name it fails at once.\<close>

theorem dns_attempts:
  assumes "\<forall>k < 5. \<not> dns_ctxErr env k \<and> \<not> dns_ctxDone env k" "DNSServiceName (m_cfg m) \<noteq> []"
  shows "discoverDNS env m = Inr ps \<longleftrightarrow>
    (\<exists>k < 5. \<exists>ips. dns_lookup env k = Inr ips \<and> (\<forall>j < k. \<exists>x. dns_lookup env j = Inl x) \<and>
       ps = map (\<lambda>ip. ip @ '':'' @ show_nat (BindPort (m_cfg m))) ips)"
proof -
  have "dns_retry env 5 0 CtxErr = Inr ips \<longleftrightarrow>
    (\<exists>k < 5. dns_lookup env k = Inr ips \<and> (\<forall>j < k. \<exists>x. dns_lookup env j = Inl x))" for ips
    using dns_retry_first [of 5 env 0] assms(1) by simp
  moreover have "discoverDNS env m = Inr ps \<longleftrightarrow>
      (\<exists>ips. dns_retry env 5 0 CtxErr = Inr ips \<and> ps = map (\<lambda>ip. ip @ '':'' @ show_nat (BindPort (m_cfg m))) ips)"
    using assms(2) by (cases "dns_retry env 5 0 CtxErr") (auto simp: discoverDNS_def)
  ultimately show ?thesis by blast
qed

theorem dns_attempts_witness: "discoverDNS resolver_v6 manager_v6 = Inr [''fd00::2'' @ '':'' @ show_nat 7946]"
  by (subst dns_attempts) (auto simp: resolver_v6_def manager_v6_def intro!: exI [of _ 0])

section \<open>The load a node advertises\<close>

text \<open>
  \<open>LoadProvider\<close>: what the manager relies on is that the reported number of tasks is never negative.
\<close>

locale load_provider =
  fixes count :: "'s \<Rightarrow> int" and valid :: "'s \<Rightarrow> bool"
  assumes count_nonneg: "valid s \<Longrightarrow> 0 \<le> count s"
begin

lemma advertised:
  assumes "valid s" "count s < 2 ^ 31" "loadProvider m"
  shows "sint (PendingTasks (GetLocalState m (count s) now)) = count s"
proof -
  have "sint (word_of_int (count s) :: 32 word) = count s"
    using count_nonneg [OF assms(1)] assms(2) by (simp only: sint_sbintrunc') (intro signed_take_bit_int_eq_self, simp_all)
  then show ?thesis using assms(3) by (simp add: GetLocalState_def)
qed

lemma idle_keeps:
  assumes "valid s" "count s \<le> 0" "loadProvider m" "rounding rd" "0 < concurrency m" "concurrency m \<le> 2 ^ 53"
    and nonneg: "\<forall>p \<in> set order. 0 \<le> sint (PendingTasks p)"
  shows "SelectBestPeer rd m (count s) order = None"
proof (rule ccontr)
  assume "SelectBestPeer rd m (count s) order \<noteq> None"
  then obtain p where p: "SelectBestPeer rd m (count s) order = Some p" "p \<in> set order" "has_capacity p"
    using Select_spec [of "count s" m "count s" rd order] assms(3) by auto
  have "count s = 0" using count_nonneg [OF assms(1)] assms(2) by simp
  then have "sint (PendingTasks p) * concurrency m < 0"
    using forward_less [OF assms(4) p(1)] assms(3,5,6) nonneg p(2) by simp
  then show False using nonneg p(2) assms(5) by (auto simp: mult_less_0_iff)
qed

end

text \<open>The scheduler is the provider: its count after any run is not negative.\<close>

definition tracked :: "Scheduler \<Rightarrow> bool" where
  "tracked t \<longleftrightarrow> (\<exists>P q node es. enabled_run sched_ok (sched_step P) (NewScheduler q node) es \<and>
                            run (sched_step P) (NewScheduler q node) es = Some t)"

interpretation sched_load: load_provider GetPendingTaskCount tracked
proof
  fix t assume "tracked t"
  then obtain P q node es where r: "enabled_run sched_ok (sched_step P) (NewScheduler q node) es"
      "run (sched_step P) (NewScheduler q node) es = Some t" by (auto simp: tracked_def)
  have "drift (NewScheduler q node) = 0"
    by (simp add: drift_def executing_def lookup_op_def NewScheduler_def)
  then have "0 \<le> drift t" using drift_run [OF sched_inv_New r] leaked_nonneg [of P "NewScheduler q node" es] by simp
  then show "0 \<le> GetPendingTaskCount t" by (simp add: drift_def GetPendingTaskCount_def)
qed


lemma tracked_New: "tracked (NewScheduler q node)"
  unfolding tracked_def by (intro exI [of _ "[]"] exI conjI) simp_all


text \<open>A node whose scheduler is idle never gives a request away, whatever its peers report.\<close>

theorem idle_node_keeps_work:
  assumes "tracked t" "GetPendingTaskCount t \<le> 0" "loadProvider m" "rounding rd" "0 < concurrency m" "concurrency m \<le> 2 ^ 53"
    and "\<forall>p \<in> set order. 0 \<le> sint (PendingTasks p)"
  shows "SelectBestPeer rd m (GetPendingTaskCount t) order = None"
  using assms by (rule sched_load.idle_keeps)

theorem idle_node_keeps_work_witness:
  "SelectBestPeer id manager0 (GetPendingTaskCount (NewScheduler 2 ''n'')) [state_b] = None"
  by (rule idle_node_keeps_work [OF tracked_New])
    (simp_all add: GetPendingTaskCount_def NewScheduler_def rounding_id state_b_def)

end
