(* ===== verification/ResourceName.thy ===== *)
theory ResourceName
  imports OS
begin

text \<open>
  Resource names of the byte stream service (\<^verbatim>\<open>pkg/server/bytestream.go\<close>): the two regular expressions, a
  model of the backtracking matcher of package \<^verbatim>\<open>regexp\<close> for the constructs they use, and
  \<open>parseResourceName\<close> with its specification on strings.
\<close>

section \<open>Regular expressions\<close>

text \<open>
  The part of package \<^verbatim>\<open>regexp\<close> the sources use. A match starts at a position with the text that is left;
  \<open>rmatch\<close> lists the ways to match in the order of preference (greedy repetition, left alternative
  first), each with the captured groups and what is left.
\<close>

datatype re =
    RBegin
  | REnd
  | RLit string
  | RStar "char \<Rightarrow> bool"
  | RPlus "char \<Rightarrow> bool"
  | RSeq re re
  | RAlt re re
  | RGroup re

type_synonym rstate = "nat \<times> string"

definition advance :: "nat \<Rightarrow> rstate \<Rightarrow> rstate" where
  "advance n st = (fst st + n, drop n (snd st))"

definition run_length :: "(char \<Rightarrow> bool) \<Rightarrow> rstate \<Rightarrow> nat" where
  "run_length c st = length (takeWhile c (snd st))"

fun rmatch :: "re \<Rightarrow> rstate \<Rightarrow> (string list \<times> rstate) list" where
  "rmatch RBegin st = (if fst st = 0 then [([], st)] else [])"
| "rmatch REnd st = (if snd st = [] then [([], st)] else [])"
| "rmatch (RLit l) st = (if take (length l) (snd st) = l then [([], advance (length l) st)] else [])"
| "rmatch (RStar c) st = map (\<lambda>n. ([], advance n st)) (rev [0..<Suc (run_length c st)])"
| "rmatch (RPlus c) st = map (\<lambda>n. ([], advance n st)) (rev [1..<Suc (run_length c st)])"
| "rmatch (RSeq a b) st =
     concat (map (\<lambda>(cs, st'). map (\<lambda>(ds, st''). (cs @ ds, st'')) (rmatch b st')) (rmatch a st))"
| "rmatch (RAlt a b) st = rmatch a st @ rmatch b st"
| "rmatch (RGroup a) st =
     map (\<lambda>(cs, st'). (take (fst st' - fst st) (snd st) # cs, st')) (rmatch a st)"

text \<open>\<open>FindStringSubmatch\<close> without the match of the whole: the groups of the leftmost match.\<close>

definition ways :: "re \<Rightarrow> string \<Rightarrow> (string list \<times> rstate) list" where
  "ways r s = concat (map (\<lambda>i. rmatch r (i, drop i s)) [0..<Suc (length s)])"

definition FindStringSubmatch :: "re \<Rightarrow> string \<Rightarrow> string list option" where
  "FindStringSubmatch r s =
     (case ways r s of
        [] \<Rightarrow> None
      | (cs, _) # _ \<Rightarrow> Some cs)"

section \<open>Resource names\<close>

definition slash :: char where
  "slash = CHR ''/''"

definition any_char :: "char \<Rightarrow> bool" where
  "any_char c \<longleftrightarrow> c \<noteq> CHR 0x0A"

definition hex_char :: "char \<Rightarrow> bool" where
  "hex_char c \<longleftrightarrow>
     (let n = of_char c :: nat in 48 \<le> n \<and> n \<le> 57 \<or> 65 \<le> n \<and> n \<le> 70 \<or> 97 \<le> n \<and> n \<le> 102)"

definition dec_char :: "char \<Rightarrow> bool" where
  "dec_char c \<longleftrightarrow> (let n = of_char c :: nat in 48 \<le> n \<and> n \<le> 57)"

definition blob_type :: re where
  "blob_type = RAlt (RLit ''blobs'') (RLit ''compressed-blobs/zstd'')"

definition blob_suffix :: re where
  "blob_suffix =
     RSeq (RGroup blob_type) (RSeq (RLit ''/'') (RSeq (RGroup (RPlus hex_char))
       (RSeq (RLit ''/'') (RSeq (RGroup (RPlus dec_char)) REnd))))"

definition path_start :: re where
  "path_start = RAlt RBegin (RSeq (RStar any_char) (RLit ''/''))"

definition readResourceRegex :: re where
  "readResourceRegex = RSeq path_start blob_suffix"

definition writeResourceRegex :: re where
  "writeResourceRegex =
     RSeq path_start (RSeq (RLit ''uploads/'') (RSeq (RPlus (\<lambda>c. c \<noteq> slash)) (RSeq (RLit ''/'') blob_suffix)))"

text \<open>\<open>strconv.ParseInt(s, 10, 64)\<close> on a string of digits.\<close>

definition dec_value :: "string \<Rightarrow> int" where
  "dec_value s = foldl (\<lambda>a c. 10 * a + (int (of_char c) - 48)) 0 s"

definition ParseInt :: "string \<Rightarrow> goerr + int" where
  "ParseInt s = (if dec_value s < 2 ^ 63 then Inr (dec_value s) else Inl (Errorf ''value out of range''))"

definition parseResourceName :: "string \<Rightarrow> bool \<Rightarrow> goerr + (Digest \<times> bool)" where
  "parseResourceName name isWrite =
     (case FindStringSubmatch (if isWrite then writeResourceRegex else readResourceRegex) name of
        Some [typeStr, hash, sz] \<Rightarrow>
          (case ParseInt sz of
             Inl err \<Rightarrow> Inl (Status InvalidArgument ''invalid size in resource name'')
           | Inr n \<Rightarrow>
               Inr (\<lparr>Hash = hash, Size = n\<rparr>, take (length ''compressed-blobs'') typeStr = ''compressed-blobs''))
      | _ \<Rightarrow> Inl (Status InvalidArgument ''invalid resource name''))"

section \<open>What the names mean\<close>

text \<open>
  The ways to match, as a relation: \<open>st\<close> is at the start of a text that \<open>r\<close> matches up to \<open>st'\<close>.
\<close>

lemma rmatch_Lit: "(cs, st') \<in> set (rmatch (RLit l) (p, s)) \<longleftrightarrow> cs = [] \<and> (\<exists>t. s = l @ t \<and> st' = (p + length l, t))"
  by (auto simp: advance_def) (metis append_take_drop_id)

lemma run_length_iff: "n \<le> run_length c (p, s) \<longleftrightarrow> n \<le> length s \<and> (\<forall>x \<in> set (take n s). c x)"
proof (induction s arbitrary: n p)
  case (Cons a s)
  show ?case by (cases n) (use Cons [of _ p] in \<open>auto simp: run_length_def\<close>)
qed (simp add: run_length_def)

lemma prefix_ex:
  "(\<exists>n. n \<le> length s \<and> P (take n s) \<and> y = (p + n, drop n s)) \<longleftrightarrow> (\<exists>l t. s = l @ t \<and> P l \<and> y = (p + length l, t))"
  by (metis append_eq_conv_conj append_take_drop_id length_take min.absorb2 length_append le_add1)

lemma rmatch_Star:
  "(cs, st') \<in> set (rmatch (RStar c) (p, s)) \<longleftrightarrow>
     cs = [] \<and> (\<exists>l t. s = l @ t \<and> (\<forall>x \<in> set l. c x) \<and> st' = (p + length l, t))"
  using prefix_ex [of s "\<lambda>l. \<forall>x \<in> set l. c x" st' p]
  by (auto simp: advance_def run_length_iff less_Suc_eq_le simp del: upt_Suc)

lemma rmatch_Plus:
  "(cs, st') \<in> set (rmatch (RPlus c) (p, s)) \<longleftrightarrow>
     cs = [] \<and> (\<exists>l t. s = l @ t \<and> l \<noteq> [] \<and> (\<forall>x \<in> set l. c x) \<and> st' = (p + length l, t))"
  using prefix_ex [of s "\<lambda>l. l \<noteq> [] \<and> (\<forall>x \<in> set l. c x)" st' p]
  by (auto simp: advance_def run_length_iff less_Suc_eq_le Suc_le_eq simp del: upt_Suc)

lemma rmatch_Seq:
  "(cs, st') \<in> set (rmatch (RSeq a b) st) \<longleftrightarrow>
     (\<exists>c1 st1 c2. (c1, st1) \<in> set (rmatch a st) \<and> (c2, st') \<in> set (rmatch b st1) \<and> cs = c1 @ c2)"
  by (auto; force)

lemma rmatch_SeqI:
  "(c1, st1) \<in> set (rmatch a st) \<Longrightarrow> (c2, st') \<in> set (rmatch b st1) \<Longrightarrow> (c1 @ c2, st') \<in> set (rmatch (RSeq a b) st)"
  unfolding rmatch_Seq by blast

lemma rmatch_Group:
  "(cs, st') \<in> set (rmatch (RGroup a) st) \<longleftrightarrow>
     (\<exists>ds. (ds, st') \<in> set (rmatch a st) \<and> cs = take (fst st' - fst st) (snd st) # ds)"
  by (auto; force)

lemmas rmatch_iff = rmatch_Lit rmatch_Star rmatch_Plus rmatch_Seq rmatch_Group

lemma rmatch_Alt: "x \<in> set (rmatch (RAlt a b) st) \<longleftrightarrow> x \<in> set (rmatch a st) \<or> x \<in> set (rmatch b st)"
  by simp

lemma rmatch_End: "(cs, st') \<in> set (rmatch REnd (p, s)) \<longleftrightarrow> cs = [] \<and> s = [] \<and> st' = (p, s)"
  by auto

lemma rmatch_Begin: "(cs, st') \<in> set (rmatch RBegin (p, s)) \<longleftrightarrow> cs = [] \<and> p = 0 \<and> st' = (p, s)"
  by auto

definition hex_string :: "string \<Rightarrow> bool" where
  "hex_string h \<longleftrightarrow> h \<noteq> [] \<and> (\<forall>c \<in> set h. hex_char c)"

definition dec_string :: "string \<Rightarrow> bool" where
  "dec_string z \<longleftrightarrow> z \<noteq> [] \<and> (\<forall>c \<in> set z. dec_char c)"

fun blob_name :: "string \<Rightarrow> string list \<Rightarrow> bool" where
  "blob_name s [t, h, z] \<longleftrightarrow>
     s = t @ ''/'' @ h @ ''/'' @ z \<and> (t = ''blobs'' \<or> t = ''compressed-blobs/zstd'') \<and> hex_string h \<and> dec_string z"
| "blob_name s cs = False"

lemma rmatch_type:
  "(cs, st') \<in> set (rmatch (RGroup blob_type) (p, s)) \<longleftrightarrow>
     (\<exists>t rest. cs = [t] \<and> (t = ''blobs'' \<or> t = ''compressed-blobs/zstd'') \<and> s = t @ rest \<and> st' = (p + length t, rest))"
  unfolding blob_type_def rmatch_Group rmatch_Alt rmatch_Lit by auto

lemma rmatch_run:
  "(cs, st') \<in> set (rmatch (RGroup (RPlus c)) (p, s)) \<longleftrightarrow>
     (\<exists>l rest. cs = [l] \<and> l \<noteq> [] \<and> (\<forall>x \<in> set l. c x) \<and> s = l @ rest \<and> st' = (p + length l, rest))"
  unfolding rmatch_Group rmatch_Plus by auto

lemma blob_name_iff:
  "blob_name s cs \<longleftrightarrow> (\<exists>t h z. cs = [t, h, z] \<and> s = t @ ''/'' @ h @ ''/'' @ z \<and>
     (t = ''blobs'' \<or> t = ''compressed-blobs/zstd'') \<and> hex_string h \<and> dec_string z)"
  by (cases "(s, cs)" rule: blob_name.cases) auto

lemma rmatch_suffix: "(cs, st') \<in> set (rmatch blob_suffix (p, s)) \<longleftrightarrow> blob_name s cs \<and> st' = (p + length s, [])"
proof
  assume "(cs, st') \<in> set (rmatch blob_suffix (p, s))"
  then show "blob_name s cs \<and> st' = (p + length s, [])"
    unfolding blob_suffix_def blob_name_iff rmatch_Seq
    by (auto simp: rmatch_type rmatch_run rmatch_Lit rmatch_End hex_string_def dec_string_def
        simp del: rmatch.simps)
next
  assume "blob_name s cs \<and> st' = (p + length s, [])"
  then obtain t h z where *: "cs = [t, h, z]" "s = t @ ''/'' @ h @ ''/'' @ z" "st' = (p + length s, [])"
    "t = ''blobs'' \<or> t = ''compressed-blobs/zstd''" "hex_string h" "dec_string z" unfolding blob_name_iff by blast
  have ty: "([t], (p + length t, ''/'' @ h @ ''/'' @ z)) \<in> set (rmatch (RGroup blob_type) (p, s))"
    using * unfolding rmatch_type by blast
  have sl: "([], (q + length (''/'' :: string), r)) \<in> set (rmatch (RLit ''/'') (q, ''/'' @ r))" for q r
    unfolding rmatch_Lit by blast
  have hx: "([h], (q + length h, r)) \<in> set (rmatch (RGroup (RPlus hex_char)) (q, h @ r))" for q r
    using *(5) unfolding rmatch_run hex_string_def by blast
  have sz: "([z], (q + length z, [])) \<in> set (rmatch (RGroup (RPlus dec_char)) (q, z))" for q
    using *(6) unfolding rmatch_run dec_string_def by auto
  have en: "([], (q, [])) \<in> set (rmatch REnd (q, []))" for q by simp
  have "([t] @ [] @ [h] @ [] @ [z] @ [], (p + length t + length (''/'' :: string) + length h + length (''/'' :: string) + length z, []))
      \<in> set (rmatch blob_suffix (p, s))"
    unfolding blob_suffix_def
    by (rule rmatch_SeqI [OF ty rmatch_SeqI [OF sl rmatch_SeqI [OF hx rmatch_SeqI [OF sl rmatch_SeqI [OF sz en]]]]])
  then show "(cs, st') \<in> set (rmatch blob_suffix (p, s))" using * by (simp add: ac_simps)
qed

text \<open>The start of a path component: the begin of the name or a place after a slash.\<close>

definition at_component :: "string \<Rightarrow> bool" where
  "at_component pre \<longleftrightarrow> pre = [] \<or> last pre = slash"

lemma rmatch_start:
  "(cs, st') \<in> set (rmatch path_start (p, s)) \<longleftrightarrow> cs = [] \<and>
     (p = 0 \<and> st' = (p, s) \<or> (\<exists>l t. s = l @ ''/'' @ t \<and> (\<forall>x \<in> set l. any_char x) \<and> st' = (p + length l + 1, t)))"
  unfolding path_start_def rmatch_Alt rmatch_Begin rmatch_Seq
  by (auto simp: rmatch_Star rmatch_Lit simp del: rmatch.simps)

lemma ways_iff: "x \<in> set (ways r s) \<longleftrightarrow> (\<exists>i \<le> length s. x \<in> set (rmatch r (i, drop i s)))"
  unfolding ways_def by (auto simp: less_Suc_eq_le simp del: upt_Suc)

lemma ways_body_D:
  assumes body: "\<And>p s cs st'. (cs, st') \<in> set (rmatch body (p, s)) \<longleftrightarrow> Q s cs \<and> st' = (p + length s, [])"
    and "(cs, st') \<in> set (ways (RSeq path_start body) name)"
  shows "\<exists>pre s. name = pre @ s \<and> at_component pre \<and> Q s cs"
proof -
  from assms(2) obtain i where i: "(cs, st') \<in> set (rmatch (RSeq path_start body) (i, drop i name))"
    unfolding ways_iff by blast
  then obtain q t where qt: "([], (q, t)) \<in> set (rmatch path_start (i, drop i name))" "Q t cs"
    unfolding rmatch_Seq by (auto simp: body rmatch_start)
  from qt(1) consider "i = 0" "t = name" | l where "drop i name = l @ ''/'' @ t" by (auto simp: rmatch_start)
  then show ?thesis
  proof cases
    case 1
    then show ?thesis using qt(2) by (intro exI [of _ "[]"] exI [of _ t]) (simp add: at_component_def)
  next
    case 2
    have "name = (take i name @ l @ ''/'') @ t" using 2 by (metis append_assoc append_take_drop_id)
    then show ?thesis using qt(2)
      by (intro exI [of _ "take i name @ l @ ''/''"] exI [of _ t]) (simp add: at_component_def slash_def)
  qed
qed

lemma ways_body_I:
  assumes body: "\<And>p s cs st'. (cs, st') \<in> set (rmatch body (p, s)) \<longleftrightarrow> Q s cs \<and> st' = (p + length s, [])"
    and "at_component pre" "Q s cs"
  shows "\<exists>st'. (cs, st') \<in> set (ways (RSeq path_start body) (pre @ s))"
proof (cases "pre = []")
  case True
  have "([], (0, s)) \<in> set (rmatch path_start (0, drop 0 s))" unfolding rmatch_start by simp
  moreover have "(cs, (0 + length s, [])) \<in> set (rmatch body (0, s))" unfolding body using assms(3) by simp
  ultimately have "([] @ cs, (0 + length s, [])) \<in> set (rmatch (RSeq path_start body) (0, drop 0 s))" by (rule rmatch_SeqI)
  then show ?thesis unfolding ways_iff True append_Nil by (metis zero_le)
next
  case False
  then have pre: "pre = butlast pre @ ''/''" using assms(2) by (metis at_component_def append_butlast_last_id slash_def)
  let ?i = "length (butlast pre)"
  have d: "drop ?i (pre @ s) = [] @ ''/'' @ s" by (metis pre append_eq_conv_conj append_Nil append_assoc)
  have "([], (?i + 1, s)) \<in> set (rmatch path_start (?i, drop ?i (pre @ s)))" unfolding rmatch_start d by auto
  moreover have "(cs, (?i + 1 + length s, [])) \<in> set (rmatch body (?i + 1, s))" unfolding body using assms(3) by simp
  ultimately have "([] @ cs, (?i + 1 + length s, [])) \<in> set (rmatch (RSeq path_start body) (?i, drop ?i (pre @ s)))"
    by (rule rmatch_SeqI)
  moreover have "?i \<le> length (pre @ s)" by simp
  ultimately show ?thesis unfolding ways_iff append_Nil by blast
qed

lemma find_body:
  assumes body: "\<And>p s cs st'. (cs, st') \<in> set (rmatch body (p, s)) \<longleftrightarrow> Q s cs \<and> st' = (p + length s, [])"
    and uniq: "\<And>pre s cs pre' s' cs'. pre @ s = pre' @ s' \<Longrightarrow> Q s cs \<Longrightarrow> Q s' cs' \<Longrightarrow> cs = cs'"
  shows "FindStringSubmatch (RSeq path_start body) name = Some cs \<longleftrightarrow>
    (\<exists>pre s. name = pre @ s \<and> at_component pre \<and> Q s cs)"
proof (cases "ways (RSeq path_start body) name")
  case Nil
  then show ?thesis using ways_body_I [OF body] by (fastforce simp: FindStringSubmatch_def)
next
  case (Cons w ms)
  obtain ds st' where w: "w = (ds, st')" by (cases w)
  then have f: "FindStringSubmatch (RSeq path_start body) name = Some ds" using Cons by (simp add: FindStringSubmatch_def)
  have "(ds, st') \<in> set (ways (RSeq path_start body) name)" using Cons w by simp
  from ways_body_D [OF body this] obtain pre s where "name = pre @ s" "at_component pre" "Q s ds" by blast
  then show ?thesis unfolding f using uniq by blast
qed

lemma last_separator:
  assumes "xs @ c # ys = xs' @ c # ys'" "c \<notin> set ys" "c \<notin> set ys'"
  shows "xs = xs'" "ys = ys'"
proof -
  have "takeWhile (\<lambda>x. x \<noteq> c) (rev (us @ c # vs)) = rev vs" if "c \<notin> set vs" for us vs
    using that by (auto intro!: takeWhile_append_stop)
  from this [OF assms(2), of xs] this [OF assms(3), of xs'] show "ys = ys'" using assms(1) by simp
  then show "xs = xs'" using assms(1) by simp
qed

lemma no_slash: "hex_string h \<Longrightarrow> CHR ''/'' \<notin> set h" "dec_string z \<Longrightarrow> CHR ''/'' \<notin> set z"
  by (auto simp: hex_string_def dec_string_def hex_char_def dec_char_def)

lemma blob_name_unique:
  assumes eq: "pre @ s = pre' @ s'" and "blob_name s cs" "blob_name s' cs'"
  shows "cs = cs'" "\<exists>t t' u. (t = ''blobs'' \<or> t = ''compressed-blobs/zstd'') \<and> s = t @ u \<and> s' = t @ u"
proof -
  from assms(2) obtain t h z where c: "cs = [t, h, z]" "s = t @ ''/'' @ h @ ''/'' @ z"
    "t = ''blobs'' \<or> t = ''compressed-blobs/zstd''" "hex_string h" "dec_string z" unfolding blob_name_iff by blast
  from assms(3) obtain t' h' z' where c': "cs' = [t', h', z']" "s' = t' @ ''/'' @ h' @ ''/'' @ z'"
    "t' = ''blobs'' \<or> t' = ''compressed-blobs/zstd''" "hex_string h'" "dec_string z'" unfolding blob_name_iff by blast
  have "(pre @ t @ ''/'' @ h) @ CHR ''/'' # z = (pre' @ t' @ ''/'' @ h') @ CHR ''/'' # z'" using eq c c' by simp
  note z = last_separator [OF this no_slash(2) [OF c(5)] no_slash(2) [OF c'(5)]]
  then have "(pre @ t) @ CHR ''/'' # h = (pre' @ t') @ CHR ''/'' # h'" by simp
  note h = last_separator [OF this no_slash(1) [OF c(4)] no_slash(1) [OF c'(4)]]
  have "last (pre @ t) = last t" "last (pre' @ t') = last t'" using c(3) c'(3) by auto
  then have "last t = last t'" using h(1) by simp
  then have "t = t'" using c(3) c'(3) by auto
  then show "cs = cs'" using c(1) c'(1) z(2) h(2) by simp
  show "\<exists>t t' u. (t = ''blobs'' \<or> t = ''compressed-blobs/zstd'') \<and> s = t @ u \<and> s' = t @ u"
    using c(2,3) c'(2) \<open>t = t'\<close> z(2) h(2) by blast
qed

text \<open>What an upload name holds before the part of the blob.\<close>

definition upload_name :: "string \<Rightarrow> string list \<Rightarrow> bool" where
  "upload_name s cs \<longleftrightarrow> (\<exists>u r. s = ''uploads/'' @ u @ ''/'' @ r \<and> u \<noteq> [] \<and> slash \<notin> set u \<and> blob_name r cs)"

lemma rmatch_upload:
  "(cs, st') \<in> set (rmatch (RSeq (RLit ''uploads/'') (RSeq (RPlus (\<lambda>c. c \<noteq> slash)) (RSeq (RLit ''/'') blob_suffix))) (p, s)) \<longleftrightarrow>
     upload_name s cs \<and> st' = (p + length s, [])"
proof
  assume "upload_name s cs \<and> st' = (p + length s, [])"
  then obtain u r where u: "s = ''uploads/'' @ u @ ''/'' @ r" "u \<noteq> []" "slash \<notin> set u" "blob_name r cs" "st' = (p + length s, [])"
    unfolding upload_name_def by blast
  have 1: "([], (p + length (''uploads/'' :: string), u @ ''/'' @ r)) \<in> set (rmatch (RLit ''uploads/'') (p, s))"
    unfolding rmatch_Lit u(1) by blast
  have 2: "([], (q + length u, ''/'' @ r)) \<in> set (rmatch (RPlus (\<lambda>c. c \<noteq> slash)) (q, u @ ''/'' @ r))" for q
    unfolding rmatch_Plus using u(2,3) by blast
  have 3: "([], (q + length (''/'' :: string), r)) \<in> set (rmatch (RLit ''/'') (q, ''/'' @ r))" for q
    unfolding rmatch_Lit by blast
  have 4: "(cs, (q + length r, [])) \<in> set (rmatch blob_suffix (q, r))" for q unfolding rmatch_suffix using u(4) by blast
  from rmatch_SeqI [OF 1 rmatch_SeqI [OF 2 rmatch_SeqI [OF 3 4]]]
  show "(cs, st') \<in> set (rmatch (RSeq (RLit ''uploads/'') (RSeq (RPlus (\<lambda>c. c \<noteq> slash)) (RSeq (RLit ''/'') blob_suffix))) (p, s))"
    using u(1,5) by (simp only: append_Nil length_append add.assoc)
next
  assume "(cs, st') \<in> set (rmatch (RSeq (RLit ''uploads/'') (RSeq (RPlus (\<lambda>c. c \<noteq> slash)) (RSeq (RLit ''/'') blob_suffix))) (p, s))"
  then obtain u r where "s = ''uploads/'' @ u @ ''/'' @ r" "u \<noteq> []" "\<forall>x \<in> set u. x \<noteq> slash" "blob_name r cs"
    "st' = (p + length (''uploads/'' :: string) + length u + length (''/'' :: string) + length r, [])"
    unfolding rmatch_Seq rmatch_Lit rmatch_Plus by (clarsimp simp only: rmatch_Lit rmatch_Plus rmatch_suffix append_Nil) blast
  then show "upload_name s cs \<and> st' = (p + length s, [])" unfolding upload_name_def by auto
qed

lemma upload_name_unique:
  assumes eq: "pre @ s = pre' @ s'" and "upload_name s cs" "upload_name s' cs'"
  shows "cs = cs'"
proof -
  from assms(2,3) obtain v r v' r' where "s = v @ r" "blob_name r cs" "s' = v' @ r'" "blob_name r' cs'"
    unfolding upload_name_def by (metis append_assoc)
  then show ?thesis using blob_name_unique(1) [of "pre @ v" r "pre' @ v'" r'] eq by simp
qed

lemma find_read:
  "FindStringSubmatch readResourceRegex name = Some cs \<longleftrightarrow> (\<exists>pre s. name = pre @ s \<and> at_component pre \<and> blob_name s cs)"
  unfolding readResourceRegex_def by (rule find_body [OF rmatch_suffix blob_name_unique(1)])

lemma find_write:
  "FindStringSubmatch writeResourceRegex name = Some cs \<longleftrightarrow> (\<exists>pre s. name = pre @ s \<and> at_component pre \<and> upload_name s cs)"
  unfolding writeResourceRegex_def by (rule find_body [OF rmatch_upload upload_name_unique])

lemma parse_find:
  assumes "FindStringSubmatch (if isWrite then writeResourceRegex else readResourceRegex) name = Some [t, h, z]"
    "t = ''blobs'' \<or> t = ''compressed-blobs/zstd''"
  shows "parseResourceName name isWrite =
     (if dec_value z < 2 ^ 63 then Inr (\<lparr>Hash = h, Size = dec_value z\<rparr>, t \<noteq> ''blobs'')
      else Inl (Status InvalidArgument ''invalid size in resource name''))"
  using assms(2) unfolding parseResourceName_def assms(1) by (auto simp: ParseInt_def)

text \<open>The part of a name before the kind of blob.\<close>

definition name_start :: "bool \<Rightarrow> string \<Rightarrow> bool" where
  "name_start isWrite b \<longleftrightarrow> (\<exists>pre. (pre = [] \<or> last pre = slash) \<and>
     (if isWrite then \<exists>u. b = pre @ ''uploads/'' @ u @ ''/'' \<and> u \<noteq> [] \<and> slash \<notin> set u else b = pre))"

lemma regroup:
  "(\<exists>pre s. name = pre @ s \<and> A pre \<and> (\<exists>u r. s = l @ u @ m @ r \<and> B u \<and> E u \<and> C r)) \<longleftrightarrow>
   (\<exists>b s. name = b @ s \<and> (\<exists>pre. A pre \<and> (\<exists>u. b = pre @ l @ u @ m \<and> B u \<and> E u)) \<and> C s)" (is "?L \<longleftrightarrow> ?R")
proof
  assume ?L
  then obtain pre u r where "name = (pre @ l @ u @ m) @ r" "A pre" "B u" "E u" "C r" by auto
  then show ?R by blast
next
  assume ?R
  then obtain pre u r where "name = pre @ l @ u @ m @ r" "A pre" "B u" "E u" "C r" by auto
  then show ?L by blast
qed

lemma find_iff:
  "FindStringSubmatch (if isWrite then writeResourceRegex else readResourceRegex) name = Some cs \<longleftrightarrow>
     (\<exists>b s. name = b @ s \<and> name_start isWrite b \<and> blob_name s cs)"
proof (cases isWrite)
  case True
  have "(\<exists>pre s. name = pre @ s \<and> at_component pre \<and> upload_name s cs) \<longleftrightarrow> (\<exists>b s. name = b @ s \<and> name_start True b \<and> blob_name s cs)"
    unfolding upload_name_def name_start_def at_component_def by (simp only: if_True regroup)
  then show ?thesis using True by (simp only: find_write if_True)
next
  case False
  have "name_start False = at_component" by (auto simp: name_start_def at_component_def fun_eq_iff)
  then show ?thesis using False by (simp only: find_read if_False)
qed

lemma parse_iff:
  "parseResourceName name isWrite = Inr (dg, compressed) \<longleftrightarrow>
     (\<exists>b h z. name = b @ (if compressed then ''compressed-blobs/zstd'' else ''blobs'') @ ''/'' @ h @ ''/'' @ z \<and>
        name_start isWrite b \<and> hex_string h \<and> dec_string z \<and> dec_value z < 2 ^ 63 \<and>
        dg = \<lparr>Hash = h, Size = dec_value z\<rparr>)" (is "?L \<longleftrightarrow> ?R")
proof
  assume ?L
  then obtain t h z where f: "FindStringSubmatch (if isWrite then writeResourceRegex else readResourceRegex) name = Some [t, h, z]"
    unfolding parseResourceName_def by (auto split: option.splits list.splits)
  then obtain b where b: "name = b @ t @ ''/'' @ h @ ''/'' @ z" "name_start isWrite b" "hex_string h" "dec_string z"
      "t = ''blobs'' \<or> t = ''compressed-blobs/zstd''" unfolding find_iff blob_name.simps by blast
  from parse_find [OF f b(5)] \<open>?L\<close> have "dec_value z < 2 ^ 63" "dg = \<lparr>Hash = h, Size = dec_value z\<rparr>" "compressed = (t \<noteq> ''blobs'')"
    by (auto split: if_splits)
  moreover have "t = (if compressed then ''compressed-blobs/zstd'' else ''blobs'')" using b(5) calculation(3) by auto
  ultimately show ?R using b(1-4) by blast
next
  assume ?R
  then obtain b h z where b: "name = b @ (if compressed then ''compressed-blobs/zstd'' else ''blobs'') @ ''/'' @ h @ ''/'' @ z"
    "name_start isWrite b" "hex_string h" "dec_string z" "dec_value z < 2 ^ 63" "dg = \<lparr>Hash = h, Size = dec_value z\<rparr>" by blast
  let ?t = "if compressed then ''compressed-blobs/zstd'' else ''blobs''"
  have t: "?t = ''blobs'' \<or> ?t = ''compressed-blobs/zstd''" "(?t \<noteq> ''blobs'') = compressed" by auto
  have "FindStringSubmatch (if isWrite then writeResourceRegex else readResourceRegex) name = Some [?t, h, z]"
    unfolding find_iff blob_name.simps using b t(1) by blast
  from parse_find [OF this t(1)] show ?L using b(5,6) t(2) by simp
qed

text \<open>C16: \<open>parseResourceName\<close>, which matches a regular expression by backtracking, accepts exactly the names that
  consist of an instance prefix, for a write the word uploads and an identifier without slashes, the
  kind of blob, a hexadecimal hash and a decimal size that fits 63 bits, separated by slashes; and it
  returns their hash, size and compression, which the name determines.\<close>

theorem parse_resource_name:
  "parseResourceName name isWrite = Inr (dg, compressed) \<longleftrightarrow>
     (\<exists>b h z. name = b @ (if compressed then ''compressed-blobs/zstd'' else ''blobs'') @ ''/'' @ h @ ''/'' @ z \<and>
        name_start isWrite b \<and> hex_string h \<and> dec_string z \<and> dec_value z < 2 ^ 63 \<and>
        dg = \<lparr>Hash = h, Size = dec_value z\<rparr>)"
  by (rule parse_iff)

lemma dec_value_show: "dec_value (show_nat n) = int n"
proof -
  have "foldl (\<lambda>a c. 10 * a + (int (of_char c) - 48)) (int b) (map (\<lambda>d. char_of (48 + d)) ds) = int (foldl (\<lambda>a d. 10 * a + d) b ds)"
    if "\<forall>d \<in> set ds. d < 10" for ds b
    using that
  proof (induction ds arbitrary: b)
    case (Cons d ds)
    then have "d < 10" "\<forall>d \<in> set ds. d < 10" by auto
    moreover have "10 * int b + (int (48 + d) - 48) = int (10 * b + d)" by simp
    ultimately show ?case using Cons.IH [of "10 * b + d"] by (simp only: list.map foldl.simps of_char_digit)
  qed simp
  from this [of "digits n" 0] show ?thesis unfolding dec_value_def show_nat_def using digits_less digits_value by simp
qed

lemma digits_Nil: "digits n \<noteq> []"
  by (subst digits.simps) simp

lemma dec_string_show: "dec_string (show_nat n)"
  unfolding dec_string_def
proof (intro conjI ballI)
  show "show_nat n \<noteq> []" by (simp add: show_nat_def digits_Nil)
  fix c assume "c \<in> set (show_nat n)"
  then obtain k :: nat where "k < 10" "c = char_of (48 + k)" using show_nat_digits by blast
  then show "dec_char c" using of_char_digit [of k] by (simp only: dec_char_def Let_def) simp
qed

text \<open>The name of a blob as clients write it.\<close>

definition blob_path :: "bool \<Rightarrow> Digest \<Rightarrow> string" where
  "blob_path compressed dg = (if compressed then ''compressed-blobs/zstd'' else ''blobs'') @ ''/'' @ Hash dg @ ''/'' @ show_int (Size dg)"

lemma parse_blob_path:
  assumes "name_start isWrite b" "hex_string (Hash dg)" "0 \<le> Size dg" "Size dg < 2 ^ 63"
  shows "parseResourceName (b @ blob_path compressed dg) isWrite = Inr (dg, compressed)"
proof -
  have "show_int (Size dg) = show_nat (nat (Size dg))" "dec_value (show_nat (nat (Size dg))) = Size dg"
    using assms(3) by (simp_all add: show_int_def dec_value_show)
  then show ?thesis unfolding parse_iff blob_path_def
    by (intro exI [of _ b] exI [of _ "Hash dg"] exI [of _ "show_nat (nat (Size dg))"])
      (use assms(1,2,4) dec_string_show in \<open>simp only: simp_thms Digest.surjective [symmetric] unit_eq\<close>, simp)
qed

end
