(* ===== verification/ByteStream.thy ===== *)
theory ByteStream
  imports LocalStore ResourceName
begin

text \<open>
  The byte stream service (\<^verbatim>\<open>pkg/server/bytestream.go\<close>) over any blob store: the handlers \<open>Read\<close> and
  \<open>Write\<close> with their loops, the pipe between the handler and the background \<open>Put\<close>, and compression as a
  parameter. The lemmas are proved for every store of the \<open>blob_store\<close> interface.
\<close>

section \<open>Readers and the compressor\<close>

text \<open>
  How a reader hands out its bytes: each call of \<open>Read\<close> gives at least one byte while there are bytes, at
  most as many as the buffer holds; \<open>chunk\<close> says how many more, and \<open>eager\<close> whether the end of the
  stream is reported together with its last bytes.
\<close>

record chunking =
  chunk :: "nat \<Rightarrow> nat"
  eager :: "nat \<Rightarrow> bool"
  sendErr :: "nat \<Rightarrow> goerr option"

text \<open>One call of \<open>Read\<close>: the bytes, what is left, and the end of the stream if it is reported.\<close>

definition read_chunk :: "chunking \<Rightarrow> nat \<Rightarrow> nat \<Rightarrow> reader \<Rightarrow> bytes \<times> reader \<times> goerr option option" where
  "read_chunk env i len rd =
     (let n = min (Suc (chunk env i)) (min len (length (rd_bytes rd)));
          rest = drop n (rd_bytes rd)
      in (take n (rd_bytes rd), rd\<lparr>rd_bytes := rest\<rparr>,
          if rest = [] \<and> (n = 0 \<or> eager env i) then Some (rd_err rd) else None))"

lemma read_chunk_less:
  "read_chunk env i len rd = (data, rd', None) \<Longrightarrow> 0 < len \<Longrightarrow> length (rd_bytes rd') < length (rd_bytes rd)"
  by (auto simp: read_chunk_def Let_def split: if_splits)

text \<open>
  The zstd package: \<open>zenc\<close> is the frame of a whole input, \<open>zpart\<close> what has been written of it when the
  input fails, and \<open>zdec\<close> a decoder over a reader.
\<close>

record zstd =
  zenc :: "bytes \<Rightarrow> bytes"
  zpart :: "bytes \<Rightarrow> bytes"
  zdec :: "reader \<Rightarrow> goerr + reader"

definition compressed_reader :: "zstd \<Rightarrow> reader \<Rightarrow> reader" where
  "compressed_reader Z rc =
     (case rd_err rc of
        None \<Rightarrow> \<lparr>rd_bytes = zenc Z (rd_bytes rc), rd_err = None\<rparr>
      | Some e \<Rightarrow> \<lparr>rd_bytes = zpart Z (rd_bytes rc), rd_err = Some e\<rparr>)"

section \<open>Read\<close>

definition readBufferSize :: nat where
  "readBufferSize = 65536"

record ReadRequest =
  rr_ResourceName :: string
  ReadOffset :: int
  ReadLimit :: int

text \<open>\<open>io.CopyN(io.Discard, r, n)\<close>: an error if the stream is shorter.\<close>

definition discard :: "reader \<Rightarrow> nat \<Rightarrow> goerr + reader" where
  "discard rd n =
     (if n \<le> length (rd_bytes rd) then Inr (rd\<lparr>rd_bytes := drop n (rd_bytes rd)\<rparr>)
      else Inl (case rd_err rd of None \<Rightarrow> ErrEOF | Some e \<Rightarrow> e))"

text \<open>
  The start of the stream: compression, then the offset. \<open>seek\<close> is the result of \<open>Seek\<close> where the reader is
  a seeker; a file can be positioned behind its end.
\<close>

definition open_stream ::
  "zstd \<Rightarrow> (goerr option) option \<Rightarrow> bool \<Rightarrow> int \<Rightarrow> reader \<Rightarrow> goerr + reader" where
  "open_stream Z seek isCompressed off rc =
     (let rd = (if isCompressed then compressed_reader Z rc else rc)
      in if 0 < off
         then (if isCompressed
               then (case discard rd (nat off) of
                       Inl e \<Rightarrow> Inl (Status Internal ''failed to skip offset in compressed stream'')
                     | Inr rd \<Rightarrow> Inr rd)
               else (case seek of
                       Some (Some e) \<Rightarrow> Inl (Status Internal ''failed to seek'')
                     | Some None \<Rightarrow> Inr (rd\<lparr>rd_bytes := drop (nat off) (rd_bytes rd)\<rparr>)
                     | None \<Rightarrow> (case discard rd (nat off) of
                                Inl e \<Rightarrow> Inl (Status Internal ''failed to skip offset'')
                              | Inr rd \<Rightarrow> Inr rd)))
         else Inr rd)"

function read_loop ::
  "chunking \<Rightarrow> int \<Rightarrow> nat \<Rightarrow> reader \<Rightarrow> int \<Rightarrow> bytes list \<Rightarrow> bytes list \<times> goerr option" where
  "read_loop env limit i rd totalSent sent =
     (if limit \<le> totalSent then (sent, None)
      else (case read_chunk env i (min readBufferSize (nat (limit - totalSent))) rd of
              (data, rd', err) \<Rightarrow>
                if data \<noteq> [] \<and> sendErr env i \<noteq> None then (sent, sendErr env i)
                else (let sent = (if data \<noteq> [] then sent @ [data] else sent);
                          totalSent = totalSent + int (length data)
                      in case err of
                           Some None \<Rightarrow> (sent, None)
                         | Some (Some e) \<Rightarrow> (sent, Some (Status Internal ''read error''))
                         | None \<Rightarrow> read_loop env limit (Suc i) rd' totalSent sent)))"
  by pat_completeness auto
termination
  apply (relation "measure (\<lambda>(env, limit, i, rd, totalSent, sent). length (rd_bytes rd))")
   apply simp
  apply (simp only: in_measure prod.case)
  apply (erule read_chunk_less [OF trans [OF sym]])
   apply simp
  apply (simp add: readBufferSize_def)
  done

declare read_loop.simps [simp del]

text \<open>\<open>status.Code\<close> looks through wrapped errors.\<close>

fun StatusCode :: "goerr \<Rightarrow> code" where
  "StatusCode (Status c m) = c"
| "StatusCode (Wrap m e) = StatusCode e"
| "StatusCode e = Unknown"

definition read_limit :: "ReadRequest \<Rightarrow> int" where
  "read_limit req = (if 0 < ReadLimit req then ReadLimit req else 2 ^ 63 - 1)"

definition ByteStream_Read ::
  "('s \<Rightarrow> Digest \<Rightarrow> ('s \<times> (goerr + reader)) outcome) \<Rightarrow> zstd \<Rightarrow> (goerr option) option \<Rightarrow> chunking \<Rightarrow>
   's \<Rightarrow> ReadRequest \<Rightarrow> ('s \<times> bytes list \<times> goerr option) outcome" where
  "ByteStream_Read get Z seek env s req =
     (case parseResourceName (rr_ResourceName req) False of
        Inl e \<Rightarrow> Return (s, [], Some e)
      | Inr (dg, isCompressed) \<Rightarrow>
          bindo (get s dg) (\<lambda>(s, r).
            case r of
              Inl err \<Rightarrow>
                Return (s, [], Some (if IsNotExist err \<or> StatusCode err = NotFound
                                     then Status NotFound ''blob not found''
                                     else Status Internal ''failed to get blob''))
            | Inr rc \<Rightarrow>
                (case open_stream Z seek isCompressed (ReadOffset req) rc of
                   Inl e \<Rightarrow> Return (s, [], Some e)
                 | Inr rd \<Rightarrow> Return (s, read_loop env (read_limit req) 0 rd 0 []))))"

section \<open>Write\<close>

record WriteRequest =
  wr_ResourceName :: string
  WriteOffset :: int
  Data :: bytes
  FinishWrite :: bool

definition start_write :: "WriteRequest \<Rightarrow> goerr + (Digest \<times> bool)" where
  "start_write req =
     (if wr_ResourceName req = [] then Inl (Status InvalidArgument ''missing resource name in first message'')
      else if 0 < WriteOffset req then Inl (Status InvalidArgument ''resumable uploads not supported'')
      else parseResourceName (wr_ResourceName req) True)"

text \<open>
  How the receiving loop ends: it blocks for ever, returns an error, or goes on to wait for the
  store. The last two carry what was initialised and written to the pipe. A write to the pipe returns
  when its reader has taken all of it; \<open>eats\<close> is the number of bytes the background \<open>Put\<close> reads before it
  returns, \<open>None\<close> if it reads to the end.
\<close>

datatype wloop =
    Blocked
  | Returned goerr "(Digest \<times> bool) option" bytes
  | Finished "(Digest \<times> bool) option" bytes

definition stalled :: "nat option \<Rightarrow> bytes \<Rightarrow> bool" where
  "stalled eats w = (case eats of None \<Rightarrow> False | Some n \<Rightarrow> n < length w)"

fun write_loop ::
  "nat option \<Rightarrow> (goerr + WriteRequest) list \<Rightarrow> (Digest \<times> bool) option \<Rightarrow> bytes \<Rightarrow> wloop" where
  "write_loop eats [] started w = Finished started w"
| "write_loop eats (Inl e # ms) started w = Returned e started w"
| "write_loop eats (Inr req # ms) started w =
     (case (case started of Some d \<Rightarrow> Inr d | None \<Rightarrow> start_write req) of
        Inl e \<Rightarrow> Returned e None w
      | Inr d \<Rightarrow>
          if Data req \<noteq> [] \<and> stalled eats (w @ Data req) then Blocked
          else if FinishWrite req then Finished (Some d) (w @ Data req)
          else write_loop eats ms (Some d) (w @ Data req))"

text \<open>The background \<open>Put\<close>.\<close>

definition background_put ::
  "('s \<Rightarrow> Digest \<Rightarrow> reader \<Rightarrow> ('s \<times> goerr option) outcome) \<Rightarrow> zstd \<Rightarrow> 's \<Rightarrow> Digest \<times> bool \<Rightarrow> reader \<Rightarrow>
   ('s \<times> goerr option) outcome" where
  "background_put put Z s d rd =
     (if snd d
      then (case zdec Z rd of
              Inl e \<Rightarrow> Return (s, Some e)
            | Inr input \<Rightarrow> put s (fst d) input)
      else put s (fst d) rd)"

text \<open>
  The whole handler; \<open>None\<close> where it blocks for ever. When it returns early the deferred calls close
  the pipe, so that the background \<open>Put\<close> sees a closed pipe after what was written. \<open>ctxDone\<close> is set when the context ends before
  the store answers, and says whether the store still saw the end of the data.
\<close>

definition ByteStream_Write ::
  "('s \<Rightarrow> Digest \<Rightarrow> reader \<Rightarrow> ('s \<times> goerr option) outcome) \<Rightarrow> zstd \<Rightarrow> nat option \<Rightarrow> bool option \<Rightarrow>
   's \<Rightarrow> (goerr + WriteRequest) list \<Rightarrow> ('s \<times> (goerr + int)) outcome option" where
  "ByteStream_Write put Z eats ctxDone s msgs =
     (case write_loop eats msgs None [] of
        Blocked \<Rightarrow> None
      | Returned e None w \<Rightarrow> Some (Return (s, Inl e))
      | Returned e (Some d) w \<Rightarrow>
          Some (bindo (background_put put Z s d \<lparr>rd_bytes = w, rd_err = Some ErrClosedPipe\<rparr>)
                  (\<lambda>(s, _). Return (s, Inl e)))
      | Finished None w \<Rightarrow> Some (Return (s, Inl (Status InvalidArgument ''never received resource name'')))
      | Finished (Some d) w \<Rightarrow>
          (case ctxDone of
             None \<Rightarrow>
               Some (bindo (background_put put Z s d \<lparr>rd_bytes = w, rd_err = None\<rparr>)
                 (\<lambda>(s, r). Return (s, case r of Some e \<Rightarrow> Inl (Status Internal ''store put failed'')
                                             | None \<Rightarrow> Inr (int (length w)))))
           | Some eof \<Rightarrow>
               Some (bindo (background_put put Z s d \<lparr>rd_bytes = w, rd_err = if eof then None else Some ErrClosedPipe\<rparr>)
                 (\<lambda>(s, _). Return (s, Inl CtxErr)))))"

definition QueryWriteStatus :: "goerr + unit" where
  "QueryWriteStatus = Inl (Status Unimplemented ''QueryWriteStatus not implemented'')"

section \<open>Lemmas on Read\<close>

lemma read_chunk_cases:
  assumes "read_chunk env i len rd = (data, rd', err)" "0 < len"
  shows "rd_bytes rd = data @ rd_bytes rd'" "length data \<le> len" "rd_err rd' = rd_err rd"
    "err = None \<Longrightarrow> data \<noteq> []" "err \<noteq> None \<Longrightarrow> err = Some (rd_err rd) \<and> rd_bytes rd' = []"
  using assms by (auto simp: read_chunk_def Let_def min_def split: if_splits)

text \<open>What the loop sends: parts of the wanted bytes in order, all of them if it reports no error.\<close>

definition sends :: "bytes list \<Rightarrow> bytes \<Rightarrow> bool" where
  "sends cs x \<longleftrightarrow> (\<exists>r. x = concat cs @ r) \<and> (\<forall>c \<in> set cs. c \<noteq> [] \<and> length c \<le> readBufferSize)"

lemma read_loop_spec:
  "\<exists>cs e. read_loop env limit i rd tot sent = (sent @ cs, e) \<and> sends cs (take (nat (limit - tot)) (rd_bytes rd)) \<and>
     (e = None \<longrightarrow> concat cs = take (nat (limit - tot)) (rd_bytes rd)) \<and>
     (e = None \<longrightarrow> rd_err rd \<noteq> None \<longrightarrow> nat (limit - tot) \<le> length (rd_bytes rd)) \<and>
     (rd_err rd = None \<longrightarrow> (\<forall>j. sendErr env j = None) \<longrightarrow> e = None)"
proof (induction env limit i rd tot sent rule: read_loop.induct)
  case (1 env limit i rd tot sent)
  show ?case
  proof (cases "limit \<le> tot")
    case True
    then show ?thesis by (simp add: read_loop.simps sends_def)
  next
    case False
    obtain data rd' err where rc: "read_chunk env i (min readBufferSize (nat (limit - tot))) rd = (data, rd', err)"
      by (cases "read_chunk env i (min readBufferSize (nat (limit - tot))) rd")
    have pos: "0 < min readBufferSize (nat (limit - tot))" using False by (simp add: readBufferSize_def)
    note c = read_chunk_cases [OF rc pos]
    let ?x = "take (nat (limit - tot)) (rd_bytes rd)"
    have x: "?x = data @ take (nat (limit - tot) - length data) (rd_bytes rd')" using c(1,2) by simp
    show ?thesis
    proof (cases "data \<noteq> [] \<and> sendErr env i \<noteq> None")
      case True
      then show ?thesis using False by (subst read_loop.simps) (auto simp: rc sends_def)
    next
      case ok: False
      let ?sent = "if data \<noteq> [] then sent @ [data] else sent"
      show ?thesis
      proof (cases err)
        case None
        have d: "data \<noteq> []" by (rule c(4) [OF None])
        have eq: "read_loop env limit i rd tot sent = read_loop env limit (Suc i) rd' (tot + int (length data)) ?sent"
          using False ok None d by (subst read_loop.simps) (auto simp: rc)
        from "1.IH" [OF False rc [symmetric] refl ok refl refl None] c(3)
        obtain cs e where IH: "read_loop env limit (Suc i) rd' (tot + int (length data)) ?sent = (?sent @ cs, e)"
            "sends cs (take (nat (limit - (tot + int (length data)))) (rd_bytes rd'))"
            "e = None \<longrightarrow> concat cs = take (nat (limit - (tot + int (length data)))) (rd_bytes rd')"
            "e = None \<longrightarrow> rd_err rd \<noteq> None \<longrightarrow> nat (limit - (tot + int (length data))) \<le> length (rd_bytes rd')"
            "rd_err rd = None \<longrightarrow> (\<forall>j. sendErr env j = None) \<longrightarrow> e = None" by auto
        have n: "nat (limit - (tot + int (length data))) = nat (limit - tot) - length data" by simp
        have "read_loop env limit i rd tot sent = (sent @ (data # cs), e)" using eq IH(1) d by simp
        moreover have "sends (data # cs) ?x" using IH(2) c(2) d unfolding n x sends_def by auto
        moreover have "e = None \<longrightarrow> concat (data # cs) = ?x" using IH(3) unfolding n x by simp
        moreover have "e = None \<longrightarrow> rd_err rd \<noteq> None \<longrightarrow> nat (limit - tot) \<le> length (rd_bytes rd)"
          using IH(4) c(1) unfolding n by auto
        ultimately show ?thesis using IH(5)
          by - (rule exI [of _ "data # cs"], rule exI [of _ e], (rule conjI, assumption)+, assumption)
      next
        case (Some q)
        then have q: "q = rd_err rd" "rd_bytes rd' = []" using c(5) by auto
        then have "?x = data" using x by simp
        moreover have "sends (if data = [] then [] else [data]) data" using c(2) by (simp add: sends_def)
        moreover have "\<exists>e. read_loop env limit i rd tot sent = (sent @ (if data = [] then [] else [data]), e) \<and> (rd_err rd = None \<longleftrightarrow> e = None)"
          using False ok Some q by (subst read_loop.simps) (auto simp: rc split: option.splits)
        ultimately show ?thesis by (intro exI [of _ "if data = [] then [] else [data]"]) auto
      qed
    qed
  qed
qed

text \<open>What the code relies on of a stream compressor: what it has written at any time is a prefix of the frame.\<close>

definition zstd_stream :: "zstd \<Rightarrow> bool" where
  "zstd_stream Z \<longleftrightarrow> (\<forall>p r. \<exists>r'. zenc Z (p @ r) = zpart Z p @ r')"

definition content_of :: "zstd \<Rightarrow> bool \<Rightarrow> bytes \<Rightarrow> bytes" where
  "content_of Z compressed x = (if compressed then zenc Z x else x)"

definition part_of :: "reader \<Rightarrow> bytes \<Rightarrow> bool" where
  "part_of rd x \<longleftrightarrow> (\<exists>n. rd_bytes rd = take n x) \<and> (rd_err rd = None \<longrightarrow> rd_bytes rd = x)"

lemma take_of_append: "x = p @ r \<Longrightarrow> \<exists>n. p = take n x"
  by (rule exI [of _ "length p"]) simp

lemma part_of_drop: "part_of rd x \<Longrightarrow> part_of (rd\<lparr>rd_bytes := drop k (rd_bytes rd)\<rparr>) (drop k x)"
  unfolding part_of_def by (auto simp: drop_take; metis drop_take)

lemma part_of_compressed:
  assumes "zstd_stream Z" "part_of rd x"
  shows "part_of (compressed_reader Z rd) (zenc Z x)"
proof -
  obtain n where n: "rd_bytes rd = take n x" using assms(2) by (auto simp: part_of_def)
  have "\<exists>r'. zenc Z (take n x @ drop n x) = zpart Z (take n x) @ r'" using assms(1) unfolding zstd_stream_def by blast
  then have "\<exists>k. zpart Z (rd_bytes rd) = take k (zenc Z x)" using n take_of_append by auto
  moreover have "\<exists>k. zenc Z x = take k (zenc Z x)" using take_of_append [of "zenc Z x" "zenc Z x" "[]"] by simp
  ultimately show ?thesis using assms(2) by (auto simp: part_of_def compressed_reader_def split: option.splits)
qed

lemma open_stream_part:
  assumes "zstd_stream Z" "part_of rc x" "open_stream Z seek compressed off rc = Inr rd"
  shows "part_of rd (drop (nat off) (content_of Z compressed x))"
proof -
  let ?rd = "if compressed then compressed_reader Z rc else rc"
  have p: "part_of ?rd (content_of Z compressed x)"
    using assms(2) part_of_compressed [OF assms(1,2)] by (simp add: content_of_def)
  have "rd = (if 0 < off then ?rd\<lparr>rd_bytes := drop (nat off) (rd_bytes ?rd)\<rparr> else ?rd)"
    using assms(3) by (auto simp: open_stream_def discard_def Let_def split: if_splits option.splits)
  then show ?thesis using p part_of_drop [OF p, of "nat off"] by (cases "0 < off") simp_all
qed

lemma read_loop_part:
  assumes "part_of rd y" "read_loop env limit 0 rd 0 [] = (sent, e)"
  shows "sends sent (take (nat limit) y)" "e = None \<Longrightarrow> concat sent = take (nat limit) y"
proof -
  obtain n where n: "rd_bytes rd = take n y" using assms(1) by (auto simp: part_of_def)
  have l: "sends sent (take (nat limit) (rd_bytes rd))" "e = None \<longrightarrow> concat sent = take (nat limit) (rd_bytes rd)"
    "e = None \<longrightarrow> rd_err rd \<noteq> None \<longrightarrow> nat limit \<le> length (rd_bytes rd)"
    using read_loop_spec [of env limit 0 rd 0 "[]"] assms(2) by auto
  have "take (nat limit) (rd_bytes rd) = take n (take (nat limit) y)" unfolding n by (simp add: min.commute)
  then have y: "take (nat limit) y = take (nat limit) (rd_bytes rd) @ drop n (take (nat limit) y)"
    by (metis append_take_drop_id)
  obtain r where "take (nat limit) (rd_bytes rd) = concat sent @ r" using l(1) by (auto simp: sends_def)
  with y have "take (nat limit) y = concat sent @ r @ drop n (take (nat limit) y)" by simp
  then show "sends sent (take (nat limit) y)" using l(1) unfolding sends_def by blast
  assume e: "e = None"
  show "concat sent = take (nat limit) y"
  proof (cases "rd_err rd")
    case None
    then show ?thesis using assms(1) l(2) e by (simp add: part_of_def)
  next
    case (Some _)
    then show ?thesis using l(2,3) e n by simp
  qed
qed

context blob_reader
begin

text \<open>Whatever goes wrong, the bytes sent are the first of the wanted ones; without an error they are all of them.\<close>

lemma read_blob:
  assumes "inv s" "okh (Hash dg)" "parseResourceName (rr_ResourceName req) False = Inr (dg, compressed)" "zstd_stream Z"
  shows "\<exists>t sent e. ByteStream_Read get Z seek env s req = Return (t, sent, e) \<and> inv t \<and>
    (\<forall>h. okh h \<longrightarrow> view t h = view s h) \<and>
    (case view s (Hash dg) of
       None \<Rightarrow> sent = [] \<and> e \<noteq> None
     | Some x \<Rightarrow>
         (let wanted = take (nat (read_limit req)) (drop (nat (ReadOffset req)) (content_of Z compressed x))
          in sends sent wanted \<and> (e = None \<longrightarrow> concat sent = wanted)))"
proof -
  from get_law [OF assms(1,2)] obtain t r where g: "get s dg = Return (t, r)" "inv t" "\<forall>h. okh h \<longrightarrow> view t h = view s h"
    and law: "case r of Inl e \<Rightarrow> IsNotExist e \<longrightarrow> view s (Hash dg) = None
       | Inr rd \<Rightarrow> \<exists>x. view s (Hash dg) = Some x \<and> (rd_err rd = None \<longrightarrow> rd_bytes rd = x) \<and> (\<exists>n. rd_bytes rd = take n x)" by blast
  have fail: ?thesis if "\<exists>e. ByteStream_Read get Z seek env s req = Return (t, [], Some e)"
    using that g(2,3) by (cases "view s (Hash dg)") (auto simp: sends_def Let_def)
  show ?thesis
  proof (cases r)
    case (Inl err)
    then show ?thesis using fail by (simp add: ByteStream_Read_def assms(3) g(1))
  next
    case (Inr rc)
    then have "\<exists>x. view s (Hash dg) = Some x \<and> part_of rc x" using law unfolding part_of_def by (simp only: sum.case) metis
    then obtain x where x: "view s (Hash dg) = Some x" "part_of rc x" by blast
    show ?thesis
    proof (cases "open_stream Z seek compressed (ReadOffset req) rc")
      case (Inl e)
      then show ?thesis using fail Inr by (simp add: ByteStream_Read_def assms(3) g(1))
    next
      case o: (Inr rd)
      obtain sent e where l: "read_loop env (read_limit req) 0 rd 0 [] = (sent, e)" by fastforce
      have "ByteStream_Read get Z seek env s req = Return (t, sent, e)" using Inr o l by (simp add: ByteStream_Read_def assms(3) g(1))
      moreover note read_loop_part [OF open_stream_part [OF assms(4) x(2) o] l]
      ultimately show ?thesis using g(2,3) x(1) by (auto simp: Let_def)
    qed
  qed
qed

end

section \<open>Lemmas on Write\<close>

text \<open>\<open>input\<close> is what the store reads of the pipe.\<close>

definition decoded :: "zstd \<Rightarrow> bool \<Rightarrow> reader \<Rightarrow> reader \<Rightarrow> bool" where
  "decoded Z compressed rd input \<longleftrightarrow> (if compressed then zdec Z rd = Inr input else input = rd)"

context blob_store
begin

lemma background_put_law:
  assumes "inv s" "okh (Hash dg)"
  shows "\<exists>t r. background_put put Z s (dg, compressed) rd = Return (t, r) \<and> inv t \<and>
    (\<forall>h. okh h \<longrightarrow> h \<noteq> Hash dg \<longrightarrow> view t h = view s h) \<and>
    (r = None \<longrightarrow> (\<exists>input. decoded Z compressed rd input \<and> rd_err input = None \<and> view t (Hash dg) = Some (rd_bytes input)))"
proof (cases "compressed \<and> (\<exists>e. zdec Z rd = Inl e)")
  case True
  then show ?thesis using assms by (auto simp: background_put_def)
next
  case False
  then obtain input where i: "decoded Z compressed rd input"
    unfolding decoded_def by (cases compressed; cases "zdec Z rd") auto
  then have eq: "background_put put Z s (dg, compressed) rd = put s dg input"
    by (auto simp: background_put_def decoded_def split: if_splits)
  from put_law [OF assms, of input] obtain t r where t: "put s dg input = Return (t, r)" "inv t"
      "\<forall>h. okh h \<longrightarrow> h \<noteq> Hash dg \<longrightarrow> view t h = view s h"
      "r = None \<longrightarrow> view t (Hash dg) = Some (rd_bytes input) \<and> rd_err input = None" by blast
  show ?thesis unfolding eq using t i by blast
qed

text \<open>A handler that starts a well-formed upload keeps the invariant and other blobs, and a success stores the decoded bytes.\<close>

lemma write_blob:
  assumes "inv s" "write_loop eats msgs None [] = Finished (Some (dg, compressed)) w" "okh (Hash dg)"
  shows "\<exists>t r. ByteStream_Write put Z eats None s msgs = Some (Return (t, r)) \<and> inv t \<and>
    (\<forall>h. okh h \<longrightarrow> h \<noteq> Hash dg \<longrightarrow> view t h = view s h) \<and>
    (\<forall>n. r = Inr n \<longrightarrow> n = int (length w) \<and> (\<exists>input. decoded Z compressed \<lparr>rd_bytes = w, rd_err = None\<rparr> input \<and>
       rd_err input = None \<and> view t (Hash dg) = Some (rd_bytes input)))"
proof -
  from background_put_law [OF assms(1,3), of Z compressed "\<lparr>rd_bytes = w, rd_err = None\<rparr>"] obtain t r where
    b: "background_put put Z s (dg, compressed) \<lparr>rd_bytes = w, rd_err = None\<rparr> = Return (t, r)" "inv t"
      "\<forall>h. okh h \<longrightarrow> h \<noteq> Hash dg \<longrightarrow> view t h = view s h"
      "r = None \<longrightarrow> (\<exists>input. decoded Z compressed \<lparr>rd_bytes = w, rd_err = None\<rparr> input \<and> rd_err input = None \<and>
         view t (Hash dg) = Some (rd_bytes input))" by blast
  have "ByteStream_Write put Z eats None s msgs = Some (Return (t, case r of Some e \<Rightarrow> Inl (Status Internal ''store put failed'')
                                             | None \<Rightarrow> Inr (int (length w))))"
    by (simp add: ByteStream_Write_def assms(2) b(1))
  then show ?thesis using b(2-4) by (cases r) auto
qed

end

end
