(* ===== verification/RemoteStore.thy ===== *)
theory RemoteStore
  imports ByteStream LocalStore_Props
begin

text \<open>
  The remote tier (\<^verbatim>\<open>pkg/storage/remote.go\<close>): \<open>RemoteStore\<close> as a client of a byte stream server, with the SDK
  client as a parameter, and the properties of the byte stream service over the local store, alone and with
  this client.
\<close>

section \<open>RemoteStore\<close>

text \<open>
  What the store uses of the SDK client: the names it makes of a prefix, a hash and a size, and of an
  upload; the answers of the server to a read, to a finished write and to a query for missing blobs; and its action cache.
\<close>

record rclient =
  ResourceName :: "string \<Rightarrow> string \<Rightarrow> string \<Rightarrow> goerr + string"
  ResourceNameWrite :: "string \<Rightarrow> int \<Rightarrow> goerr + string"
  c_Read :: "string \<Rightarrow> goerr + (bytes list \<times> goerr option)"
  c_Write :: "goerr + (WriteRequest list \<Rightarrow> goerr + int)"
  MissingBlobs :: "Digest list \<Rightarrow> goerr + Digest list"
  c_GetActionResult :: "Digest \<Rightarrow> goerr + ActionResult"
  c_UpdateActionResult :: "Digest \<Rightarrow> ActionResult \<Rightarrow> goerr + ActionResult"

definition remote_Has :: "rclient \<Rightarrow> Digest \<Rightarrow> goerr + bool" where
  "remote_Has c d =
     (case MissingBlobs c [d] of
        Inl e \<Rightarrow> Inl e
      | Inr missing \<Rightarrow> Inr (length missing = 0))"

definition remote_GetActionResult :: "rclient \<Rightarrow> Digest \<Rightarrow> goerr + ActionResult" where
  "remote_GetActionResult c d = c_GetActionResult c d"

definition remote_UpdateActionResult :: "rclient \<Rightarrow> Digest \<Rightarrow> ActionResult \<Rightarrow> goerr option" where
  "remote_UpdateActionResult c d result = (case c_UpdateActionResult c d result of Inl e \<Rightarrow> Some e | Inr _ \<Rightarrow> None)"

text \<open>
  \<open>Get\<close>: a background loop copies the stream into a pipe, and closes it with the error of the stream.
\<close>

definition remote_Get :: "rclient \<Rightarrow> zstd \<Rightarrow> string \<Rightarrow> Digest \<Rightarrow> goerr + reader" where
  "remote_Get c Z compression d =
     (case ResourceName c (if compression = ''zstd'' then ''compressed-blobs/zstd'' else ''blobs'') (Hash d) (show_int (Size d)) of
        Inl e \<Rightarrow> Inl e
      | Inr resourceName \<Rightarrow>
          (case c_Read c resourceName of
             Inl e \<Rightarrow> Inl e
           | Inr (msgs, err) \<Rightarrow>
               (let pr = \<lparr>rd_bytes = concat msgs, rd_err = err\<rparr>
                in if compression = ''zstd'' then zdec Z pr else Inr pr)))"

definition isCommitSuccessful :: "string \<Rightarrow> Digest \<Rightarrow> int \<Rightarrow> bool" where
  "isCommitSuccessful compression d committedSize =
     (if compression = ''zstd'' then committedSize \<noteq> 0 else committedSize = Size d)"

text \<open>After a send that failed: the server may have closed the stream because it has the blob.\<close>

definition early_close :: "(WriteRequest list \<Rightarrow> goerr + int) \<Rightarrow> (int \<Rightarrow> bool) \<Rightarrow> WriteRequest list \<Rightarrow> goerr \<Rightarrow> goerr option" where
  "early_close srv committed msgs err =
     (case srv msgs of
        Inl _ \<Rightarrow> Some err
      | Inr n \<Rightarrow> if committed n then None else Some err)"

definition finish_put ::
  "(WriteRequest list \<Rightarrow> goerr + int) \<Rightarrow> (int \<Rightarrow> bool) \<Rightarrow> goerr option \<Rightarrow> string \<Rightarrow> int \<Rightarrow> WriteRequest list \<Rightarrow>
   WriteRequest list \<times> goerr option" where
  "finish_put srv committed finErr resourceName offset msgs =
     (let req = \<lparr>wr_ResourceName = (if offset = 0 then resourceName else []), WriteOffset = offset, Data = [], FinishWrite = True\<rparr>
      in case finErr of
           Some err \<Rightarrow> (msgs, early_close srv committed msgs err)
         | None \<Rightarrow>
             (msgs @ [req],
              case srv (msgs @ [req]) of
                Inl e \<Rightarrow> Some e
              | Inr n \<Rightarrow> if committed n then None else Some (Errorf ''incomplete write'')))"

function remote_put_loop ::
  "chunking \<Rightarrow> goerr option \<Rightarrow> (WriteRequest list \<Rightarrow> goerr + int) \<Rightarrow> (int \<Rightarrow> bool) \<Rightarrow> string \<Rightarrow> nat \<Rightarrow> reader \<Rightarrow> int \<Rightarrow>
   WriteRequest list \<Rightarrow> WriteRequest list \<times> goerr option" where
  "remote_put_loop env finErr srv committed resourceName i rd offset msgs =
     (case read_chunk env i 32768 rd of
        (data, rd', readErr) \<Rightarrow>
          let req = \<lparr>wr_ResourceName = (if 0 < offset then [] else resourceName), WriteOffset = offset, Data = data, FinishWrite = False\<rparr>;
              sent = (if data \<noteq> [] then sendErr env i else None);
              msgs' = (if data \<noteq> [] then msgs @ [req] else msgs);
              offset' = offset + int (length data)
          in case sent of
               Some err \<Rightarrow> (msgs, early_close srv committed msgs err)
             | None \<Rightarrow>
                 (case readErr of
                    Some None \<Rightarrow> finish_put srv committed finErr resourceName offset' msgs'
                  | Some (Some e) \<Rightarrow> (msgs', Some e)
                  | None \<Rightarrow> remote_put_loop env finErr srv committed resourceName (Suc i) rd' offset' msgs'))"
  by pat_completeness auto
termination
  apply (relation "measure (\<lambda>(env, finErr, srv, committed, resourceName, i, rd, offset, msgs). length (rd_bytes rd))")
   apply simp
  apply (simp only: in_measure prod.case)
  apply (erule read_chunk_less [OF trans [OF sym]])
   apply simp
  apply simp
  done

declare remote_put_loop.simps [simp del]

text \<open>\<open>Put\<close>, with the messages sent; \<open>uuid\<close> is the fresh identifier of the upload.\<close>

definition remote_Put ::
  "rclient \<Rightarrow> zstd \<Rightarrow> string \<Rightarrow> string \<Rightarrow> chunking \<Rightarrow> goerr option \<Rightarrow> Digest \<Rightarrow> reader \<Rightarrow> WriteRequest list \<times> goerr option" where
  "remote_Put c Z compression uuid env finErr d data =
     (case (if compression = ''zstd''
            then ResourceName c (''uploads/'' @ uuid @ ''/compressed-blobs/zstd'') (Hash d) (show_int (Size d))
            else ResourceNameWrite c (Hash d) (Size d)) of
        Inl e \<Rightarrow> ([], Some e)
      | Inr resourceName \<Rightarrow>
          (case c_Write c of
             Inl e \<Rightarrow> ([], Some e)
           | Inr srv \<Rightarrow>
               remote_put_loop env finErr srv (isCommitSuccessful compression d) resourceName 0
                 (if compression = ''zstd'' then compressed_reader Z data else data) 0 []))"

section \<open>Uploads\<close>

lemma write_loop_data:
  assumes "start_write \<lparr>wr_ResourceName = rn, WriteOffset = 0, Data = data, FinishWrite = f\<rparr> = Inr d" "0 \<le> offset"
  shows "write_loop None (Inr \<lparr>wr_ResourceName = (if 0 < offset then [] else rn), WriteOffset = offset, Data = data, FinishWrite = f\<rparr> # ms)
      (if offset = 0 then None else Some d) w =
    (if f then Finished (Some d) (w @ data) else write_loop None ms (Some d) (w @ data))"
  using assms by (cases "offset = 0") (simp_all add: stalled_def)

lemma remote_put_loop_messages:
  assumes env: "\<forall>j. sendErr env j = None"
    and start: "\<And>x f. start_write \<lparr>wr_ResourceName = rn, WriteOffset = 0, Data = x, FinishWrite = f\<rparr> = Inr d"
    and "0 \<le> offset" "rd_err rd = None"
  shows "\<exists>ms. remote_put_loop env None srv committed rn i rd offset msgs =
      (msgs @ ms, case srv (msgs @ ms) of Inl e \<Rightarrow> Some e | Inr n \<Rightarrow> if committed n then None else Some (Errorf ''incomplete write'')) \<and>
    write_loop None (map Inr ms) (if offset = 0 then None else Some d) w = Finished (Some d) (w @ rd_bytes rd)"
  using assms(3,4)
proof (induction "length (rd_bytes rd)" arbitrary: i rd offset msgs w rule: less_induct)
  case less
  obtain data rd' err where rc: "read_chunk env i 32768 rd = (data, rd', err)" by (cases "read_chunk env i 32768 rd")
  note c = read_chunk_cases [OF rc, simplified]
  let ?req = "\<lparr>wr_ResourceName = (if 0 < offset then [] else rn), WriteOffset = offset, Data = data, FinishWrite = False\<rparr>"
  let ?off = "offset + int (length data)" and ?msgs = "if data \<noteq> [] then msgs @ [?req] else msgs"
  have step: "write_loop None (map Inr (?req # ms)) (if offset = 0 then None else Some d) w =
      write_loop None (map Inr ms) (Some d) (w @ data)" for ms
    using write_loop_data [OF start less.prems(1), of data False "map Inr ms" w] by simp
  show ?case
  proof (cases err)
    case None
    have d: "data \<noteq> []" by (rule c(4) [OF None])
    have "length (rd_bytes rd') < length (rd_bytes rd)" using c(1) d by simp
    moreover have off: "(if ?off = 0 then None else Some d) = Some d" "0 \<le> ?off" using less.prems(1) d by (cases data; simp)+
    ultimately obtain ms where ms: "remote_put_loop env None srv committed rn (Suc i) rd' ?off (msgs @ [?req]) =
        ((msgs @ [?req]) @ ms, case srv ((msgs @ [?req]) @ ms) of Inl e \<Rightarrow> Some e
            | Inr n \<Rightarrow> if committed n then None else Some (Errorf ''incomplete write''))"
      "write_loop None (map Inr ms) (Some d) (w @ data) = Finished (Some d) ((w @ data) @ rd_bytes rd')"
      using less.hyps [of rd' ?off "Suc i" "msgs @ [?req]" "w @ data"] less.prems(2) c(3) unfolding off(1) by auto
    have "remote_put_loop env None srv committed rn i rd offset msgs = remote_put_loop env None srv committed rn (Suc i) rd' ?off (msgs @ [?req])"
      using None d env by (subst remote_put_loop.simps) (simp add: rc)
    then show ?thesis using ms step [of ms] c(1) by (intro exI [of _ "?req # ms"]) simp
  next
    case (Some q)
    then have q: "q = None" "rd_bytes rd' = []" "rd_bytes rd = data" using c(1,5) less.prems(2) by auto
    let ?fin = "\<lparr>wr_ResourceName = (if 0 < ?off then [] else rn), WriteOffset = ?off, Data = [], FinishWrite = True\<rparr>"
    have fin: "(if ?off = 0 then rn else []) = (if 0 < ?off then [] else rn)" using less.prems(1) by simp
    have eq: "remote_put_loop env None srv committed rn i rd offset msgs = finish_put srv committed None rn ?off ?msgs"
      using Some q(1) env by (subst remote_put_loop.simps) (simp add: rc)
    have wl: "write_loop None (map Inr [?fin]) (if ?off = 0 then None else Some d) v = Finished (Some d) v" for v
      using write_loop_data [OF start, of ?off "[]" True "[]" v] less.prems(1) by simp
    let ?ms = "(if data \<noteq> [] then [?req] else []) @ [?fin]"
    have "remote_put_loop env None srv committed rn i rd offset msgs = (msgs @ ?ms, case srv (msgs @ ?ms) of Inl e \<Rightarrow> Some e
            | Inr n \<Rightarrow> if committed n then None else Some (Errorf ''incomplete write''))"
      unfolding eq finish_put_def fin Let_def by simp
    moreover have "write_loop None (map Inr ?ms) (if offset = 0 then None else Some d) w = Finished (Some d) (w @ rd_bytes rd)"
    proof (cases "data = []")
      case True
      then show ?thesis using wl [of w] q(3) by simp
    next
      case False
      then have "?off \<noteq> 0" using less.prems(1) by (cases data) simp_all
      then show ?thesis using wl [of "w @ data"] step [of "[?fin]"] False q(3) by (simp only: if_False if_True append_Cons append_Nil simp_thms)
    qed
    ultimately show ?thesis by blast
  qed
qed

text \<open>
  A client and a server that talk to each other: the names the SDK documents for an empty instance name,
  a compressor and decompressor that fit together, and the answer of the byte stream server to the messages
  of an upload.
\<close>

definition sdk_names :: "rclient \<Rightarrow> string \<Rightarrow> bool" where
  "sdk_names c uuid \<longleftrightarrow>
     (\<forall>p h z. ResourceName c p h z = Inr (p @ ''/'' @ h @ ''/'' @ z)) \<and>
     (\<forall>h n. ResourceNameWrite c h n = Inr (''uploads/'' @ uuid @ ''/blobs/'' @ h @ ''/'' @ show_int n)) \<and>
     uuid \<noteq> [] \<and> slash \<notin> set uuid"

definition zstd_ok :: "zstd \<Rightarrow> bool" where
  "zstd_ok Z \<longleftrightarrow> zstd_stream Z \<and>
     (\<forall>x. zdec Z \<lparr>rd_bytes = zenc Z x, rd_err = None\<rparr> = Inr \<lparr>rd_bytes = x, rd_err = None\<rparr>)"

definition response ::
  "('s \<Rightarrow> Digest \<Rightarrow> reader \<Rightarrow> ('s \<times> goerr option) outcome) \<Rightarrow> zstd \<Rightarrow> 's \<Rightarrow> WriteRequest list \<Rightarrow> goerr + int" where
  "response put Z s msgs =
     (case ByteStream_Write put Z None None s (map Inr msgs) of
        Some (Return (t, r)) \<Rightarrow> r
      | _ \<Rightarrow> Inl ErrEOF)"

lemma name_start_upload: "uuid \<noteq> [] \<Longrightarrow> slash \<notin> set uuid \<Longrightarrow> name_start True (''uploads/'' @ uuid @ ''/'')"
  unfolding name_start_def by (intro exI [of _ "[]"]) (simp only: if_True append_Nil simp_thms, blast)

lemma name_start_Nil: "name_start False []"
  by (simp add: name_start_def)

lemma start_write_path:
  assumes "name_start True b" "b \<noteq> []" "hex_string (Hash d)" "0 \<le> Size d" "Size d < 2 ^ 63"
  shows "start_write \<lparr>wr_ResourceName = b @ blob_path compressed d, WriteOffset = 0, Data = x, FinishWrite = f\<rparr> = Inr (d, compressed)"
  using parse_blob_path [OF assms(1,3-5), of compressed] assms(2) by (simp add: start_write_def)

lemma remote_Put_name:
  assumes "sdk_names c uuid"
  shows "remote_Put c Z compression uuid env finErr d data =
    (case c_Write c of
       Inl e \<Rightarrow> ([], Some e)
     | Inr srv \<Rightarrow> remote_put_loop env finErr srv (isCommitSuccessful compression d)
         ((''uploads/'' @ uuid @ ''/'') @ blob_path (compression = ''zstd'') d) 0
         (if compression = ''zstd'' then compressed_reader Z data else data) 0 [])"
  using assms unfolding remote_Put_def sdk_names_def blob_path_def
  by (cases "compression = ''zstd''"; cases "c_Write c") simp_all

lemma remote_Get_name:
  assumes "sdk_names c uuid"
  shows "remote_Get c Z compression d =
    (case c_Read c (blob_path (compression = ''zstd'') d) of
       Inl e \<Rightarrow> Inl e
     | Inr (msgs, err) \<Rightarrow>
         (let pr = \<lparr>rd_bytes = concat msgs, rd_err = err\<rparr> in if compression = ''zstd'' then zdec Z pr else Inr pr))"
  using assms unfolding remote_Get_def sdk_names_def blob_path_def by (cases "compression = ''zstd''") simp_all

context blob_store
begin

text \<open>An upload that the client takes for a success has stored the bytes it read.\<close>

lemma remote_put_stores:
  assumes "inv s" "okh (Hash d)" "hex_string (Hash d)" "0 \<le> Size d" "Size d < 2 ^ 63"
    and c: "sdk_names c uuid" "c_Write c = Inr (response put Z s)" and Z: "zstd_ok Z"
    and "\<forall>j. sendErr env j = None" "rd_err data = None"
    and put: "remote_Put c Z compression uuid env None d data = (msgs, None)"
  shows "\<exists>t n. ByteStream_Write put Z None None s (map Inr msgs) = Some (Return (t, Inr n)) \<and> inv t \<and>
    view t (Hash d) = Some (rd_bytes data)"
proof -
  let ?z = "compression = ''zstd''" let ?b = "''uploads/'' @ uuid @ ''/''"
  let ?rd = "if ?z then compressed_reader Z data else data"
  have "name_start True ?b" using c(1) by (intro name_start_upload) (simp_all add: sdk_names_def)
  note start = start_write_path [OF this _ assms(3-5), of ?z]
  have rd: "rd_err ?rd = None" "rd_bytes ?rd = content_of Z ?z (rd_bytes data)"
    using assms(10) by (simp_all add: compressed_reader_def content_of_def)
  have loop: "remote_put_loop env None (response put Z s) (isCommitSuccessful compression d) (?b @ blob_path ?z d) 0 ?rd 0 [] = (msgs, None)"
    using put unfolding remote_Put_name [OF c(1)] c(2) by (simp only: sum.case)
  have "?b \<noteq> []" by simp
  from remote_put_loop_messages [where srv = "response put Z s" and committed = "isCommitSuccessful compression d" and i = 0 and
      msgs = "[]" and w = "[]", OF assms(9) start [OF this] order_refl rd(1)]
  obtain ms where ms: "(msgs, None) = (ms, case response put Z s ms of Inl e \<Rightarrow> Some e | Inr n \<Rightarrow>
        if isCommitSuccessful compression d n then None else Some (Errorf ''incomplete write''))"
      "write_loop None (map Inr ms) None [] = Finished (Some (d, ?z)) (rd_bytes ?rd)"
    unfolding loop append_Nil by (simp only: simp_thms if_True) blast
  then have wl: "write_loop None (map Inr msgs) None [] = Finished (Some (d, ?z)) (rd_bytes ?rd)" by simp
  obtain n where n: "response put Z s msgs = Inr n" using ms(1) by (auto split: sum.splits)
  from write_blob [OF assms(1) wl assms(2), of Z] obtain t r where t: "ByteStream_Write put Z None None s (map Inr msgs) = Some (Return (t, r))"
      "inv t" "\<forall>n. r = Inr n \<longrightarrow> (\<exists>input. decoded Z ?z \<lparr>rd_bytes = rd_bytes ?rd, rd_err = None\<rparr> input \<and> rd_err input = None \<and>
        view t (Hash d) = Some (rd_bytes input))" by blast
  have "r = Inr n" using n t(1) by (simp add: response_def)
  with t(3) obtain input where "decoded Z ?z \<lparr>rd_bytes = rd_bytes ?rd, rd_err = None\<rparr> input" "view t (Hash d) = Some (rd_bytes input)" by blast
  then have "view t (Hash d) = Some (rd_bytes data)"
    using Z unfolding rd(2) by (cases ?z) (auto simp: decoded_def content_of_def zstd_ok_def)
  then show ?thesis using t(1,2) \<open>r = Inr n\<close> by blast
qed

text \<open>A client that reads a blob through the server gets its bytes.\<close>

lemma remote_get_reads:
  assumes "inv t" "okh (Hash d)" "hex_string (Hash d)" "0 \<le> Size d" "Size d < 2 ^ 63"
    and c: "sdk_names c uuid" and Z: "zstd_ok Z" and v: "view t (Hash d) = Some x"
    and small: "int (length (content_of Z (compression = ''zstd'') x)) < 2 ^ 63"
    and srv: "ByteStream_Read get Z seek env t \<lparr>rr_ResourceName = blob_path (compression = ''zstd'') d, ReadOffset = 0, ReadLimit = 0\<rparr> =
          Return (u, sent, None)"
      "c_Read c (blob_path (compression = ''zstd'') d) = Inr (sent, None)"
  shows "remote_Get c Z compression d = Inr \<lparr>rd_bytes = x, rd_err = None\<rparr>"
proof -
  let ?z = "compression = ''zstd''"
  have p: "parseResourceName (rr_ResourceName \<lparr>rr_ResourceName = blob_path ?z d, ReadOffset = 0, ReadLimit = 0\<rparr>) False = Inr (d, ?z)"
    using parse_blob_path [OF name_start_Nil assms(3-5)] by simp
  have "concat sent = take (nat (2 ^ 63 - 1)) (content_of Z ?z x)"
    using read_blob [OF assms(1,2) p, of Z seek env] srv(1) v Z by (auto simp: zstd_ok_def read_limit_def Let_def)
  moreover have "length (content_of Z ?z x) \<le> nat (2 ^ 63 - 1)" using small by linarith
  ultimately have "concat sent = content_of Z ?z x" by (metis take_all)
  moreover have "remote_Get c Z compression d = (let pr = \<lparr>rd_bytes = concat sent, rd_err = None\<rparr> in if ?z then zdec Z pr else Inr pr)"
    using remote_Get_name [OF c] srv(2) by simp
  moreover have "zdec Z \<lparr>rd_bytes = zenc Z x, rd_err = None\<rparr> = Inr \<lparr>rd_bytes = x, rd_err = None\<rparr>"
    using Z unfolding zstd_ok_def by blast
  ultimately show ?thesis unfolding content_of_def Let_def by presburger
qed

end

section \<open>Properties\<close>

lemma hex_char_digits: "list_all hex_char ''0123456789abcdefABCDEF''"
  by (simp add: hex_char_def)

lemma hexhash_string: "hexhash h \<Longrightarrow> hex_string h"
  using hex_char_digits unfolding hexhash_def hex_string_def hexdigit_def list_all_iff by (metis list.size(3) not_numeral_le_zero)

text \<open>C17: What \<open>Read\<close> sends of a blob of the local store: if it reports no error, the messages hold exactly the
  bytes from the offset up to the limit, of the blob or of its compressed form; whatever fails on the way,
  they hold a prefix of those, in non-empty parts no longer than the buffer; a missing blob gives an error and
  no data; and the blobs stay as they are.\<close>

theorem bytestream_read:
  assumes "store_inv s" "hexhash (Hash dg)" "parseResourceName (rr_ResourceName req) False = Inr (dg, compressed)" "zstd_stream Z"
  shows "\<exists>t sent e. ByteStream_Read Get Z seek env s req = Return (t, sent, e) \<and> store_inv t \<and>
    (\<forall>h. hexhash h \<longrightarrow> entry ''cas'' t h = entry ''cas'' s h) \<and>
    (case entry ''cas'' s (Hash dg) of
       None \<Rightarrow> sent = [] \<and> e \<noteq> None
     | Some x \<Rightarrow>
         (let wanted = take (nat (read_limit req)) (drop (nat (ReadOffset req)) (content_of Z compressed x))
          in sends sent wanted \<and> (e = None \<longrightarrow> concat sent = wanted)))"
  using assms by (rule local.read_blob)

definition zstd0 :: zstd where
  "zstd0 = \<lparr>zenc = (\<lambda>x. 40 # x), zpart = (\<lambda>x. 40 # x),
            zdec = (\<lambda>rd. case rd_bytes rd of [] \<Rightarrow> Inl ErrUnexpectedEOF | _ # x \<Rightarrow> Inr (rd\<lparr>rd_bytes := x\<rparr>))\<rparr>"

lemma zstd0_ok: "zstd_ok zstd0"
  by (simp add: zstd_ok_def zstd_stream_def zstd0_def)

definition env0 :: chunking where
  "env0 = \<lparr>chunk = (\<lambda>_. 0), eager = (\<lambda>_. False), sendErr = (\<lambda>_. None)\<rparr>"

lemma parse1: "name_start w b \<Longrightarrow> parseResourceName (b @ blob_path compressed digest1) w = Inr (digest1, compressed)"
  by (rule parse_blob_path) (use hexhash_string [OF digest1_hex] in \<open>simp_all add: digest1_def\<close>)

theorem bytestream_read_witness:
  "\<exists>s t sent e. Put store0 digest1 reader1 = Return (s, None) \<and>
     ByteStream_Read Get zstd0 (Some None) env0 s \<lparr>rr_ResourceName = blob_path True digest1, ReadOffset = 1, ReadLimit = 1\<rparr> = Return (t, sent, e) \<and>
     (e = None \<longrightarrow> concat sent = [1])"
proof -
  obtain s where s: "Put store0 digest1 reader1 = Return (s, None)" "store_inv s" using put0 by blast
  have "entry ''cas'' s (Hash digest1) = Some [1, 2]" using local.put_law [OF store0_inv digest1_hex, of reader1] s(1) by (auto simp: reader1_def)
  then show ?thesis
    using bytestream_read [OF s(2) digest1_hex, of "\<lparr>rr_ResourceName = blob_path True digest1, ReadOffset = 1, ReadLimit = 1\<rparr>" True zstd0 "Some None" env0]
      parse1 [OF name_start_Nil, of True] zstd0_ok s(1)
    by (auto simp: zstd_ok_def read_limit_def content_of_def zstd0_def Let_def)
qed

text \<open>C18: The remote store and the byte stream server fit together, with compression and without: an upload that
  \<open>RemoteStore.Put\<close> reports as a success has put the bytes it read into the local store of the server, and
  \<open>RemoteStore.Get\<close> of the same digest reads these bytes back.\<close>

theorem remote_roundtrip:
  assumes "store_inv s" "hexhash (Hash d)" "0 \<le> Size d" "Size d < 2 ^ 63"
    and "sdk_names c uuid" "c_Write c = Inr (response Put Z s)" "zstd_ok Z"
    and "\<forall>j. sendErr env j = None" "rd_err data = None"
    and "int (length (content_of Z (compression = ''zstd'') (rd_bytes data))) < 2 ^ 63"
    and "remote_Put c Z compression uuid env None d data = (msgs, None)"
  shows "\<exists>t n. ByteStream_Write Put Z None None s (map Inr msgs) = Some (Return (t, Inr n)) \<and>
    entry ''cas'' t (Hash d) = Some (rd_bytes data) \<and>
    (\<forall>seek env' u sent. ByteStream_Read Get Z seek env' t
         \<lparr>rr_ResourceName = blob_path (compression = ''zstd'') d, ReadOffset = 0, ReadLimit = 0\<rparr> = Return (u, sent, None) \<longrightarrow>
       c_Read c (blob_path (compression = ''zstd'') d) = Inr (sent, None) \<longrightarrow>
       remote_Get c Z compression d = Inr data)"
proof -
  note h = assms(2) hexhash_string [OF assms(2)] assms(3,4)
  have data: "data = \<lparr>rd_bytes = rd_bytes data, rd_err = None\<rparr>" using assms(9) by simp
  from local.remote_put_stores [OF assms(1) h assms(5-9,11)] obtain t n where
    t: "ByteStream_Write Put Z None None s (map Inr msgs) = Some (Return (t, Inr n))" "store_inv t"
      "entry ''cas'' t (Hash d) = Some (rd_bytes data)" by blast
  then show ?thesis using local.remote_get_reads [OF t(2) h assms(5,7) t(3) assms(10)] data by metis
qed

lemma write_loop_started:
  "\<forall>r \<in> set (butlast reqs). \<not> FinishWrite r \<Longrightarrow> length w \<le> n \<Longrightarrow>
   write_loop (Some n) (map Inr reqs) (Some d) w = Blocked \<longleftrightarrow> n < length w + length (concat (map Data reqs))"
proof (induction reqs arbitrary: w)
  case (Cons r rs)
  show ?case
  proof (cases "n < length (w @ Data r)")
    case True
    then show ?thesis using Cons.prems(2) by (auto simp: stalled_def)
  next
    case False
    then have "length (w @ Data r) \<le> n" by simp
    note IH = Cons.IH [OF _ this]
    show ?thesis
    proof (cases rs)
      case Nil
      then show ?thesis using False by (simp add: stalled_def)
    next
      case (Cons r' rs')
      then show ?thesis using False IH Cons.prems(1) by (simp add: stalled_def add.assoc)
    qed
  qed
qed simp

lemma write_loop_returns: "write_loop None msgs started w \<noteq> Blocked"
  by (induction "None :: nat option" msgs started w rule: write_loop.induct)
    (auto simp: stalled_def split: sum.splits option.splits)

lemma Write_None: "ByteStream_Write put Z eats ctxDone s msgs = None \<longleftrightarrow> write_loop eats msgs None [] = Blocked"
  by (auto simp: ByteStream_Write_def split: wloop.splits option.splits)



text \<open>A single request for a blob whose hash has fewer than four hexadecimal digits, which the resource names allow,
  brings the server down: with the local store both \<open>Read\<close> and the background \<open>Put\<close> of \<open>Write\<close> panic.\<close>

theorem short_name_panics:
  assumes "hex_string (Hash d)" "length (Hash d) < 4" "0 \<le> Size d" "Size d < 2 ^ 63"
    and "name_start False b" "name_start True b'" "b' \<noteq> []"
  shows "ByteStream_Read Get Z seek env s \<lparr>rr_ResourceName = b @ blob_path compressed d, ReadOffset = off, ReadLimit = limit\<rparr> = Panic \<and>
    ByteStream_Write Put Z None ctxDone s
      [Inr \<lparr>wr_ResourceName = b' @ blob_path False d, WriteOffset = 0, Data = x, FinishWrite = True\<rparr>] = Some Panic"
proof -
  have p: "Get s d = Panic" "Put s d rd = Panic" for rd
    using assms(2) by (simp_all add: Get_def Put_def BlobPath_def entryPath_def)
  have "ByteStream_Read Get Z seek env s \<lparr>rr_ResourceName = b @ blob_path compressed d, ReadOffset = off, ReadLimit = limit\<rparr> = Panic"
    using parse_blob_path [OF assms(5,1,3,4), of compressed] by (simp add: ByteStream_Read_def p)
  moreover have "ByteStream_Write Put Z None ctxDone s
      [Inr \<lparr>wr_ResourceName = b' @ blob_path False d, WriteOffset = 0, Data = x, FinishWrite = True\<rparr>] = Some Panic"
    using start_write_path [OF assms(6,7,1,3,4), of False x True]
    by (simp add: ByteStream_Write_def stalled_def background_put_def p split: option.split)
  ultimately show ?thesis by blast
qed

theorem short_name_panics_witness:
  "ByteStream_Write Put zstd0 None None store0
     [Inr \<lparr>wr_ResourceName = (''uploads/'' @ ''u'' @ ''/'') @ blob_path False \<lparr>Hash = ''ab'', Size = 1\<rparr>,
           WriteOffset = 0, Data = [1], FinishWrite = True\<rparr>] = Some Panic"
proof -
  have "name_start True (''uploads/'' @ ''u'' @ ''/'')" by (rule name_start_upload) (simp_all add: slash_def)
  from short_name_panics [OF _ _ _ _ name_start_Nil this, of "\<lparr>Hash = ''ab'', Size = 1\<rparr>"] show ?thesis
    by (simp add: hex_string_def hex_char_def)
qed

text \<open>A client of the store with one blob, and the roundtrip for it.\<close>

definition client0 :: rclient where
  "client0 = \<lparr>ResourceName = (\<lambda>p h z. Inr (p @ ''/'' @ h @ ''/'' @ z)),
              ResourceNameWrite = (\<lambda>h n. Inr (''uploads/'' @ ''u'' @ ''/blobs/'' @ h @ ''/'' @ show_int n)),
              c_Read = (\<lambda>_. Inr ([[1], [2]], None)), c_Write = Inr (response Put zstd0 store0),
              MissingBlobs = (\<lambda>_. Inr []), c_GetActionResult = (\<lambda>_. Inl ErrNotExist),
              c_UpdateActionResult = (\<lambda>_ r. Inr r)\<rparr>"

lemma client0_names: "sdk_names client0 ''u''"
  by (simp add: sdk_names_def client0_def slash_def)

lemma upload0: "\<exists>msgs. remote_Put client0 zstd0 [] ''u'' env0 None digest1 reader1 = (msgs, None)"
proof -
  let ?rn = "(''uploads/'' @ ''u'' @ ''/'') @ blob_path False digest1"
  obtain t where t: "Put store0 digest1 reader1 = Return (t, None)" using put0 by blast
  have "name_start True (''uploads/'' @ ''u'' @ ''/'')" by (rule name_start_upload) (simp_all add: slash_def)
  then have "start_write \<lparr>wr_ResourceName = ?rn, WriteOffset = 0, Data = x, FinishWrite = f\<rparr> = Inr (digest1, False)" for x f
    by (rule start_write_path) (use hexhash_string [OF digest1_hex] in \<open>simp_all add: digest1_def\<close>)
  from remote_put_loop_messages [OF _ this, where env = env0 and rd = reader1 and offset = 0 and msgs = "[]" and w = "[]" and i = 0 and
      srv = "response Put zstd0 store0" and committed = "isCommitSuccessful [] digest1"]
  obtain ms where ms: "remote_put_loop env0 None (response Put zstd0 store0) (isCommitSuccessful [] digest1) ?rn 0 reader1 0 [] =
      (ms, case response Put zstd0 store0 ms of Inl e \<Rightarrow> Some e
           | Inr n \<Rightarrow> if isCommitSuccessful [] digest1 n then None else Some (Errorf ''incomplete write''))"
    "write_loop None (map Inr ms) None [] = Finished (Some (digest1, False)) [1, 2]"
    by (auto simp: env0_def reader1_def)
  have "response Put zstd0 store0 ms = Inr 2"
    using t ms(2) by (simp add: response_def ByteStream_Write_def background_put_def reader1_def)
  then have "remote_put_loop env0 None (response Put zstd0 store0) (isCommitSuccessful [] digest1) ?rn 0 reader1 0 [] = (ms, None)"
    using ms(1) by (simp add: isCommitSuccessful_def digest1_def)
  moreover have "c_Write client0 = Inr (response Put zstd0 store0)" by (simp add: client0_def)
  ultimately show ?thesis unfolding remote_Put_name [OF client0_names] by simp
qed

theorem remote_roundtrip_witness:
  "\<exists>msgs t n. remote_Put client0 zstd0 [] ''u'' env0 None digest1 reader1 = (msgs, None) \<and>
     ByteStream_Write Put zstd0 None None store0 (map Inr msgs) = Some (Return (t, Inr n)) \<and>
     entry ''cas'' t (Hash digest1) = Some [1, 2]"
proof -
  obtain msgs where m: "remote_Put client0 zstd0 [] ''u'' env0 None digest1 reader1 = (msgs, None)" using upload0 by blast
  have "\<forall>j. sendErr env0 j = None" "rd_err reader1 = None" "c_Write client0 = Inr (response Put zstd0 store0)"
    "int (length (content_of zstd0 ([] = ''zstd'') (rd_bytes reader1))) < 2 ^ 63" "0 \<le> Size digest1" "Size digest1 < 2 ^ 63"
    by (simp_all add: env0_def reader1_def client0_def content_of_def digest1_def)
  from remote_roundtrip [OF store0_inv digest1_hex this(5,6) client0_names this(3) zstd0_ok this(1,2,4) m] m
  show ?thesis by (auto simp: reader1_def)
qed

end
