(* ===== verification/Servers.thy ===== *)
theory Servers
  imports ByteStream LocalStore_Props Scheduler
begin

text \<open>
  The services that answer from a store or from the scheduler (\<^verbatim>\<open>server.go\<close>, \<^verbatim>\<open>actioncache.go\<close> and
  \<^verbatim>\<open>operations.go\<close> in \<^verbatim>\<open>pkg/server\<close>): content addressable storage, capabilities, action cache and
  long-running operations, over the operations of any store.
\<close>

section \<open>Content addressable storage\<close>

text \<open>
  \<open>storage.FromProto\<close> of the SDK checks a digest: \<open>fromProto\<close> is a parameter. A message field that is not
  set is \<open>None\<close>; the elements of a repeated field are always set.
\<close>

type_synonym fromproto = "Digest option \<Rightarrow> goerr + Digest"

fun find_missing ::
  "('s \<Rightarrow> Digest \<Rightarrow> ('s \<times> (goerr + bool)) outcome) \<Rightarrow> fromproto \<Rightarrow> 's \<Rightarrow> Digest list \<Rightarrow> Digest list \<Rightarrow>
   ('s \<times> (goerr + Digest list)) outcome" where
  "find_missing has fromProto s [] missing = Return (s, Inr missing)"
| "find_missing has fromProto s (d # ds) missing =
     (case fromProto (Some d) of
        Inl e \<Rightarrow> Return (s, Inl (Status InvalidArgument ''invalid digest''))
      | Inr dg \<Rightarrow>
          bindo (has s dg) (\<lambda>(s, r).
            case r of
              Inl e \<Rightarrow> Return (s, Inl (Status Internal ''storage error''))
            | Inr exists \<Rightarrow> find_missing has fromProto s ds (if exists then missing else missing @ [d])))"

definition FindMissingBlobs ::
  "('s \<Rightarrow> Digest \<Rightarrow> ('s \<times> (goerr + bool)) outcome) \<Rightarrow> fromproto \<Rightarrow> 's \<Rightarrow> Digest list \<Rightarrow>
   ('s \<times> (goerr + Digest list)) outcome" where
  "FindMissingBlobs has fromProto s blobDigests = find_missing has fromProto s blobDigests []"

text \<open>
  A response is the digest of the request and a status code. Logging an invalid digest reads a field
  of the message, which panics when the message is not set.
\<close>

fun batch_update ::
  "('s \<Rightarrow> Digest \<Rightarrow> reader \<Rightarrow> ('s \<times> goerr option) outcome) \<Rightarrow> fromproto \<Rightarrow> 's \<Rightarrow> (Digest option \<times> bytes) list \<Rightarrow>
   (Digest option \<times> code) list \<Rightarrow> ('s \<times> (Digest option \<times> code) list) outcome" where
  "batch_update put fromProto s [] resp = Return (s, resp)"
| "batch_update put fromProto s ((d, data) # rs) resp =
     (case fromProto d of
        Inl e \<Rightarrow>
          if d = None then Panic
          else batch_update put fromProto s rs (resp @ [(d, InvalidArgument)])
      | Inr dg \<Rightarrow>
          bindo (put s dg \<lparr>rd_bytes = data, rd_err = None\<rparr>) (\<lambda>(s, r).
            batch_update put fromProto s rs (resp @ [(d, case r of None \<Rightarrow> OK | Some e \<Rightarrow> Internal)])))"

definition BatchUpdateBlobs ::
  "('s \<Rightarrow> Digest \<Rightarrow> reader \<Rightarrow> ('s \<times> goerr option) outcome) \<Rightarrow> fromproto \<Rightarrow> 's \<Rightarrow> (Digest option \<times> bytes) list \<Rightarrow>
   ('s \<times> (Digest option \<times> code) list) outcome" where
  "BatchUpdateBlobs put fromProto s requests = batch_update put fromProto s requests []"

definition GetTree :: "goerr option" where
  "GetTree = Some (Status Unimplemented ''GetTree not implemented'')"

section \<open>Capabilities\<close>

record ServerCapabilities =
  DigestFunctions :: "string list"
  SupportedCompressors :: "string list"
  UpdateEnabled :: bool
  MaxBatchTotalSizeBytes :: int
  ExecEnabled :: bool
  LowApiVersion :: "nat \<times> nat"
  HighApiVersion :: "nat \<times> nat"

definition GetCapabilities :: "bool \<Rightarrow> ServerCapabilities" where
  "GetCapabilities execEnabled =
     \<lparr>DigestFunctions = [''SHA256''], SupportedCompressors = [''ZSTD''], UpdateEnabled = True,
      MaxBatchTotalSizeBytes = 4 * 1024 * 1024, ExecEnabled = execEnabled,
      LowApiVersion = (2, 0), HighApiVersion = (2, 2)\<rparr>"

section \<open>Action cache\<close>

definition ac_GetActionResult ::
  "('s \<Rightarrow> Digest \<Rightarrow> ('s \<times> (goerr + ActionResult)) outcome) \<Rightarrow> fromproto \<Rightarrow> 's \<Rightarrow> Digest option \<Rightarrow>
   ('s \<times> (goerr + ActionResult)) outcome" where
  "ac_GetActionResult get fromProto s actionDigest =
     (case fromProto actionDigest of
        Inl e \<Rightarrow> Return (s, Inl (Status InvalidArgument ''invalid digest''))
      | Inr dg \<Rightarrow>
          bindo (get s dg) (\<lambda>(s, r). Return (s,
            case r of
              Inl err \<Rightarrow>
                Inl (if IsNotExist err \<or> StatusCode err = NotFound then Status NotFound ''action result not found''
                     else Status Internal ''failed to get action result'')
            | Inr res \<Rightarrow> Inr res)))"

definition ac_UpdateActionResult ::
  "('s \<Rightarrow> Digest \<Rightarrow> ActionResult \<Rightarrow> ('s \<times> goerr option) outcome) \<Rightarrow> fromproto \<Rightarrow> 's \<Rightarrow> Digest option \<Rightarrow> ActionResult \<Rightarrow>
   ('s \<times> (goerr + ActionResult)) outcome" where
  "ac_UpdateActionResult update fromProto s actionDigest result =
     (case fromProto actionDigest of
        Inl e \<Rightarrow> Return (s, Inl (Status InvalidArgument ''invalid digest''))
      | Inr dg \<Rightarrow>
          bindo (update s dg result) (\<lambda>(s, r). Return (s,
            case r of
              Some e \<Rightarrow> Inl (Status Internal ''failed to update action result'')
            | None \<Rightarrow> Inr result)))"

section \<open>Operations\<close>

definition ops_GetOperation :: "pbcodec \<Rightarrow> Scheduler \<Rightarrow> string \<Rightarrow> goerr + Operation" where
  "ops_GetOperation P s name = GetOperation P s name"

definition ops_ListOperations :: "pbcodec \<Rightarrow> Scheduler \<Rightarrow> string list \<Rightarrow> Operation list" where
  "ops_ListOperations P s names = ListOperations P s names"

definition ops_CancelOperation :: "gotime \<Rightarrow> Scheduler \<Rightarrow> string \<Rightarrow> (Scheduler \<times> goerr option) option" where
  "ops_CancelOperation now s name = CancelOperation now s name"

definition ops_DeleteOperation :: "Scheduler \<Rightarrow> string \<Rightarrow> Scheduler \<times> goerr option" where
  "ops_DeleteOperation s name = DeleteOperation s name"

section \<open>Lemmas\<close>

text \<open>What the server relies on of \<open>digest.NewFromProto\<close>: it returns the digest, and only for a hash of the right form.\<close>

definition checks_digests :: "(string \<Rightarrow> bool) \<Rightarrow> fromproto \<Rightarrow> bool" where
  "checks_digests okh f \<longleftrightarrow> (\<forall>d dg. f d = Inr dg \<longrightarrow> d = Some dg \<and> okh (Hash dg))"

context blob_store
begin

lemma find_missing_exact:
  assumes "checks_digests okh f" "inv s"
  shows "\<exists>t r. find_missing has f s ds acc = Return (t, r) \<and> inv t \<and> (\<forall>h. okh h \<longrightarrow> view t h = view s h) \<and>
    (\<forall>ms. r = Inr ms \<longrightarrow> ms = acc @ filter (\<lambda>d. view s (Hash d) = None) ds \<and> (\<forall>d \<in> set ds. okh (Hash d)))"
  using assms(2)
proof (induction ds arbitrary: s acc)
  case Nil
  then show ?case by simp
next
  case (Cons d ds)
  show ?case
  proof (cases "f (Some d)")
    case (Inl e)
    then show ?thesis using Cons.prems by simp
  next
    case (Inr dg)
    then have dg: "dg = d" "okh (Hash d)" using assms(1) by (auto simp: checks_digests_def)
    from has_law [OF Cons.prems dg(2)] obtain t r where h: "has s d = Return (t, r)" "inv t"
      "\<forall>h. okh h \<longrightarrow> view t h = view s h" "\<forall>b. r = Inr b \<longrightarrow> b = (view s (Hash d) \<noteq> None)" by blast
    show ?thesis
    proof (cases r)
      case (Inl e)
      then show ?thesis using Inr dg h by simp
    next
      case r: (Inr b)
      let ?acc = "if b then acc else acc @ [d]"
      from Cons.IH [OF h(2), of ?acc] obtain u q where u: "find_missing has f t ds ?acc = Return (u, q)" "inv u"
        "\<forall>h. okh h \<longrightarrow> view u h = view t h"
        "\<forall>ms. q = Inr ms \<longrightarrow> ms = ?acc @ filter (\<lambda>d. view t (Hash d) = None) ds \<and> (\<forall>d \<in> set ds. okh (Hash d))" by blast
      have "filter (\<lambda>d. view t (Hash d) = None) ds = filter (\<lambda>d. view s (Hash d) = None) ds" if "\<forall>d \<in> set ds. okh (Hash d)"
        using that h(3) by (intro filter_cong) auto
      moreover have "find_missing has f s (d # ds) acc = Return (u, q)" using Inr dg(1) h(1) r u(1) by simp
      ultimately show ?thesis using u(2-4) h(3,4) r dg(2) by auto
    qed
  qed
qed

lemma batch_update_stored:
  assumes "checks_digests okh f" "inv s" "\<forall>r \<in> set rs. fst r \<noteq> None"
    and "\<forall>d. (Some d, OK) \<in> set acc \<longrightarrow> okh (Hash d) \<and> view s (Hash d) \<noteq> None"
  shows "\<exists>t resp. batch_update put f s rs acc = Return (t, resp) \<and> inv t \<and> (\<forall>h. okh h \<longrightarrow> view s h \<noteq> None \<longrightarrow> view t h \<noteq> None) \<and>
    (\<forall>d. (Some d, OK) \<in> set resp \<longrightarrow> okh (Hash d) \<and> view t (Hash d) \<noteq> None) \<and> length resp = length acc + length rs"
  using assms(2-)
proof (induction rs arbitrary: s acc)
  case Nil
  then show ?case by simp
next
  case (Cons r rs)
  obtain d data where r: "r = (Some d, data)" using Cons.prems(2) by (cases r) auto
  show ?case
  proof (cases "f (Some d)")
    case (Inl e)
    then show ?thesis using Cons.IH [OF Cons.prems(1), of "acc @ [(Some d, InvalidArgument)]"] Cons.prems r by auto
  next
    case (Inr dg)
    then have dg: "dg = d" "okh (Hash d)" using assms(1) by (auto simp: checks_digests_def)
    from put_law [OF Cons.prems(1) dg(2), of "\<lparr>rd_bytes = data, rd_err = None\<rparr>"] obtain t q where
      t: "put s d \<lparr>rd_bytes = data, rd_err = None\<rparr> = Return (t, q)" "inv t" "\<forall>h. okh h \<longrightarrow> h \<noteq> Hash d \<longrightarrow> view t h = view s h"
        "view t (Hash d) = view s (Hash d) \<or> view t (Hash d) = Some data" "q = None \<longrightarrow> view t (Hash d) = Some data" by auto
    have keep: "\<forall>h. okh h \<longrightarrow> view s h \<noteq> None \<longrightarrow> view t h \<noteq> None" using t(3,4) by (metis option.distinct(1))
    let ?acc = "acc @ [(Some d, case q of None \<Rightarrow> OK | Some e \<Rightarrow> Internal)]"
    have "\<forall>d. (Some d, OK) \<in> set ?acc \<longrightarrow> okh (Hash d) \<and> view t (Hash d) \<noteq> None"
      using Cons.prems(3) keep t(5) dg(2) by (auto split: option.splits)
    from Cons.IH [OF t(2) _ this] Cons.prems(2) obtain u resp where u: "batch_update put f t rs ?acc = Return (u, resp)" "inv u"
        "\<forall>h. okh h \<longrightarrow> view t h \<noteq> None \<longrightarrow> view u h \<noteq> None"
        "\<forall>d. (Some d, OK) \<in> set resp \<longrightarrow> okh (Hash d) \<and> view u (Hash d) \<noteq> None" "length resp = length ?acc + length rs" by auto
    have "batch_update put f s (r # rs) acc = Return (u, resp)" using r Inr dg(1) t(1) u(1) by simp
    then show ?thesis using u(2-5) keep by auto
  qed
qed

end

text \<open>A client learns only the status codes of the interface.\<close>

lemma ac_get_codes:
  "ac_GetActionResult get f s d = Return (t, Inl e) \<Longrightarrow> StatusCode e \<in> {InvalidArgument, NotFound, Internal}"
proof (cases "f d")
  case (Inr dg)
  assume e: "ac_GetActionResult get f s d = Return (t, Inl e)"
  with Inr obtain r where "get s dg = Return (t, r)" by (auto simp: ac_GetActionResult_def bindo_Return_iff)
  with Inr e show ?thesis by (cases r) (auto simp: ac_GetActionResult_def split: if_split_asm)
qed (auto simp: ac_GetActionResult_def)

text \<open>A request without a digest crashes the server, although \<open>FromProto\<close> reports an error for it.\<close>

lemma batch_update_nil_digest:
  assumes "f None = Inl e" "(None, data) \<in> set requests"
  shows "BatchUpdateBlobs put f s requests = Panic"
proof -
  have "batch_update put f s requests acc = Panic" for acc
    using assms(2)
  proof (induction requests arbitrary: s acc)
    case (Cons r rs)
    obtain d x where r: "r = (d, x)" by (cases r)
    show ?case
    proof (cases "d = None")
      case True
      then show ?thesis using r assms(1) by simp
    next
      case False
      then have "\<And>s acc. batch_update put f s rs acc = Panic" using Cons r by auto
      then show ?thesis using False r by (cases "f d"; cases "put s (projr (f d)) \<lparr>rd_bytes = x, rd_err = None\<rparr>") auto
    qed
  qed simp
  then show ?thesis by (simp add: BatchUpdateBlobs_def)
qed

text \<open>C20: \<open>FindMissingBlobs\<close> answers exactly the requested digests the local store does not hold, in their
  order; \<open>BatchUpdateBlobs\<close> answers every request, and a blob it answered with OK is not missing afterwards.\<close>

theorem uploaded_not_missing:
  assumes "checks_digests hexhash f" "store_inv s" "\<forall>r \<in> set requests. fst r \<noteq> None"
    and "BatchUpdateBlobs Put f s requests = Return (t, resp)" "FindMissingBlobs Has f t ds = Return (u, Inr missing)"
  shows "missing = filter (\<lambda>d. entry ''cas'' t (Hash d) = None) ds \<and>
    length resp = length requests \<and> (\<forall>d \<in> set missing. (Some d, OK) \<notin> set resp)"
proof -
  have t: "store_inv t" "\<forall>d. (Some d, OK) \<in> set resp \<longrightarrow> entry ''cas'' t (Hash d) \<noteq> None" "length resp = length requests"
    using local.batch_update_stored [OF assms(1-3), of "[]"] assms(4) by (auto simp: BatchUpdateBlobs_def)
  then have "missing = filter (\<lambda>d. entry ''cas'' t (Hash d) = None) ds"
    using local.find_missing_exact [OF assms(1) t(1), of ds "[]"] assms(5) by (auto simp: FindMissingBlobs_def)
  then show ?thesis using t(2,3) by auto
qed

definition fromProto0 :: fromproto where
  "fromProto0 d = (case d of None \<Rightarrow> Inl (Errorf ''nil'') | Some d \<Rightarrow> if hexhash (Hash d) then Inr d else Inl (Errorf ''invalid hash''))"

lemma fromProto0_checks: "checks_digests hexhash fromProto0"
  by (auto simp: checks_digests_def fromProto0_def split: option.splits if_splits)

theorem uploaded_not_missing_witness:
  "\<exists>t resp u missing. BatchUpdateBlobs Put fromProto0 store0 [(Some digest1, [1, 2])] = Return (t, resp) \<and>
     FindMissingBlobs Has fromProto0 t [digest1] = Return (u, Inr missing) \<and> (Some digest1, OK) \<in> set resp \<and> missing = []"
proof -
  obtain t where t: "Put store0 digest1 reader1 = Return (t, None)" "store_inv t" "faultless (disk t)" using put0 by blast
  have b: "BatchUpdateBlobs Put fromProto0 store0 [(Some digest1, [1, 2])] = Return (t, [(Some digest1, OK)])"
    using t(1) digest1_hex by (simp add: BatchUpdateBlobs_def fromProto0_def reader1_def)
  obtain u b where "Has t digest1 = Return (u, Inr b)"
    using Has_entries [OF t(2) digest1_hex] t(3) by (auto simp: faultless_def)
  then obtain missing where f: "FindMissingBlobs Has fromProto0 t [digest1] = Return (u, Inr missing)"
    using digest1_hex by (simp add: FindMissingBlobs_def fromProto0_def)
  from uploaded_not_missing [OF fromProto0_checks store0_inv _ b f] have "missing \<noteq> [digest1]" "missing = [] \<or> missing = [digest1]" by (auto split: if_splits)
  with b f show ?thesis by auto
qed

end
