(* ===== verification/Execution.thy ===== *)
theory Execution
  imports Servers Cluster_Props
begin

text \<open>
  The execution service (\<^verbatim>\<open>pkg/server/execution.go\<close>): \<open>Execute\<close> with the lookup in the action cache, the choice
  between a peer and the local scheduler, streaming of updates and proxying; \<open>WaitExecution\<close>; and the pool
  of connections. A handler is run up to the point where it waits; each round of its loop is a step.
\<close>

section \<open>State\<close>

text \<open>
  The execution server: the scheduler, the action cache, the cluster manager if there is one, and the
  addresses of the pooled connections.
\<close>

record 'c ExecutionServer =
  es_sched :: Scheduler
  es_ac :: 'c
  es_cluster :: "Manager option"
  es_conns :: "string set"

definition NewExecutionServer :: "Scheduler \<Rightarrow> 'c \<Rightarrow> Manager option \<Rightarrow> 'c ExecutionServer" where
  "NewExecutionServer sched ac cm = \<lparr>es_sched = sched, es_ac = ac, es_cluster = cm, es_conns = {}\<rparr>"

text \<open>
  What a call finds: the identifier and time of a new operation, the rounding of floating point numbers and the order of the peers for the choice of a
  peer, the originator in the metadata of the request, and the errors of sending, of creating a connection and of
  starting the call on the peer.
\<close>

record exec_env =
  ev_uuid :: string
  ev_now :: gotime
  ev_rd :: "rat \<Rightarrow> rat"
  ev_order :: "NodeState list"
  forwardedFrom :: "string option"
  ev_sendErr :: "goerr option"
  ev_dialErr :: "goerr option"
  ev_callErr :: "goerr option"

text \<open>
  What a handler comes to: it has returned, it streams the updates of an operation from a channel, or
  it proxies the answers of a peer, with the originator it sent along.
\<close>

datatype exec_result =
    ExecDone "goerr option"
  | Streaming string nat
  | Proxying NodeState "string option"

record ExecuteRequest =
  er_ActionDigest :: "Digest option"
  SkipCacheLookup :: bool

definition getOrCreateConn :: "'c ExecutionServer \<Rightarrow> exec_env \<Rightarrow> string \<Rightarrow> 'c ExecutionServer \<times> goerr option" where
  "getOrCreateConn S e addr =
     (if addr \<in> es_conns S then (S, None)
      else (case ev_dialErr e of
              Some err \<Rightarrow> (S, Some err)
            | None \<Rightarrow> (S\<lparr>es_conns := insert addr (es_conns S)\<rparr>, None)))"

section \<open>Execute\<close>

text \<open>Enqueue, subscribe, send the first state: what \<open>executeLocally\<close> and the end of \<open>Execute\<close> do alike.\<close>

definition executeLocally ::
  "pbcodec \<Rightarrow> exec_env \<Rightarrow> 'c ExecutionServer \<Rightarrow> Digest \<Rightarrow> bool \<Rightarrow>
   ('c ExecutionServer \<times> Operation list \<times> exec_result) outcome" where
  "executeLocally P e S d skip =
     (let originNodeID = (case forwardedFrom e of None \<Rightarrow> [] | Some v \<Rightarrow> v)
      in case Enqueue P (ev_uuid e) (ev_now e) (es_sched S) d skip originNodeID of
           (s, Inl err) \<Rightarrow> Return (S\<lparr>es_sched := s\<rparr>, [], ExecDone (Some err))
         | (s, Inr opr) \<Rightarrow>
             (case Subscribe s (pb_Name opr) of
                (s, updates) \<Rightarrow>
                  (case ev_sendErr e of
                     Some err \<Rightarrow>
                       (case unsubscribe s (pb_Name opr) updates of
                          None \<Rightarrow> Panic
                        | Some s \<Rightarrow> Return (S\<lparr>es_sched := s\<rparr>, [], ExecDone (Some err)))
                   | None \<Rightarrow> Return (S\<lparr>es_sched := s\<rparr>, [opr], Streaming (pb_Name opr) updates))))"

definition forwardExecute ::
  "pbcodec \<Rightarrow> exec_env \<Rightarrow> 'c ExecutionServer \<Rightarrow> Digest \<Rightarrow> bool \<Rightarrow> NodeState \<Rightarrow>
   ('c ExecutionServer \<times> Operation list \<times> exec_result) outcome" where
  "forwardExecute P e S d skip peer =
     (case getOrCreateConn S e (GrpcAddress peer) of
        (S, Some err) \<Rightarrow> executeLocally P e S d skip
      | (S, None) \<Rightarrow>
          (case ev_callErr e of
             Some err \<Rightarrow> executeLocally P e S d skip
           | None \<Rightarrow> Return (S, [], Proxying peer (map_option cm_NodeID (es_cluster S)))))"

definition cached_reply ::
  "pbcodec \<Rightarrow> exec_env \<Rightarrow> 'c ExecutionServer \<Rightarrow> Digest \<Rightarrow> ActionResult \<Rightarrow>
   ('c ExecutionServer \<times> Operation list \<times> exec_result) outcome" where
  "cached_reply P e S d result =
     (case Enqueue P (ev_uuid e) (ev_now e) (es_sched S) d True [] of
        (s, Inl err) \<Rightarrow> Return (S\<lparr>es_sched := s\<rparr>, [], ExecDone (Some err))
      | (s, Inr opr) \<Rightarrow>
          (case Complete (ev_now e) s (pb_Name opr) \<lparr>resp_Result = result, resp_CachedResult = True\<rparr> of
             None \<Rightarrow> Panic
           | Some s \<Rightarrow>
               (case GetOperation P s (pb_Name opr) of
                  Inl err \<Rightarrow> Return (S\<lparr>es_sched := s\<rparr>, [], ExecDone (Some err))
                | Inr finalOp \<Rightarrow>
                    Return (S\<lparr>es_sched := s\<rparr>, if ev_sendErr e = None then [finalOp] else [], ExecDone (ev_sendErr e)))))"

text \<open>The lookup in the action cache; every error counts as a miss.\<close>

definition lookup_cached ::
  "('c \<Rightarrow> Digest \<Rightarrow> ('c \<times> (goerr + ActionResult)) outcome) \<Rightarrow> fromproto \<Rightarrow> 'c \<Rightarrow> Digest \<Rightarrow> bool \<Rightarrow>
   ('c \<times> ActionResult option) outcome" where
  "lookup_cached getAR fromProto c d skip =
     (if skip then Return (c, None)
      else (case fromProto (Some d) of
              Inl _ \<Rightarrow> Return (c, None)
            | Inr dg \<Rightarrow>
                bindo (getAR c dg) (\<lambda>(c, r). Return (c, case r of Inl _ \<Rightarrow> None | Inr result \<Rightarrow> Some result))))"

definition dispatch ::
  "pbcodec \<Rightarrow> exec_env \<Rightarrow> 'c ExecutionServer \<Rightarrow> Digest \<Rightarrow> bool \<Rightarrow>
   ('c ExecutionServer \<times> Operation list \<times> exec_result) outcome" where
  "dispatch P e S d skip =
     (let isForwarded = (forwardedFrom e \<noteq> None)
      in case (if isForwarded then None
               else (case es_cluster S of
                       None \<Rightarrow> None
                     | Some m \<Rightarrow> SelectBestPeer (ev_rd e) m (GetPendingTaskCount (es_sched S)) (ev_order e))) of
           Some peer \<Rightarrow> forwardExecute P e S d skip peer
         | None \<Rightarrow> executeLocally P e S d skip)"

text \<open>Reading the digest for the trace panics where it is not set.\<close>

definition Execute ::
  "pbcodec \<Rightarrow> ('c \<Rightarrow> Digest \<Rightarrow> ('c \<times> (goerr + ActionResult)) outcome) \<Rightarrow> fromproto \<Rightarrow> exec_env \<Rightarrow>
   'c ExecutionServer \<Rightarrow> ExecuteRequest \<Rightarrow> ('c ExecutionServer \<times> Operation list \<times> exec_result) outcome" where
  "Execute P getAR fromProto e S req =
     (case er_ActionDigest req of
        None \<Rightarrow> Panic
      | Some d \<Rightarrow>
          bindo (lookup_cached getAR fromProto (es_ac S) d (SkipCacheLookup req)) (\<lambda>(c, hit).
            let S = S\<lparr>es_ac := c\<rparr>
            in case hit of
                 Some result \<Rightarrow> cached_reply P e S d result
               | None \<Rightarrow> dispatch P e S d (SkipCacheLookup req)))"

section \<open>Streams\<close>

text \<open>
  One round of the loop over the updates: \<open>None\<close> where the channel is empty and the handler waits. A round
  ends the handler, which unsubscribes, or goes on; \<open>sendErr'\<close> is the result of sending.
\<close>

definition leave :: "Scheduler \<Rightarrow> string \<Rightarrow> nat \<Rightarrow> Operation list \<Rightarrow> goerr option \<Rightarrow> (Scheduler \<times> Operation list \<times> exec_result) outcome" where
  "leave s name updates sent err =
     (case unsubscribe s name updates of
        None \<Rightarrow> Panic
      | Some s \<Rightarrow> Return (s, sent, ExecDone err))"

definition stream_step ::
  "pbcodec \<Rightarrow> goerr option \<Rightarrow> Scheduler \<Rightarrow> string \<Rightarrow> nat \<Rightarrow> (Scheduler \<times> Operation list \<times> exec_result) outcome option" where
  "stream_step P sendErr' s name updates =
     (case Receive s updates of
        (s, None) \<Rightarrow> None
      | (s, Some update) \<Rightarrow>
          (case GetOperation P s name of
             Inl err \<Rightarrow> Some (Return (s, [], Streaming name updates))
           | Inr opProto \<Rightarrow>
               (case sendErr' of
                  Some err \<Rightarrow> Some (leave s name updates [] (Some err))
                | None \<Rightarrow>
                    if map_option State (heap s update) = Some StateCompleted
                    then Some (leave s name updates [opProto] None)
                    else Some (Return (s, [opProto], Streaming name updates)))))"

text \<open>Proxying: the answers of the peer, where the end of the list is the end of the stream.\<close>

fun proxy_stream :: "(nat \<Rightarrow> goerr option) \<Rightarrow> nat \<Rightarrow> (goerr + Operation) list \<Rightarrow> Operation list \<times> goerr option" where
  "proxy_stream sendErr' i [] = ([], None)"
| "proxy_stream sendErr' i (Inl err # ms) = ([], Some err)"
| "proxy_stream sendErr' i (Inr opr # ms) =
     (case sendErr' i of
        Some err \<Rightarrow> ([], Some err)
      | None \<Rightarrow> (case proxy_stream sendErr' (Suc i) ms of (sent, err) \<Rightarrow> (opr # sent, err)))"

section \<open>WaitExecution\<close>

definition forwardWaitExecution ::
  "exec_env \<Rightarrow> 'c ExecutionServer \<Rightarrow> NodeState \<Rightarrow> 'c ExecutionServer \<times> Operation list \<times> exec_result" where
  "forwardWaitExecution e S peer =
     (case getOrCreateConn S e (GrpcAddress peer) of
        (S, Some err) \<Rightarrow> (S, [], ExecDone (Some (Status Unavailable ''failed to connect to node'')))
      | (S, None) \<Rightarrow>
          (case ev_callErr e of
             Some err \<Rightarrow> (S, [], ExecDone (Some err))
           | None \<Rightarrow> (S, [], Proxying peer None)))"

definition wait_local ::
  "pbcodec \<Rightarrow> exec_env \<Rightarrow> 'c ExecutionServer \<Rightarrow> string \<Rightarrow> 'c ExecutionServer \<times> Operation list \<times> exec_result" where
  "wait_local P e S name =
     (case GetOperation P (es_sched S) name of
        Inl err \<Rightarrow> (S, [], ExecDone (Some err))
      | Inr opr \<Rightarrow>
          if pb_Done opr then (S, if ev_sendErr e = None then [opr] else [], ExecDone (ev_sendErr e))
          else (case Subscribe (es_sched S) name of
                  (s, updates) \<Rightarrow> (S\<lparr>es_sched := s\<rparr>, [], Streaming name updates)))"

definition WaitExecution ::
  "pbcodec \<Rightarrow> exec_env \<Rightarrow> 'c ExecutionServer \<Rightarrow> string \<Rightarrow> 'c ExecutionServer \<times> Operation list \<times> exec_result" where
  "WaitExecution P e S name =
     (case es_cluster S of
        None \<Rightarrow> wait_local P e S name
      | Some m \<Rightarrow>
          (let nid = fst (ParseOperationNodeID name)
           in if nid \<noteq> [] \<and> nid \<noteq> cm_NodeID m
              then (case GetPeerByNodeID m nid of
                      None \<Rightarrow> (S, [], ExecDone (Some (Status NotFound ''node not found in cluster'')))
                    | Some peer \<Rightarrow> forwardWaitExecution e S peer)
              else wait_local P e S name))"

text \<open>After its loop \<open>WaitExecution\<close> reports a finished context.\<close>

definition wait_end :: "bool \<Rightarrow> goerr option" where
  "wait_end ctxDone = (if ctxDone then Some (Status Canceled ''client cancelled'') else None)"

section \<open>Lemmas\<close>

lemma Enqueue_ok:
  assumes "length (taskQueue s) < queueSize s" "any_metadata P (Some \<lparr>Stage = QUEUED, ActionDigest = d\<rparr>) = Inr m"
  shows "snd (Enqueue P uuid now s d skip node) =
      Inr \<lparr>pb_Name = op_name (op_id s uuid node), pb_Metadata = m, pb_Done = False, pb_Result = None\<rparr>"
    "lookup_op (fst (Enqueue P uuid now s d skip node)) (op_name (op_id s uuid node)) =
      Some (next_obj s, \<lparr>Name = op_name (op_id s uuid node), State = StateQueued, Metadata = Some \<lparr>Stage = QUEUED, ActionDigest = d\<rparr>,
        Result = None, Error = None, CreatedAt = now, UpdatedAt = now\<rparr>)"
    "taskQueue (fst (Enqueue P uuid now s d skip node)) =
      taskQueue s @ [\<lparr>OperationID = op_id s uuid node, task_ActionDigest = d, SkipCache = skip, QueuedAt = now\<rparr>]"
  using assms by (simp_all add: Enqueue_def toProto_def lookup_op_def Let_def)

lemma Enqueue_name: "Enqueue P uuid now s d skip node = (t, Inr opr) \<Longrightarrow> pb_Name opr = op_name (op_id s uuid node)"
  by (auto simp: Enqueue_def Let_def dest: toProto_Name split: if_splits)

lemma Enqueue_tracks: "Enqueue P uuid now s d skip node = (t, Inr opr) \<Longrightarrow> lookup_op t (pb_Name opr) \<noteq> None"
  by (frule Enqueue_name) (auto simp: Enqueue_def Let_def lookup_op_def split: if_splits)

lemma executeLocally_cases:
  assumes "executeLocally P e S d skip = Return (T, msgs, r)"
  shows "\<not> (\<exists>peer origin. r = Proxying peer origin)"
    and "r = Streaming name c \<Longrightarrow> \<exists>s opr. Enqueue P (ev_uuid e) (ev_now e) (es_sched S) d skip
        (case forwardedFrom e of None \<Rightarrow> [] | Some v \<Rightarrow> v) = (s, Inr opr) \<and> name = pb_Name opr \<and>
        Subscribe s name = (es_sched T, c) \<and> msgs = [opr] \<and> es_cluster T = es_cluster S"
  using assms unfolding executeLocally_def Let_def
  by (auto split: prod.splits sum.splits option.splits)

lemma getOrCreateConn_frame:
  "es_sched (fst (getOrCreateConn S e addr)) = es_sched S" "es_cluster (fst (getOrCreateConn S e addr)) = es_cluster S"
  by (auto simp: getOrCreateConn_def split: option.splits)

lemma forwardExecute_proxy:
  assumes "forwardExecute P e S d skip peer = Return (T, msgs, Proxying peer' origin)"
  shows "peer' = peer" "origin = map_option cm_NodeID (es_cluster S)" "es_sched T = es_sched S"
proof -
  obtain S' err where c: "getOrCreateConn S e (GrpcAddress peer) = (S', err)" by fastforce
  have f: "es_sched S' = es_sched S" "es_cluster S' = es_cluster S"
    using getOrCreateConn_frame [of S e "GrpcAddress peer"] c by simp_all
  have "err = None" "ev_callErr e = None"
    using assms c executeLocally_cases(1) [of P e S' d skip T msgs "Proxying peer' origin"]
    by (auto simp: forwardExecute_def split: option.splits)
  then show "peer' = peer" "origin = map_option cm_NodeID (es_cluster S)" "es_sched T = es_sched S"
    using assms c f by (auto simp: forwardExecute_def)
qed

lemma cached_reply_done: "cached_reply P e S d result = Return (T, msgs, r) \<Longrightarrow> \<exists>err. r = ExecDone err"
  by (auto simp: cached_reply_def split: prod.splits sum.splits option.splits)

lemma Execute_miss:
  assumes "Execute P getAR f e S req = Return (T, msgs, r)" "\<forall>err. r \<noteq> ExecDone err"
  shows "\<exists>d c. er_ActionDigest req = Some d \<and> dispatch P e (S\<lparr>es_ac := c\<rparr>) d (SkipCacheLookup req) = Return (T, msgs, r)"
proof -
  from assms(1) obtain d c hit where d: "er_ActionDigest req = Some d"
      "lookup_cached getAR f (es_ac S) d (SkipCacheLookup req) = Return (c, hit)"
    by (auto simp: Execute_def bindo_Return_iff split: option.splits)
  show ?thesis
  proof (cases hit)
    case None
    then show ?thesis using assms(1) d by (auto simp: Execute_def)
  next
    case (Some result)
    then have "cached_reply P e (S\<lparr>es_ac := c\<rparr>) d result = Return (T, msgs, r)" using assms(1) d by (simp add: Execute_def)
    then show ?thesis using assms(2) by (blast dest: cached_reply_done)
  qed
qed

lemma Subscribe_lookup: "lookup_op (fst (Subscribe s name)) n = lookup_op s n"
  by (simp add: Subscribe_def Let_def lookup_op_def split: option.split)

lemma Execute_proxy:
  assumes "Execute P getAR f e S req = Return (T, msgs, Proxying peer origin)"
  shows "\<exists>m. forwardedFrom e = None \<and> es_cluster S = Some m \<and> origin = Some (cm_NodeID m) \<and> es_sched T = es_sched S \<and>
    SelectBestPeer (ev_rd e) m (GetPendingTaskCount (es_sched S)) (ev_order e) = Some peer"
proof -
  obtain d c where disp: "dispatch P e (S\<lparr>es_ac := c\<rparr>) d (SkipCacheLookup req) = Return (T, msgs, Proxying peer origin)"
    using Execute_miss [OF assms] by auto
  let ?S = "S\<lparr>es_ac := c\<rparr>"
  let ?sel = "if forwardedFrom e \<noteq> None then None else (case es_cluster ?S of None \<Rightarrow> None
      | Some m \<Rightarrow> SelectBestPeer (ev_rd e) m (GetPendingTaskCount (es_sched ?S)) (ev_order e))"
  have "?sel \<noteq> None"
  proof
    assume "?sel = None"
    then have "executeLocally P e ?S d (SkipCacheLookup req) = Return (T, msgs, Proxying peer origin)"
      using disp unfolding dispatch_def Let_def by simp
    then show False using executeLocally_cases(1) by blast
  qed
  then obtain peer0 where p: "?sel = Some peer0" by blast
  then have "forwardExecute P e ?S d (SkipCacheLookup req) peer0 = Return (T, msgs, Proxying peer origin)"
    using disp unfolding dispatch_def Let_def p by simp
  from forwardExecute_proxy [OF this] p show ?thesis by (auto split: if_splits option.splits)
qed

text \<open>C21: A request is forwarded at most once: a node forwards only a request that carries no originator, to a peer it
  chose as the best one, without touching its own scheduler, and sends its own name along; whatever node receives
  a request with that name does not forward it again.\<close>

theorem single_hop:
  assumes "Execute P getAR f e S req = Return (T, msgs, Proxying peer origin)"
  shows "(\<exists>m. forwardedFrom e = None \<and> es_cluster S = Some m \<and> origin = Some (cm_NodeID m) \<and> es_sched T = es_sched S \<and>
      SelectBestPeer (ev_rd e) m (GetPendingTaskCount (es_sched S)) (ev_order e) = Some peer) \<and>
    (\<forall>P' getAR' f' e' (S' :: 'd ExecutionServer) req' T' msgs' peer' origin'. forwardedFrom e' = origin \<longrightarrow>
      Execute P' getAR' f' e' S' req' \<noteq> Return (T', msgs', Proxying peer' origin'))"
  using Execute_proxy [OF assms] Execute_proxy by fastforce

definition req0 :: ExecuteRequest where
  "req0 = \<lparr>er_ActionDigest = Some digest0, SkipCacheLookup = False\<rparr>"

definition exec_env0 :: exec_env where
  "exec_env0 = \<lparr>ev_uuid = ''u2'', ev_now = 5, ev_rd = id, ev_order = [state_b], forwardedFrom = None,
                ev_sendErr = None, ev_dialErr = None, ev_callErr = None\<rparr>"

definition no_result :: "unit \<Rightarrow> Digest \<Rightarrow> (unit \<times> (goerr + ActionResult)) outcome" where
  "no_result c d = Return (c, Inl ErrNotExist)"

definition server0 :: "unit ExecutionServer" where
  "server0 = NewExecutionServer sched1 () (Some manager0)"

lemma sched1_load: "GetPendingTaskCount sched1 = 1"
  by (simp add: GetPendingTaskCount_def sched1_def run0_simps)

lemma forward0: "Execute codec0 no_result (\<lambda>_. Inr digest0) exec_env0 server0 req0 =
    Return (server0\<lparr>es_conns := {''0.0.0.0:9092''}\<rparr>, [], Proxying state_b (Some (cm_NodeID manager0)))"
proof -
  have "SelectBestPeer id manager0 1 [state_b] = Some state_b"
    by (simp add: SelectBestPeer_def has_capacity_def peer_ratio_def ratio_def state_b_def)
  then show ?thesis
    by (simp add: Execute_def lookup_cached_def no_result_def req0_def exec_env0_def server0_def NewExecutionServer_def
        dispatch_def sched1_load forwardExecute_def getOrCreateConn_def state_b_def)
qed

theorem single_hop_witness:
  "forwardedFrom exec_env0 = None \<and>
   Execute codec0 no_result (\<lambda>_. Inr digest0) exec_env0 server0 req0 =
     Return (server0\<lparr>es_conns := {''0.0.0.0:9092''}\<rparr>, [], Proxying state_b (Some (cm_NodeID manager0))) \<and>
   Execute codec0 no_result (\<lambda>_. Inr digest0) (exec_env0\<lparr>forwardedFrom := Some (cm_NodeID manager0)\<rparr>) server0 req0 \<noteq>
     Return (server0, [], Proxying state_b None)"
  using single_hop [OF forward0, where ?'d = unit] forward0 by auto

text \<open>C22: A client cannot wait for an operation that was forwarded: the peer names the operation after the node the
  request came from, so that node answers NotFound because it does not have it, and the peer, which has it,
  sends the call on to that node instead of answering.\<close>

theorem forwarded_operation_lost:
  assumes ex: "Execute P getAR f e B req = Return (B', msgs, Streaming name c)" and from_: "forwardedFrom e = Some a"
    and ids: "es_cluster A = Some mA" "cm_NodeID mA = a" "es_cluster B = Some mB" "cm_NodeID mB \<noteq> a" "a \<noteq> []"
    and names: "CHR '':'' \<notin> set a" "CHR '':'' \<notin> set (ev_uuid e)" "ev_uuid e \<noteq> []"
    and absent: "lookup_op (es_sched A) name = None"
  shows "lookup_op (es_sched B') name \<noteq> None \<and>
    WaitExecution P eA A name = (A, [], ExecDone (Some (Status NotFound ''operation not found''))) \<and>
    WaitExecution P eB B' name =
      (case GetPeerByNodeID mB a of
         None \<Rightarrow> (B', [], ExecDone (Some (Status NotFound ''node not found in cluster'')))
       | Some peer \<Rightarrow> forwardWaitExecution eB B' peer)"
proof -
  obtain d ac where "dispatch P e (B\<lparr>es_ac := ac\<rparr>) d (SkipCacheLookup req) = Return (B', msgs, Streaming name c)"
    using Execute_miss [OF ex] by auto
  then have "executeLocally P e (B\<lparr>es_ac := ac\<rparr>) d (SkipCacheLookup req) = Return (B', msgs, Streaming name c)"
    using from_ by (simp add: dispatch_def)
  from executeLocally_cases(2) [OF this refl] obtain s opr where
    enq: "Enqueue P (ev_uuid e) (ev_now e) (es_sched B) d (SkipCacheLookup req) a = (s, Inr opr)" "name = pb_Name opr"
      "Subscribe s name = (es_sched B', c)" "es_cluster B' = Some mB"
    using from_ ids(3) by auto
  have n: "name = op_name (if a \<noteq> [] then a @ '':'' @ ev_uuid e else ev_uuid e)"
    using Enqueue_name [OF enq(1)] enq(2) ids(5) by (simp add: op_id_def Let_def)
  have p: "fst (ParseOperationNodeID name) = a" unfolding n using Parse_op_name [OF names] by simp
  have "lookup_op (es_sched B') name = lookup_op s name"
    using Subscribe_lookup [of s name name] enq(3) by simp
  then have "lookup_op (es_sched B') name \<noteq> None" using Enqueue_tracks [OF enq(1)] enq(2) by simp
  moreover have "WaitExecution P eA A name = (A, [], ExecDone (Some (Status NotFound ''operation not found'')))"
    using p ids(1,2) absent by (simp add: WaitExecution_def wait_local_def GetOperation_def)
  ultimately show ?thesis using p ids(4,5) enq(4) by (auto simp: WaitExecution_def split: option.split)
qed

definition server_b :: "unit ExecutionServer" where
  "server_b = NewExecutionServer (NewScheduler 2 ''b'') () (Some (manager0\<lparr>localState := state_b\<rparr>))"

lemma execute_b: "\<exists>B' msgs c. Execute codec0 no_result (\<lambda>_. Inr digest0) (exec_env0\<lparr>forwardedFrom := Some ''a''\<rparr>) server_b req0 =
    Return (B', msgs, Streaming ''operations/a:u2'' c)"
  by (simp add: Execute_def lookup_cached_def no_result_def req0_def exec_env0_def server_b_def NewExecutionServer_def
      dispatch_def executeLocally_def toProto_def run0_simps)

theorem forwarded_operation_lost_witness:
  "\<exists>B' msgs c. Execute codec0 no_result (\<lambda>_. Inr digest0) (exec_env0\<lparr>forwardedFrom := Some ''a''\<rparr>) server_b req0 =
     Return (B', msgs, Streaming ''operations/a:u2'' c) \<and>
   WaitExecution codec0 exec_env0 server0 ''operations/a:u2'' =
     (server0, [], ExecDone (Some (Status NotFound ''operation not found''))) \<and>
   lookup_op (es_sched B') ''operations/a:u2'' \<noteq> None"
proof -
  obtain B' msgs c where b: "Execute codec0 no_result (\<lambda>_. Inr digest0) (exec_env0\<lparr>forwardedFrom := Some ''a''\<rparr>) server_b req0 =
     Return (B', msgs, Streaming ''operations/a:u2'' c)" using execute_b by blast
  have "lookup_op (es_sched server0) ''operations/a:u2'' = None"
    by (simp add: server0_def NewExecutionServer_def sched1_def run0_simps)
  with forwarded_operation_lost [OF b, of "''a''" server0 manager0 "manager0\<lparr>localState := state_b\<rparr>" exec_env0 exec_env0]
  show ?thesis using b by (simp add: exec_env0_def server0_def server_b_def NewExecutionServer_def cm_NodeID_def state_b_def)
qed

text \<open>On a hit in the action cache the client gets exactly one message, the completed operation with the cached
  result; but the operation was made by enqueuing, so its task stays in the queue for a worker.\<close>

theorem cached_execute:
  assumes inv: "sched_inv (es_sched S)" and room: "length (taskQueue (es_sched S)) < queueSize (es_sched S)"
    and fresh: "operations (es_sched S) (op_name (op_id (es_sched S) (ev_uuid e) [])) = None"
    and req: "er_ActionDigest req = Some d" "lookup_cached getAR f (es_ac S) d (SkipCacheLookup req) = Return (c, Some result)"
    and codec: "any_metadata P (Some \<lparr>Stage = QUEUED, ActionDigest = d\<rparr>) = Inr m0"
      "any_metadata P (Some \<lparr>Stage = COMPLETED, ActionDigest = d\<rparr>) = Inr m1"
      "any_response P \<lparr>resp_Result = result, resp_CachedResult = True\<rparr> = Inr b"
    and send: "ev_sendErr e = None"
  shows "\<exists>T. Execute P getAR f e S req =
      Return (T, [\<lparr>pb_Name = op_name (op_id (es_sched S) (ev_uuid e) []), pb_Metadata = m1, pb_Done = True,
                    pb_Result = Some (Operation_Response b)\<rparr>], ExecDone None) \<and>
    taskQueue (es_sched T) = taskQueue (es_sched S) @
      [\<lparr>OperationID = op_id (es_sched S) (ev_uuid e) [], task_ActionDigest = d, SkipCache = True, QueuedAt = ev_now e\<rparr>]"
proof -
  let ?n = "op_name (op_id (es_sched S) (ev_uuid e) [])"
  let ?enq = "Enqueue P (ev_uuid e) (ev_now e) (es_sched S) d True []"
  note enq = Enqueue_ok [OF room codec(1), of "ev_uuid e" "ev_now e" True "[]"]
  obtain s1 where s1: "?enq = (s1, Inr \<lparr>pb_Name = ?n, pb_Metadata = m0, pb_Done = False, pb_Result = None\<rparr>)"
    using enq(1) by (metis prod.collapse)
  have inv': "sched_inv s1" using Enqueue_inv(1) [OF inv fresh, of P "ev_now e" d True] s1 by simp
  let ?r = "\<lparr>resp_Result = result, resp_CachedResult = True\<rparr>"
  obtain t where t: "Complete (ev_now e) s1 ?n ?r = Some t" "taskQueue t = taskQueue s1"
      "GetOperation P t ?n = Inr \<lparr>pb_Name = ?n, pb_Metadata = m1, pb_Done = True, pb_Result = Some (Operation_Response b)\<rparr>"
    using enq(2) s1 codec(2,3) by (simp add: Complete_inv [OF inv'] GetOperation_def toProto_def set_completed_stage_def)
  have "cached_reply P e (S\<lparr>es_ac := c\<rparr>) d result = Return (S\<lparr>es_ac := c, es_sched := t\<rparr>,
      [\<lparr>pb_Name = ?n, pb_Metadata = m1, pb_Done = True, pb_Result = Some (Operation_Response b)\<rparr>], ExecDone None)"
    using t(1,3) send unfolding cached_reply_def by (simp add: s1)
  moreover have "taskQueue t = taskQueue (es_sched S) @
      [\<lparr>OperationID = op_id (es_sched S) (ev_uuid e) [], task_ActionDigest = d, SkipCache = True, QueuedAt = ev_now e\<rparr>]"
    using t(2) enq(3) s1 by simp
  ultimately show ?thesis using req by (simp add: Execute_def)
qed

theorem cached_execute_witness:
  "\<exists>T. Execute codec0 (\<lambda>c d. Return (c, Inr (resp_Result resp0))) (\<lambda>_. Inr digest0) exec_env0 (NewExecutionServer sched1 () None) req0 =
      Return (T, [\<lparr>pb_Name = ''operations/n:u2'', pb_Metadata = [], pb_Done = True, pb_Result = Some (Operation_Response [])\<rparr>], ExecDone None) \<and>
     length (taskQueue (es_sched T)) = 2"
proof -
  let ?S = "NewExecutionServer sched1 () None"
  have "sched_inv (es_sched ?S)" using sched1_inv by (simp add: NewExecutionServer_def)
  moreover have "length (taskQueue (es_sched ?S)) < queueSize (es_sched ?S)" "length (taskQueue (es_sched ?S)) = 1"
      "op_name (op_id (es_sched ?S) (ev_uuid exec_env0) []) = ''operations/n:u2''" "operations (es_sched ?S) ''operations/n:u2'' = None"
    by (simp_all add: NewExecutionServer_def sched1_def run0_simps exec_env0_def)
  ultimately show ?thesis
    using cached_execute [of ?S exec_env0 req0 digest0 "\<lambda>c d. Return (c, Inr (resp_Result resp0))" "\<lambda>_. Inr digest0" "()" "resp_Result resp0" codec0 "[]" "[]" "[]"]
    by (auto simp: req0_def lookup_cached_def codec0_def exec_env0_def NewExecutionServer_def)
qed

lemma stream_ends:
  assumes inv: "sched_inv t" and ch: "updates \<in> set (subscribers t name)" "chans t updates = Some ch" "buf ch = obj # rest"
    and l: "lookup_op t name = Some (obj, opr)" "State opr = StateCompleted" "toProto P opr = Inr p"
  shows "\<exists>u. stream_step P None t name updates = Some (Return (u, [p], ExecDone None)) \<and> updates \<notin> set (subscribers u name)"
proof -
  let ?c = "ch\<lparr>buf := rest\<rparr>" let ?t = "t\<lparr>chans := (chans t)(updates \<mapsto> ?c)\<rparr>"
  let ?u = "?t\<lparr>subscribers := (subscribers t)(name := remove1 updates (subscribers t name)), chans := (chans ?t)(updates \<mapsto> channel.closed_update (\<lambda>_. True) ?c)\<rparr>"
  have open_: "\<not> channel.closed ch" "distinct (subscribers t name)"
    using inv ch(1,2) unfolding sched_inv_def chans_inv_def by fastforce+
  have "Receive t updates = (?t, Some obj)" using ch by (simp add: Receive_def)
  moreover have lt: "lookup_op ?t name = Some (obj, opr)" using l(1) by (simp add: lookup_op_heap)
  then have "GetOperation P ?t name = Inr p" using l(3) by (simp add: GetOperation_def)
  moreover have "map_option State (heap ?t obj) = Some StateCompleted" using lt l(2) unfolding lookup_op_heap by simp
  moreover have "unsubscribe ?t name updates = Some ?u" using ch(1) open_(1) by (simp add: unsubscribe_def)
  ultimately have "stream_step P None t name updates = Some (Return (?u, [p], ExecDone None))"
    by (simp add: stream_step_def leave_def)
  moreover have "updates \<notin> set (subscribers ?u name)" using open_(2) by simp
  ultimately show ?thesis by blast
qed

text \<open>C23: Completing an operation releases every handler that streams it, whatever it has read so far: its next
  round sends the completed operation with the result, ends without an error and unsubscribes.\<close>

theorem completion_ends_stream:
  assumes inv: "sched_inv s" and l: "lookup_op s name = Some (obj, opr)" "Error opr = None"
    and ch: "updates \<in> set (subscribers s name)" "chans s updates = Some ch" "set (buf ch) \<subseteq> {obj}"
    and codec: "any_metadata P (set_completed_stage (Metadata opr)) = Inr m" "any_response P r = Inr b"
    and c: "Complete now s name r = Some t"
  shows "\<exists>u. stream_step P None t name updates =
    Some (Return (u, [\<lparr>pb_Name = Name opr, pb_Metadata = m, pb_Done = True, pb_Result = Some (Operation_Response b)\<rparr>], ExecDone None)) \<and>
    updates \<notin> set (subscribers u name)"
proof -
  let ?opr = "opr\<lparr>State := StateCompleted, Result := Some r, Metadata := set_completed_stage (Metadata opr), UpdatedAt := now\<rparr>"
  have t: "t = write_notify s (executingCount s - of_bool (State opr = StateExecuting)) name obj ?opr"
    using c l(1) by (simp add: Complete_inv [OF inv])
  have md: "Metadata opr \<noteq> None" using inv l(1) by (auto simp: sched_inv_def dest: ops_inv_Metadata)
  have "sched_inv t" unfolding t by (rule sched_inv_write [OF inv l(1)]) (use md in simp_all)
  moreover have "updates \<in> set (subscribers t name)" "chans t updates = Some (push obj ch)"
    using ch(1,2) by (simp_all add: t chans_write)
  moreover have "\<exists>rest. buf (push obj ch) = obj # rest"
    using ch(3) by (cases "buf ch") (auto simp: push_def chan_cap_def)
  moreover have "lookup_op t name = Some (obj, ?opr)" using l(1) by (simp add: t)
  moreover have "toProto P ?opr = Inr \<lparr>pb_Name = Name opr, pb_Metadata = m, pb_Done = True, pb_Result = Some (Operation_Response b)\<rparr>"
    using codec l(2) by (simp add: toProto_def)
  ultimately show ?thesis using stream_ends [of t updates name "push obj ch" obj _ ?opr P] by auto
qed

theorem completion_ends_stream_witness:
  "\<exists>t u. Complete 3 (fst (Subscribe sched1 ''operations/n:u1'')) ''operations/n:u1'' resp0 = Some t \<and>
     stream_step codec0 None t ''operations/n:u1'' 0 =
       Some (Return (u, [\<lparr>pb_Name = ''operations/n:u1'', pb_Metadata = [], pb_Done = True, pb_Result = Some (Operation_Response [])\<rparr>], ExecDone None))"
proof -
  let ?s = "fst (Subscribe sched1 ''operations/n:u1'')"
  have inv: "sched_inv ?s" using Subscribe_inv(1) [OF sched1_inv] .
  then obtain t where t: "Complete 3 ?s ''operations/n:u1'' resp0 = Some t" by (simp add: Complete_inv)
  have "lookup_op ?s ''operations/n:u1'' = Some (0, \<lparr>Name = ''operations/n:u1'', State = StateQueued,
      Metadata = Some \<lparr>Stage = QUEUED, ActionDigest = digest0\<rparr>, Result = None, Error = None, CreatedAt = 0, UpdatedAt = 0\<rparr>)"
    using sched1_lookup by (simp add: Subscribe_lookup)
  moreover have "0 \<in> set (subscribers ?s ''operations/n:u1'')" "chans ?s 0 = Some \<lparr>buf = [0], closed = False\<rparr>"
    by (simp_all add: sched1_def run0_simps)
  ultimately show ?thesis
    using completion_ends_stream [OF inv _ _ _ _ _ _ _ t, of 0 _ 0 "\<lparr>buf = [0], closed = False\<rparr>" codec0 "[]" "[]"] t
    by (fastforce simp: codec0_def)
qed

text \<open>
  A handler whose operation was deleted never ends: it has no update to read, or it skips the update because
  the operation is not found.
\<close>

lemma deleted_stream_never_ends:
  assumes "lookup_op s name = None"
  shows "stream_step P se s name updates = None \<or>
    (\<exists>t. stream_step P se s name updates = Some (Return (t, [], Streaming name updates)) \<and> lookup_op t name = None)"
  using assms by (auto simp: stream_step_def Receive_def GetOperation_def lookup_op_def split: option.splits list.splits)

end
