(* ===== verification/Proxy.thy ===== *)
theory Proxy
  imports LocalStore_Props PutFile_Props ByteStream
begin

text \<open>
  The two-tier store (\<^verbatim>\<open>pkg/proxy/proxy.go\<close>): reads that fill the local tier, writes that go through to the
  remote, uploads of files with retries, and action results. The remote is any store, given by its operations;
  under the \<open>blob_reader\<close> contract for it the proxy keeps the same contract.
\<close>

section \<open>State\<close>

record 'r ProxyStore =
  px_local :: LocalStore
  px_remote :: 'r
  putRetryCount :: int

definition NewProxyStore :: "LocalStore \<Rightarrow> 'r \<Rightarrow> int \<Rightarrow> 'r ProxyStore" where
  "NewProxyStore l r n = \<lparr>px_local = l, px_remote = r, putRetryCount = (if n < 1 then 1 else n)\<rparr>"

definition px_BlobPath :: "'r ProxyStore \<Rightarrow> Digest \<Rightarrow> path outcome" where
  "px_BlobPath p d = BlobPath (px_local p) d"

text \<open>
  \<open>singleflight.Group.Do\<close>: \<open>flight\<close> is \<open>None\<close> where the call runs the function itself, and otherwise the
  stores as they are when the call it waited for has finished, with the result it shares.
\<close>

section \<open>Reading\<close>

definition px_Has ::
  "('r \<Rightarrow> Digest \<Rightarrow> ('r \<times> (goerr + bool)) outcome) \<Rightarrow> 'r ProxyStore \<Rightarrow> Digest \<Rightarrow>
   ('r ProxyStore \<times> (goerr + bool)) outcome" where
  "px_Has rhas p d =
     bindo (Has (px_local p) d) (\<lambda>(l, r).
       let p = p\<lparr>px_local := l\<rparr>
       in case r of
            Inl e \<Rightarrow> Return (p, Inl e)
          | Inr True \<Rightarrow> Return (p, Inr True)
          | Inr False \<Rightarrow>
              bindo (rhas (px_remote p) d) (\<lambda>(rm, found). Return (p\<lparr>px_remote := rm\<rparr>, found)))"

definition local_get :: "'r ProxyStore \<Rightarrow> Digest \<Rightarrow> ('r ProxyStore \<times> (goerr + reader)) outcome" where
  "local_get p d = bindo (Get (px_local p) d) (\<lambda>(l, r). Return (p\<lparr>px_local := l\<rparr>, r))"

definition remote_fetch ::
  "('r \<Rightarrow> Digest \<Rightarrow> ('r \<times> (goerr + reader)) outcome) \<Rightarrow> 'r ProxyStore \<Rightarrow> Digest \<Rightarrow> ('r ProxyStore \<times> goerr option) outcome" where
  "remote_fetch rget p d =
     bindo (rget (px_remote p) d) (\<lambda>(rm, r).
       let p = p\<lparr>px_remote := rm\<rparr>
       in case r of
            Inl e \<Rightarrow> Return (p, Some e)
          | Inr rc \<Rightarrow> bindo (Put (px_local p) d rc) (\<lambda>(l, e). Return (p\<lparr>px_local := l\<rparr>, e)))"

definition px_Get ::
  "('r \<Rightarrow> Digest \<Rightarrow> ('r \<times> (goerr + reader)) outcome) \<Rightarrow> ('r ProxyStore \<times> goerr option) option \<Rightarrow> 'r ProxyStore \<Rightarrow> Digest \<Rightarrow>
   ('r ProxyStore \<times> (goerr + reader)) outcome" where
  "px_Get rget flight p d =
     bindo (Has (px_local p) d) (\<lambda>(l, r).
       let p = p\<lparr>px_local := l\<rparr>
       in if r = Inr True then local_get p d
          else bindo (case flight of Some shared \<Rightarrow> Return shared | None \<Rightarrow> remote_fetch rget p d) (\<lambda>(p, e).
                 case e of
                   Some e \<Rightarrow> Return (p, Inl e)
                 | None \<Rightarrow> local_get p d))"

section \<open>Writing\<close>

text \<open>
  \<open>putImpl\<close>. The remote \<open>Put\<close> runs in the background and reads from the pipe that the tee writes to. If it
  returns while there are bytes left (\<open>early\<close>: the number it has read, the remote store then, and its result), it closes the
  pipe, and the next write of the tee, hence the next read of the local \<open>Put\<close>, fails with its error, or with a closed
  pipe if it had none. Otherwise the remote reads all the local \<open>Put\<close> has read, at most \<open>seen\<close> bytes if that fails, and
  then the end or the error of the local \<open>Put\<close>.
\<close>

definition close_error :: "goerr option \<Rightarrow> goerr" where
  "close_error e = (case e of None \<Rightarrow> ErrClosedPipe | Some e \<Rightarrow> e)"

definition putImpl ::
  "('r \<Rightarrow> Digest \<Rightarrow> reader \<Rightarrow> ('r \<times> goerr option) outcome) \<Rightarrow> (nat \<times> 'r \<times> goerr option) option \<Rightarrow> nat \<Rightarrow>
   'r ProxyStore \<Rightarrow> Digest \<Rightarrow> reader \<Rightarrow> ('r ProxyStore \<times> goerr option) outcome" where
  "putImpl rput early seen p d data =
     (case early of
        Some (k, rm, remoteErr) \<Rightarrow>
          bindo (Put (px_local p) d
                   (if k < length (rd_bytes data)
                    then \<lparr>rd_bytes = take k (rd_bytes data), rd_err = Some (close_error remoteErr)\<rparr> else data))
            (\<lambda>(l, localErr). Return (p\<lparr>px_local := l, px_remote := rm\<rparr>, if localErr \<noteq> None then localErr else remoteErr))
      | None \<Rightarrow>
          bindo (Put (px_local p) d data) (\<lambda>(l, localErr).
            bindo (rput (px_remote p) d
                     (case localErr of
                        None \<Rightarrow> \<lparr>rd_bytes = rd_bytes data, rd_err = None\<rparr>
                      | Some e \<Rightarrow> \<lparr>rd_bytes = take seen (rd_bytes data), rd_err = Some e\<rparr>))
              (\<lambda>(rm, remoteErr). Return (p\<lparr>px_local := l, px_remote := rm\<rparr>, if localErr \<noteq> None then localErr else remoteErr))))"

definition px_Put ::
  "('r \<Rightarrow> Digest \<Rightarrow> reader \<Rightarrow> ('r \<times> goerr option) outcome) \<Rightarrow> ('r ProxyStore \<times> goerr option) option \<Rightarrow>
   (nat \<times> 'r \<times> goerr option) option \<Rightarrow> nat \<Rightarrow> 'r ProxyStore \<Rightarrow> Digest \<Rightarrow> reader \<Rightarrow> ('r ProxyStore \<times> goerr option) outcome" where
  "px_Put rput flight early seen p d data =
     bindo (Has (px_local p) d) (\<lambda>(l, r).
       let p = p\<lparr>px_local := l\<rparr>
       in if r = Inr True then Return (p, None)
          else (case flight of
                  Some shared \<Rightarrow> Return shared
                | None \<Rightarrow> putImpl rput early seen p d data))"

text \<open>
  The retry loop of \<open>putFileImpl\<close>: \<open>files\<close> is what opening the file gives at each attempt, and \<open>ctxErr\<close> whether the
  context has ended after it.
\<close>

fun put_retry ::
  "('r \<Rightarrow> Digest \<Rightarrow> reader \<Rightarrow> ('r \<times> goerr option) outcome) \<Rightarrow> (nat \<Rightarrow> goerr + reader) \<Rightarrow> (nat \<Rightarrow> bool) \<Rightarrow>
   nat \<Rightarrow> nat \<Rightarrow> goerr option \<Rightarrow> 'r \<Rightarrow> Digest \<Rightarrow> ('r \<times> goerr option) outcome" where
  "put_retry rput files ctxErr 0 i lastErr rm d = Return (rm, lastErr)"
| "put_retry rput files ctxErr (Suc n) i lastErr rm d =
     (case files i of
        Inl e \<Rightarrow> Return (rm, Some e)
      | Inr f \<Rightarrow>
          bindo (rput rm d f) (\<lambda>(rm, err).
            case err of
              None \<Rightarrow> Return (rm, None)
            | Some e \<Rightarrow>
                if ctxErr i then Return (rm, Some CtxErr)
                else put_retry rput files ctxErr n (Suc i) (Some e) rm d))"

definition putFileImpl ::
  "('r \<Rightarrow> Digest \<Rightarrow> reader \<Rightarrow> ('r \<times> goerr option) outcome) \<Rightarrow> (nat \<Rightarrow> goerr + reader) \<Rightarrow> (nat \<Rightarrow> bool) \<Rightarrow>
   'r ProxyStore \<Rightarrow> Digest \<Rightarrow> path \<Rightarrow> ('r ProxyStore \<times> goerr option) outcome" where
  "putFileImpl rput files ctxErr p d src =
     bindo (PutFile (px_local p) d src) (\<lambda>(l, err).
       let p = p\<lparr>px_local := l\<rparr>
       in case err of
            Some e \<Rightarrow> Return (p, Some e)
          | None \<Rightarrow>
              bindo (put_retry rput files ctxErr (nat (putRetryCount p)) 0 None (px_remote p) d)
                (\<lambda>(rm, err). Return (p\<lparr>px_remote := rm\<rparr>, err)))"

definition px_PutFile ::
  "('r \<Rightarrow> Digest \<Rightarrow> reader \<Rightarrow> ('r \<times> goerr option) outcome) \<Rightarrow> ('r ProxyStore \<times> goerr option) option \<Rightarrow>
   (nat \<Rightarrow> goerr + reader) \<Rightarrow> (nat \<Rightarrow> bool) \<Rightarrow> 'r ProxyStore \<Rightarrow> Digest \<Rightarrow> path \<Rightarrow> ('r ProxyStore \<times> goerr option) outcome" where
  "px_PutFile rput flight files ctxErr p d src =
     (case flight of
        Some shared \<Rightarrow> Return shared
      | None \<Rightarrow> putFileImpl rput files ctxErr p d src)"

section \<open>Action results\<close>

text \<open>The remote is an action cache or not: \<open>rac\<close>.\<close>

definition px_GetActionResult ::
  "arcodec \<Rightarrow> ('r \<Rightarrow> Digest \<Rightarrow> ('r \<times> (goerr + ActionResult)) outcome) option \<Rightarrow>
   ('r ProxyStore \<times> (goerr + ActionResult)) option \<Rightarrow> 'r ProxyStore \<Rightarrow> Digest \<Rightarrow>
   ('r ProxyStore \<times> (goerr + ActionResult)) outcome" where
  "px_GetActionResult P rac flight p d =
     bindo (GetActionResult P (px_local p) d) (\<lambda>(l, r).
       let p = p\<lparr>px_local := l\<rparr>
       in case r of
            Inr res \<Rightarrow> Return (p, Inr res)
          | Inl _ \<Rightarrow>
              (case flight of
                 Some shared \<Rightarrow> Return shared
               | None \<Rightarrow>
                   (case rac of
                      None \<Rightarrow> Return (p, Inl (Status Unimplemented ''remote does not support ActionCache''))
                    | Some rget \<Rightarrow>
                        bindo (rget (px_remote p) d) (\<lambda>(rm, r).
                          let p = p\<lparr>px_remote := rm\<rparr>
                          in case r of
                               Inl e \<Rightarrow> Return (p, Inl e)
                             | Inr res \<Rightarrow>
                                 bindo (UpdateActionResult P (px_local p) d res)
                                   (\<lambda>(l, _). Return (p\<lparr>px_local := l\<rparr>, Inr res))))))"

definition px_UpdateActionResult ::
  "arcodec \<Rightarrow> ('r \<Rightarrow> Digest \<Rightarrow> ActionResult \<Rightarrow> ('r \<times> goerr option) outcome) option \<Rightarrow>
   ('r ProxyStore \<times> goerr option) option \<Rightarrow> 'r ProxyStore \<Rightarrow> Digest \<Rightarrow> ActionResult \<Rightarrow>
   ('r ProxyStore \<times> goerr option) outcome" where
  "px_UpdateActionResult P rac flight p d result =
     (case flight of
        Some shared \<Rightarrow> Return shared
      | None \<Rightarrow>
          bindo (case rac of None \<Rightarrow> Return (px_remote p, None) | Some rupd \<Rightarrow> rupd (px_remote p) d result) (\<lambda>(rm, e).
            let p = p\<lparr>px_remote := rm\<rparr>
            in case e of
                 Some e \<Rightarrow> Return (p, Some e)
               | None \<Rightarrow> bindo (UpdateActionResult P (px_local p) d result) (\<lambda>(l, e). Return (p\<lparr>px_local := l\<rparr>, e))))"

section \<open>Lemmas on the local tier\<close>

lemma Get_fault:
  assumes "Get s d = Return (t, r)"
  shows "fault (disk t) = fault (disk s)"
proof -
  obtain path where "BlobPath s d = Return path" using assms by (auto simp: Get_def bindo_Return_iff)
  moreover obtain u x where st: "Open (disk s) path = (u, x)" by fastforce
  moreover have "fault u = fault (disk s)" using Open_kept [of "disk s" path] st by (simp add: kept_def)
  moreover have "fault (fst (read_handle v f)) = fault v" for v f
    by (simp add: read_handle_def Let_def split: handle.split option.split)
  ultimately show ?thesis using assms by (cases x) (auto simp: Get_def touch_fault split: prod.splits, metis fst_conv touch_fault)
qed

text \<open>A local tier without disk faults.\<close>

definition sound :: "LocalStore \<Rightarrow> bool" where
  "sound l \<longleftrightarrow> store_inv l \<and> faultless (disk l)"

lemma sound_Has:
  assumes "sound l" "hexhash (Hash d)"
  shows "\<exists>t. Has l d = Return (t, Inr (entry ''cas'' l (Hash d) \<noteq> None)) \<and> sound t \<and> (\<forall>k. entry k t = entry k l)"
proof -
  obtain t r where t: "Has l d = Return (t, r)" "store_inv t" "\<forall>k. entry k t = entry k l"
    "r = Inr (entry ''cas'' l (Hash d) \<noteq> None) \<or> (\<exists>e. fault (disk l) (sysno (disk l)) = Some e)"
    using Has_entries [of l d] assms by (auto simp: sound_def)
  moreover have "faultless (disk t)" using Has_fault [OF t(1)] assms(1) by (simp add: sound_def faultless_def)
  ultimately show ?thesis using assms(1) by (auto simp: sound_def faultless_def)
qed

lemma sound_Get:
  assumes "sound l" "hexhash (Hash d)"
  shows "\<exists>t. Get l d = Return (t, case entry ''cas'' l (Hash d) of None \<Rightarrow> Inl ErrNotExist
      | Some x \<Rightarrow> Inr \<lparr>rd_bytes = x, rd_err = None\<rparr>) \<and> sound t \<and> (\<forall>k. entry k t = entry k l)"
proof -
  obtain t r where t: "Get l d = Return (t, r)" "store_inv t" "\<forall>k. entry k t = entry k l"
    "case r of Inl e \<Rightarrow> e = ErrNotExist \<and> entry ''cas'' l (Hash d) = None \<or> fault (disk l) (sysno (disk l)) = Some e
     | Inr rd \<Rightarrow> \<exists>c. entry ''cas'' l (Hash d) = Some c \<and> (rd_err rd = None \<longrightarrow> rd_bytes rd = c) \<and>
         (\<exists>n. rd_bytes rd = take n c) \<and> (\<forall>e. rd_err rd = Some e \<longrightarrow> (\<exists>n. fault (disk l) n = Some e))"
    using Get_entries [of l d] assms unfolding sound_def by blast
  have f: "fault (disk l) n = None" for n using assms(1) by (simp add: sound_def faultless_def)
  have "faultless (disk t)" using Get_fault [OF t(1)] f by (simp add: faultless_def)
  moreover have "r = (case entry ''cas'' l (Hash d) of None \<Rightarrow> Inl ErrNotExist | Some x \<Rightarrow> Inr \<lparr>rd_bytes = x, rd_err = None\<rparr>)"
    using t(4) f by (cases r) (auto intro!: reader.equality)
  ultimately show ?thesis using t by (auto simp: sound_def)
qed

lemma sound_Put:
  assumes "sound l" "hexhash (Hash d)"
  shows "\<exists>t r. Put l d rd = Return (t, r) \<and> sound t \<and>
     (\<forall>h. hexhash h \<longrightarrow> h \<noteq> Hash d \<longrightarrow> entry ''cas'' t h = entry ''cas'' l h) \<and>
     (entry ''cas'' t (Hash d) = entry ''cas'' l (Hash d) \<or> entry ''cas'' t (Hash d) = Some (rd_bytes rd) \<and> rd_err rd = None) \<and>
     (r = None \<longrightarrow> entry ''cas'' t (Hash d) = Some (rd_bytes rd) \<and> int (length (rd_bytes rd)) = Size d \<and> rd_err rd = None)"
  using Put_entries [of l d rd] Put_fault [of l d rd] assms by (fastforce simp: sound_def faultless_def)

lemma put_body_error: "put_body s path tmp f d rd = (t, Some e) \<Longrightarrow> \<not> IsNotExist e"
  unfolding put_body_def by (auto split: prod.split_asm sum.split_asm if_split_asm)

lemma Put_error:
  assumes "Put l d rd = Return (t, Some e)"
  shows "\<not> IsNotExist e"
proof -
  obtain path where b: "BlobPath l d = Return path" using assms by (auto simp: Put_def bindo_Return_iff)
  obtain u r where m: "MkdirAll (disk l) (parent path) = (u, r)" by fastforce
  show ?thesis
  proof (cases r)
    case (Inl x)
    then show ?thesis using assms b m by (auto simp: Put_def)
  next
    case (Inr x)
    obtain v q where c: "CreateTemp u (parent path) ''cas-tmp-'' = (v, q)" by fastforce
    show ?thesis
    proof (cases q)
      case Inl
      then show ?thesis using assms b m Inr c by (auto simp: Put_def)
    next
      case q: (Inr y)
      obtain tmp f where y: "y = (tmp, f)" by fastforce
      obtain w z where p: "put_body v path tmp f d rd = (w, z)" by fastforce
      then have "z = Some e" using assms b m Inr c q y by (cases z) (auto simp: Put_def)
      then show ?thesis using p put_body_error by blast
    qed
  qed
qed

section \<open>The two tiers as one store\<close>

text \<open>What a client sees: the local tier, and behind it the remote.\<close>

definition px_view :: "('r \<Rightarrow> string \<Rightarrow> bytes option) \<Rightarrow> 'r ProxyStore \<Rightarrow> string \<Rightarrow> bytes option" where
  "px_view rview p h = (case entry ''cas'' (px_local p) h of Some x \<Rightarrow> Some x | None \<Rightarrow> rview (px_remote p) h)"

definition px_inv :: "('r \<Rightarrow> bool) \<Rightarrow> 'r ProxyStore \<Rightarrow> bool" where
  "px_inv rinv p \<longleftrightarrow> sound (px_local p) \<and> rinv (px_remote p)"

lemma whole_take: "\<exists>n. x = take n x"
  by (rule exI [of _ "length x"]) simp

lemma px_view_cong:
  "\<forall>k. entry k (px_local t) = entry k (px_local p) \<Longrightarrow> px_remote t = px_remote p \<Longrightarrow> px_view v t = px_view v p"
  by (simp add: px_view_def fun_eq_iff split: option.split)

lemma local_get_law:
  assumes "sound (px_local p)" "hexhash (Hash d)" "entry ''cas'' (px_local p) (Hash d) = Some x"
  shows "\<exists>t. local_get p d = Return (t, Inr \<lparr>rd_bytes = x, rd_err = None\<rparr>) \<and> sound (px_local t) \<and>
    (\<forall>k. entry k (px_local t) = entry k (px_local p)) \<and> px_remote t = px_remote p"
  using sound_Get [OF assms(1,2)] assms(3) by (auto simp: local_get_def)

context blob_reader
begin

lemma px_has_law:
  assumes "px_inv inv p" "hexhash (Hash d)" "okh (Hash d)"
  shows "\<exists>t r. px_Has has p d = Return (t, r) \<and> px_inv inv t \<and>
    (\<forall>h. hexhash h \<and> okh h \<longrightarrow> px_view view t h = px_view view p h) \<and> (\<forall>b. r = Inr b \<longrightarrow> b = (px_view view p (Hash d) \<noteq> None))"
proof -
  have inv: "sound (px_local p)" "inv (px_remote p)" using assms(1) by (simp_all add: px_inv_def)
  from sound_Has [OF inv(1) assms(2)] obtain l where l: "Has (px_local p) d = Return (l, Inr (entry ''cas'' (px_local p) (Hash d) \<noteq> None))"
    "sound l" "\<forall>k. entry k l = entry k (px_local p)" by blast
  from has_law [OF inv(2) assms(3)] obtain rm r where r: "has (px_remote p) d = Return (rm, r)" "inv rm"
    "\<forall>h. okh h \<longrightarrow> view rm h = view (px_remote p) h" "\<forall>b. r = Inr b \<longrightarrow> b = (view (px_remote p) (Hash d) \<noteq> None)" by blast
  show ?thesis
  proof (cases "entry ''cas'' (px_local p) (Hash d)")
    case (Some x)
    then have "px_Has has p d = Return (p\<lparr>px_local := l\<rparr>, Inr True)" using l(1) by (simp add: px_Has_def)
    then show ?thesis using l(2,3) inv(2) Some by (simp add: px_inv_def px_view_def split: option.split)
  next
    case None
    then have "px_Has has p d = Return (p\<lparr>px_local := l, px_remote := rm\<rparr>, r)" using l(1) r(1) by (simp add: px_Has_def)
    then show ?thesis using l(2,3) r(2-) None by (auto simp: px_inv_def px_view_def split: option.split)
  qed
qed

text \<open>Where the local tier has no copy, \<open>Get\<close> stores one, and returns it.\<close>

lemma px_get_law:
  assumes "px_inv inv p" "hexhash (Hash d)" "okh (Hash d)"
  shows "\<exists>t r. px_Get get None p d = Return (t, r) \<and> px_inv inv t \<and>
    (\<forall>h. hexhash h \<and> okh h \<longrightarrow> px_view view t h = px_view view p h) \<and>
    (case r of Inl e \<Rightarrow> IsNotExist e \<longrightarrow> px_view view p (Hash d) = None
     | Inr rd \<Rightarrow> px_view view p (Hash d) = Some (rd_bytes rd) \<and> rd_err rd = None \<and> entry ''cas'' (px_local t) (Hash d) = Some (rd_bytes rd))"
proof -
  have inv: "sound (px_local p)" "inv (px_remote p)" using assms(1) by (simp_all add: px_inv_def)
  from sound_Has [OF inv(1) assms(2)] obtain l where l: "Has (px_local p) d = Return (l, Inr (entry ''cas'' (px_local p) (Hash d) \<noteq> None))"
    "sound l" "\<forall>k. entry k l = entry k (px_local p)" by blast
  let ?p = "p\<lparr>px_local := l\<rparr>"
  show ?thesis
  proof (cases "entry ''cas'' (px_local p) (Hash d)")
    case (Some x)
    then have g: "px_Get get None p d = local_get ?p d" using l(1) by (simp add: px_Get_def)
    show ?thesis unfolding g
      using local_get_law [of ?p d x] l(2,3) assms(2) inv(2) Some
      by (auto simp: px_inv_def px_view_def split: option.split)
  next
    case None
    from get_law [OF inv(2) assms(3)] obtain rm r where r: "get (px_remote p) d = Return (rm, r)" "inv rm"
      "\<forall>h. okh h \<longrightarrow> view rm h = view (px_remote p) h"
      "case r of Inl e \<Rightarrow> IsNotExist e \<longrightarrow> view (px_remote p) (Hash d) = None
       | Inr rd \<Rightarrow> \<exists>x. view (px_remote p) (Hash d) = Some x \<and> (rd_err rd = None \<longrightarrow> rd_bytes rd = x) \<and> (\<exists>n. rd_bytes rd = take n x)" by blast
    show ?thesis
    proof (cases r)
      case (Inl e)
      then have "px_Get get None p d = Return (?p\<lparr>px_remote := rm\<rparr>, Inl e)"
        using l(1) r(1) None by (simp add: px_Get_def remote_fetch_def)
      then show ?thesis using l(2,3) r(2-) Inl None by (auto simp: px_inv_def px_view_def split: option.split)
    next
      case (Inr rc)
      with r(4) obtain x where x: "view (px_remote p) (Hash d) = Some x" "rd_err rc = None \<longrightarrow> rd_bytes rc = x" by auto
      from sound_Put [OF l(2) assms(2), of rc] obtain l' e where l': "Put l d rc = Return (l', e)" "sound l'"
        "\<forall>h. hexhash h \<longrightarrow> h \<noteq> Hash d \<longrightarrow> entry ''cas'' l' h = entry ''cas'' l h"
        "entry ''cas'' l' (Hash d) = entry ''cas'' l (Hash d) \<or> entry ''cas'' l' (Hash d) = Some (rd_bytes rc) \<and> rd_err rc = None"
        "e = None \<longrightarrow> entry ''cas'' l' (Hash d) = Some (rd_bytes rc) \<and> rd_err rc = None" by blast
      let ?q = "p\<lparr>px_remote := rm, px_local := l'\<rparr>"
      have views: "\<forall>h. hexhash h \<and> okh h \<longrightarrow> px_view view ?q h = px_view view p h"
        using l(3) l'(3,4) r(3) x None assms(2,3) by (auto simp: px_view_def split: option.split)
      have fetch: "remote_fetch get ?p d = Return (?q, e)" using r(1) Inr l'(1) by (simp add: remote_fetch_def)
      show ?thesis
      proof (cases e)
        case (Some err)
        then have "px_Get get None p d = Return (?q, Inl err)" using l(1) None fetch by (simp add: px_Get_def)
        moreover have "\<not> IsNotExist err" using Put_error l'(1) Some by blast
        ultimately show ?thesis using views l'(2) r(2) x(1) None by (simp add: px_inv_def)
      next
        case e: None
        then have g: "px_Get get None p d = local_get ?q d" using l(1) None fetch by (simp add: px_Get_def)
        from e l'(5) x(2) have x': "entry ''cas'' (px_local ?q) (Hash d) = Some x" by simp
        have "sound (px_local ?q)" using l'(2) by simp
        from local_get_law [OF this assms(2) x'] obtain t where t: "local_get ?q d = Return (t, Inr \<lparr>rd_bytes = x, rd_err = None\<rparr>)"
            "sound (px_local t)" "\<forall>k. entry k (px_local t) = entry k (px_local ?q)" "px_remote t = px_remote ?q" by blast
        have "px_view view t = px_view view ?q" by (rule px_view_cong) (use t in auto)
        moreover have "px_view view p (Hash d) = Some x" "px_inv inv t" "entry ''cas'' (px_local t) (Hash d) = Some x"
          using None x(1) t(2-4) r(2) x' by (simp_all add: px_view_def px_inv_def)
        ultimately show ?thesis unfolding g using t(1) views by simp
      qed
    qed
  qed
qed

text \<open>With any store behind it, the proxy is again a store to read from.\<close>

lemma px_reader: "blob_reader (px_Has has) (px_Get get None) (px_inv inv) (px_view view) (\<lambda>h. hexhash h \<and> okh h)"
proof unfold_locales
  fix p :: "'s ProxyStore" and d :: Digest
  assume p: "px_inv inv p" "hexhash (Hash d) \<and> okh (Hash d)"
  show "\<exists>t r. px_Has has p d = Return (t, r) \<and> px_inv inv t \<and>
      (\<forall>h. hexhash h \<and> okh h \<longrightarrow> px_view view t h = px_view view p h) \<and>
      (\<forall>b. r = Inr b \<longrightarrow> b = (px_view view p (Hash d) \<noteq> None))"
    using px_has_law [of p d] p by simp
  obtain t r where t: "px_Get get None p d = Return (t, r)" "px_inv inv t"
      "\<forall>h. hexhash h \<and> okh h \<longrightarrow> px_view view t h = px_view view p h"
      "case r of Inl e \<Rightarrow> IsNotExist e \<longrightarrow> px_view view p (Hash d) = None
       | Inr rd \<Rightarrow> px_view view p (Hash d) = Some (rd_bytes rd) \<and> rd_err rd = None \<and> entry ''cas'' (px_local t) (Hash d) = Some (rd_bytes rd)"
    using px_get_law [of p d] p by blast
  then show "\<exists>t r. px_Get get None p d = Return (t, r) \<and> px_inv inv t \<and>
      (\<forall>h. hexhash h \<and> okh h \<longrightarrow> px_view view t h = px_view view p h) \<and>
      (case r of Inl e \<Rightarrow> IsNotExist e \<longrightarrow> px_view view p (Hash d) = None
       | Inr rd \<Rightarrow> \<exists>x. px_view view p (Hash d) = Some x \<and> (rd_err rd = None \<longrightarrow> rd_bytes rd = x) \<and> (\<exists>n. rd_bytes rd = take n x))"
    using whole_take by (cases r) auto
qed

end

interpretation proxied_null: blob_reader "px_Has null_Has" "px_Get null_Get None" "px_inv (\<lambda>_. True)" "px_view (\<lambda>_ _. None)"
  "\<lambda>h. hexhash h \<and> True"
  by (rule null.px_reader)

interpretation proxied_local: blob_reader "px_Has Has" "px_Get Get None" "px_inv store_inv" "px_view (entry ''cas'')"
  "\<lambda>h. hexhash h \<and> hexhash h"
  by (rule local.px_reader)

context blob_store
begin

text \<open>A write that succeeds where the local tier had no copy has stored the bytes in both tiers.\<close>

lemma px_put_through:
  assumes "px_inv inv p" "hexhash (Hash d)" "okh (Hash d)" "entry ''cas'' (px_local p) (Hash d) = None"
    and "px_Put put None None seen p d data = Return (t, r)"
  shows "px_inv inv t \<and> (\<forall>h. hexhash h \<and> okh h \<longrightarrow> h \<noteq> Hash d \<longrightarrow> px_view view t h = px_view view p h) \<and>
    (r = None \<longrightarrow> rd_err data = None \<and> entry ''cas'' (px_local t) (Hash d) = Some (rd_bytes data) \<and>
       view (px_remote t) (Hash d) = Some (rd_bytes data))"
proof -
  have inv: "sound (px_local p)" "inv (px_remote p)" using assms(1) by (simp_all add: px_inv_def)
  from sound_Has [OF inv(1) assms(2)] assms(4) obtain l where l: "Has (px_local p) d = Return (l, Inr False)"
    "sound l" "\<forall>k. entry k l = entry k (px_local p)" by auto
  from sound_Put [OF l(2) assms(2), of data] obtain l' le where l': "Put l d data = Return (l', le)" "sound l'"
      "\<forall>h. hexhash h \<longrightarrow> h \<noteq> Hash d \<longrightarrow> entry ''cas'' l' h = entry ''cas'' l h"
      "le = None \<longrightarrow> entry ''cas'' l' (Hash d) = Some (rd_bytes data) \<and> rd_err data = None" by blast
  define rd where "rd = (case le of None \<Rightarrow> \<lparr>rd_bytes = rd_bytes data, rd_err = None\<rparr>
      | Some e \<Rightarrow> \<lparr>rd_bytes = take seen (rd_bytes data), rd_err = Some e\<rparr>)"
  from put_law [OF inv(2) assms(3), of rd] obtain rm re where rm: "put (px_remote p) d rd = Return (rm, re)" "inv rm"
      "\<forall>h. okh h \<longrightarrow> h \<noteq> Hash d \<longrightarrow> view rm h = view (px_remote p) h"
      "re = None \<longrightarrow> view rm (Hash d) = Some (rd_bytes rd)" by blast
  have "px_Put put None None seen p d data = Return (p\<lparr>px_local := l', px_remote := rm\<rparr>, if le \<noteq> None then le else re)"
    using l(1) l'(1) rm(1) by (simp add: px_Put_def putImpl_def rd_def)
  then have t: "t = p\<lparr>px_local := l', px_remote := rm\<rparr>" "r = (if le \<noteq> None then le else re)" using assms(5) by simp_all
  have "px_view view t h = px_view view p h" if "hexhash h" "okh h" "h \<noteq> Hash d" for h
    using that l(3) l'(3) rm(3) t(1) by (simp add: px_view_def split: option.split)
  moreover have "r = None \<longrightarrow> le = None \<and> re = None" using t(2) by auto
  moreover have "le = None \<longrightarrow> rd_bytes rd = rd_bytes data" by (simp add: rd_def)
  ultimately show ?thesis using l'(2,4) rm(2,4) t(1) by (auto simp: px_inv_def)
qed

end

text \<open>C24: Reading through the proxy: \<open>Get\<close> returns exactly the bytes one of the tiers holds, keeps a copy of them in
  the local tier, changes nothing a client can see, and reports a blob as absent only if both tiers lack it.
  The remote is any store that keeps the contract of a blob store; the local disk has no faults.\<close>

theorem proxy_get:
  assumes "blob_reader rhas rget rinv rview rokh" "px_inv rinv p" "hexhash (Hash d)" "rokh (Hash d)"
  shows "\<exists>t r. px_Get rget None p d = Return (t, r) \<and> px_inv rinv t \<and>
    (\<forall>h. hexhash h \<and> rokh h \<longrightarrow> px_view rview t h = px_view rview p h) \<and>
    (case r of Inl e \<Rightarrow> IsNotExist e \<longrightarrow> px_view rview p (Hash d) = None
     | Inr rd \<Rightarrow> px_view rview p (Hash d) = Some (rd_bytes rd) \<and> rd_err rd = None \<and>
                 entry ''cas'' (px_local t) (Hash d) = Some (rd_bytes rd))"
  using assms by (rule blob_reader.px_get_law)

definition proxy0 :: "LocalStore ProxyStore" where
  "proxy0 = NewProxyStore store0 store0 3"

lemma store0_empty: "entry k store0 h = None"
  by (simp add: entry_def store0_def disk0_def file_at_def lookup_def)

lemma store0_sound: "sound store0"
  using store0_inv by (simp add: sound_def faultless_def store0_def disk0_def)

lemma proxy0_inv: "px_inv store_inv proxy0"
  using store0_sound store0_inv by (simp add: px_inv_def proxy0_def NewProxyStore_def)

theorem proxy_get_witness:
  "\<exists>s t r. Put store0 digest1 reader1 = Return (s, None) \<and> px_Get Get None (proxy0\<lparr>px_remote := s\<rparr>) digest1 = Return (t, r) \<and>
     (case r of Inl e \<Rightarrow> \<not> IsNotExist e | Inr rd \<Rightarrow> rd_bytes rd = [1, 2] \<and> entry ''cas'' (px_local t) (Hash digest1) = Some [1, 2])"
proof -
  obtain s where s: "Put store0 digest1 reader1 = Return (s, None)" "store_inv s" using put0 by blast
  have e: "entry ''cas'' s (Hash digest1) = Some [1, 2]" using local.put_law [OF store0_inv digest1_hex, of reader1] s(1) by (auto simp: reader1_def)
  let ?p = "proxy0\<lparr>px_remote := s\<rparr>"
  have "px_inv store_inv ?p" using proxy0_inv s(2) by (simp add: px_inv_def)
  from proxy_get [OF local.blob_reader_axioms this digest1_hex digest1_hex] obtain t r where
    t: "px_Get Get None ?p digest1 = Return (t, r)"
      "case r of Inl e \<Rightarrow> IsNotExist e \<longrightarrow> px_view (entry ''cas'') ?p (Hash digest1) = None
       | Inr rd \<Rightarrow> px_view (entry ''cas'') ?p (Hash digest1) = Some (rd_bytes rd) \<and> rd_err rd = None \<and>
           entry ''cas'' (px_local t) (Hash digest1) = Some (rd_bytes rd)" by blast
  have "px_view (entry ''cas'') ?p (Hash digest1) = Some [1, 2]"
    using e by (simp add: px_view_def proxy0_def NewProxyStore_def store0_empty)
  then show ?thesis using s(1) t by (cases r) auto
qed


text \<open>The store after the first system call.\<close>

definition store0' :: LocalStore where
  "store0' = store0\<lparr>disk := disk0\<lparr>sysno := 1\<rparr>\<rparr>"

lemma Has_store0: "Has store0 digest1 = Return (store0', Inr False)"
proof -
  have "BlobPath store0 digest1 = Return (entry_at ''cas'' (rootDir store0) (Hash digest1))"
    unfolding BlobPath_def using store0_inv digest1_hex by (simp add: store_path)
  then show ?thesis using Stat_entry [OF store0_inv plain_kinds(1) digest1_hex] store0_empty
    by (simp add: Has_def store0'_def store0_def disk0_def file_at_def lookup_def)
qed

lemma put0': "\<exists>t. Put store0' digest1 reader1 = Return (t, None)"
proof -
  have "store_inv store0'" unfolding store0'_def using sysno_store(1) [OF store0_inv, of 1] by (simp add: store0_def)
  moreover have "room ''cas'' ''cas-tmp-'' store0' (Hash digest1)"
    by (simp add: room_def store0'_def store0_def disk0_def faultless_def lookup_def)
  ultimately show ?thesis using Put_total [OF _ digest1_hex, of store0' reader1] by (auto simp: digest1_def reader1_def)
qed


text \<open>A \<open>Put\<close> whose remote half fails is not repaired by trying again: the local tier keeps the blob, so the next
  \<open>Put\<close> of the same digest reports success without calling the remote, which still lacks the blob.\<close>

theorem put_retry_skips_remote:
  assumes "blob_store rhas rget rinv rview rokh rput" "px_inv rinv p" "hexhash (Hash d)" "rokh (Hash d)"
    and "entry ''cas'' (px_local p) (Hash d) = None"
    and "Has (px_local p) d = Return (l, Inr False)" "Put l d data = Return (l', None)"
    and "rput (px_remote p) d \<lparr>rd_bytes = rd_bytes data, rd_err = None\<rparr> = Return (rm, Some e)" "rview rm (Hash d) = None"
  shows "\<exists>t u. px_Put rput None None seen p d data = Return (t, Some e) \<and>
    px_Put rput flight early seen t d data' = Return (u, None) \<and> rview (px_remote u) (Hash d) = None"
proof -
  let ?t = "p\<lparr>px_local := l', px_remote := rm\<rparr>"
  have t: "px_Put rput None None seen p d data = Return (?t, Some e)"
    using assms(6-8) by (simp add: px_Put_def putImpl_def)
  have "px_inv rinv ?t" using blob_store.px_put_through [OF assms(1-5) t] by simp
  then have l': "sound l'" by (simp add: px_inv_def)
  have "sound (px_local p)" using assms(2) by (simp add: px_inv_def)
  with assms(3,6) have "sound l" using sound_Has [of "px_local p" d] by auto
  then have "entry ''cas'' l' (Hash d) \<noteq> None" using sound_Put [of l d data] assms(3,7) by auto
  with sound_Has [OF l' assms(3)] obtain l'' where "Has l' d = Return (l'', Inr True)" by auto
  then have "px_Put rput flight early seen ?t d data' = Return (?t\<lparr>px_local := l''\<rparr>, None)" by (simp add: px_Put_def)
  then show ?thesis using t assms(9) by auto
qed

text \<open>A remote store on a disk where every system call fails.\<close>

definition store_full :: LocalStore where
  "store_full = store0\<lparr>disk := disk0\<lparr>fault := (\<lambda>_. Some (ErrSys 28))\<rparr>\<rparr>"

lemma store_full_inv: "store_inv store_full"
  by (simp add: store_inv_def store_full_def store0_def disk0_def clean_path_def Clean_def fs_wf_def lookup_def)

lemma put_full: "\<exists>t e. Put store_full digest1 \<lparr>rd_bytes = rd_bytes reader1, rd_err = None\<rparr> = Return (t, Some e) \<and> entry ''cas'' t (Hash digest1) = None"
proof -
  have b: "BlobPath store_full digest1 = Return (entry_at ''cas'' (rootDir store_full) (Hash digest1))"
    unfolding BlobPath_def using store_full_inv digest1_hex by (simp add: store_path)
  have "\<exists>u e. MkdirAll (disk store_full) (parent (entry_at ''cas'' (rootDir store_full) (Hash digest1))) = (u, Inl e) \<and> nodes u = []"
    by (simp add: MkdirAll_def store_full_def store0_def disk0_def entry_at_def parent_def syscall_def is_dir_def lookup_def)
  then show ?thesis
    by (auto simp: Put_def b entry_def file_at_def lookup_def)
qed

theorem put_retry_skips_remote_witness:
  "\<exists>t u e. px_Put Put None None 2 (proxy0\<lparr>px_remote := store_full\<rparr>) digest1 reader1 = Return (t, Some e) \<and>
     px_Put Put None None 2 t digest1 reader1 = Return (u, None) \<and> entry ''cas'' (px_remote u) (Hash digest1) = None"
proof -
  let ?p = "proxy0\<lparr>px_remote := store_full\<rparr>"
  obtain l' where l': "Put store0' digest1 reader1 = Return (l', None)" using put0' by blast
  obtain rm e where rm: "Put store_full digest1 \<lparr>rd_bytes = rd_bytes reader1, rd_err = None\<rparr> = Return (rm, Some e)"
    "entry ''cas'' rm (Hash digest1) = None" using put_full by blast
  have "px_inv store_inv ?p" using proxy0_inv store_full_inv by (simp add: px_inv_def)
  from put_retry_skips_remote [OF local.blob_store_axioms this digest1_hex digest1_hex _ _ l', of rm e 2 None None reader1] rm show ?thesis
    by (auto simp: proxy0_def NewProxyStore_def store0_empty Has_store0)
qed

text \<open>A remote that reports success before it has read all the data, as the remote store does when its server already
  has the blob, makes the \<open>Put\<close> fail: the closed pipe becomes an error of the local half, and the local tier gets no copy.\<close>

theorem early_remote_success_fails:
  assumes "px_inv rinv p" "hexhash (Hash d)" "entry ''cas'' (px_local p) (Hash d) = None" "k < length (rd_bytes data)"
  shows "\<exists>t e. px_Put rput None (Some (k, rm, None)) seen p d data = Return (t, Some e) \<and> px_remote t = rm \<and>
    entry ''cas'' (px_local t) (Hash d) = None"
proof -
  have "sound (px_local p)" using assms(1) by (simp add: px_inv_def)
  from sound_Has [OF this assms(2)] assms(3) obtain l where l: "Has (px_local p) d = Return (l, Inr False)" "sound l"
    "\<forall>k. entry k l = entry k (px_local p)" by auto
  let ?rd = "\<lparr>rd_bytes = take k (rd_bytes data), rd_err = Some ErrClosedPipe\<rparr>"
  from sound_Put [OF l(2) assms(2), of ?rd] obtain l' le where l': "Put l d ?rd = Return (l', le)" "le \<noteq> None"
    "entry ''cas'' l' (Hash d) = entry ''cas'' l (Hash d)" by auto
  then show ?thesis using l(1,3) assms(3,4) by (auto simp: px_Put_def putImpl_def close_error_def)
qed

theorem early_remote_success_fails_witness:
  "\<exists>t e. px_Put Put None (Some (1, store0, None)) 2 proxy0 digest1 reader1 = Return (t, Some e) \<and>
     entry ''cas'' (px_local t) (Hash digest1) = None"
  using early_remote_success_fails [OF proxy0_inv digest1_hex, of 1 reader1 Put store0 2]
  by (auto simp: proxy0_def NewProxyStore_def store0_empty reader1_def)

text \<open>
  Uploading a file: with a live context and a file that can be opened, the remote is tried until it
  succeeds, at least once and at most as often as configured.
\<close>

fun failures :: "('r \<Rightarrow> Digest \<Rightarrow> reader \<Rightarrow> ('r \<times> goerr option) outcome) \<Rightarrow> (nat \<Rightarrow> goerr + reader) \<Rightarrow> nat \<Rightarrow> nat \<Rightarrow> 'r \<Rightarrow> Digest \<Rightarrow> 'r option" where
  "failures rput files i 0 rm d = Some rm"
| "failures rput files i (Suc k) rm d =
     (case files i of
        Inl e \<Rightarrow> None
      | Inr f \<Rightarrow> (case rput rm d f of
                  Return (rm', Some e) \<Rightarrow> failures rput files (Suc i) k rm' d
                | _ \<Rightarrow> None))"

lemma put_retry_iff:
  assumes "\<forall>i. \<not> ctxErr i" "0 < n"
  shows "put_retry rput files ctxErr n i lastErr rm d = Return (t, None) \<longleftrightarrow>
    (\<exists>k < n. \<exists>rm' f. failures rput files i k rm d = Some rm' \<and> files (i + k) = Inr f \<and> rput rm' d f = Return (t, None))"
  using assms(2)
proof (induction n arbitrary: i lastErr rm)
  case (Suc n)
  show ?case
  proof (cases "files i")
    case (Inl e)
    then show ?thesis by (simp add: Ex_less_Suc2)
  next
    case (Inr f)
    show ?thesis
    proof (cases "rput rm d f")
      case Panic
      then show ?thesis using Inr by (simp add: Ex_less_Suc2)
    next
      case (Return x)
      obtain rm' e where x: "x = (rm', e)" by (cases x)
      show ?thesis
      proof (cases e)
        case None
        then show ?thesis using Inr Return x by (auto simp: Ex_less_Suc2)
      next
        case (Some err)
        then show ?thesis using Inr Return x assms(1) Suc.IH [of "Suc i" "Some err" rm'] by (cases n) (auto simp: Ex_less_Suc2)
      qed
    qed
  qed
qed simp

end
