(* ===== verification/Sandbox.thy ===== *)
theory Sandbox
  imports Complex_Main OS "HOL-Library.List_Lexorder" "HOL-Library.Char_ord"
begin

text \<open>
Wrapping a command in linux-sandbox (\<^verbatim>\<open>pkg/sandbox/sandbox.go\<close>): the configuration, the check that the
  binary exists, the argument list of a wrapped command and its options as a parser of command lines reads them back,
  and the time limit in whole seconds with the rounding of float64 as a parameter.
\<close>

record SandboxConfig =
  sc_Enabled :: bool
  sc_BinaryPath :: string
  sc_NetworkIsolation :: bool
  sc_WritablePaths :: "string list"
  sc_KillDelay :: int
  sc_Debug :: bool

record Sandbox =
  sb_cfg :: SandboxConfig

text \<open>A path written as a string: what the kernel is asked for. The empty string names nothing.\<close>

definition to_path :: "string \<Rightarrow> path" where
  "to_path s =
     (case s of
        c # _ \<Rightarrow> if c = CHR ''/'' then Path True (Clean True (split_on (CHR ''/'') s))
                 else Path False (Clean False (split_on (CHR ''/'') s))
      | [] \<Rightarrow> Path False [])"

definition StatName :: "fsys \<Rightarrow> string \<Rightarrow> fsys \<times> (goerr + fileinfo)" where
  "StatName s name =
     (if name = [] then (s\<lparr>sysno := Suc (sysno s)\<rparr>, Inl ErrNotExist) else Stat s (to_path name))"

definition New :: "fsys \<Rightarrow> SandboxConfig \<Rightarrow> fsys \<times> (goerr + Sandbox option)" where
  "New s cfg =
     (if \<not> sc_Enabled cfg then (s, Inr None)
      else (case StatName s (sc_BinaryPath cfg) of
              (s, Inl err) \<Rightarrow> (s, Inl (Wrap ''linux-sandbox binary not found'' err))
            | (s, Inr _) \<Rightarrow> (s, Inr (Some \<lparr>sb_cfg = cfg\<rparr>))))"

text \<open>The mounts are a Go map: a list of its entries in the order the range loop finds them.\<close>

record WrapSpec =
  ExecRoot :: string
  ws_InputMounts :: "(string \<times> string) list"
  ws_WritablePaths :: "string list"
  ws_Timeout :: duration
  ws_Command :: "string list"

fun dedup :: "'a set \<Rightarrow> 'a list \<Rightarrow> 'a list" where
  "dedup seen [] = []"
| "dedup seen (p # ps) = (if p \<in> seen then dedup seen ps else p # dedup (insert p seen) ps)"

definition deduplicatePaths :: "'a list \<Rightarrow> 'a list" where
  "deduplicatePaths paths = dedup {} paths"

text \<open>
  \<open>int(d.Seconds())\<close>: whole seconds and nanoseconds are converted to float64 apart and added; \<open>rd\<close> is the
  f64_rounding of float64.
\<close>

definition whole_seconds :: "(rat \<Rightarrow> rat) \<Rightarrow> duration \<Rightarrow> int" where
  "whole_seconds rd d =
     (let sec = rd (of_int (d div second)); nsec = rd (of_int (d mod second))
      in \<lfloor>rd (sec + rd (nsec / 1000000000))\<rfloor>)"

definition mount_args :: "(string \<times> string) list \<Rightarrow> string list" where
  "mount_args mounts =
     concat (map (\<lambda>source. [''-M'', source, ''-m'', the (map_of mounts source)]) (sort (map fst mounts)))"

definition WrapCommand :: "(rat \<Rightarrow> rat) \<Rightarrow> Sandbox \<Rightarrow> WrapSpec \<Rightarrow> goerr + string list" where
  "WrapCommand rd s spec =
     (if ws_Command spec = [] then Inl (Errorf ''command cannot be empty'')
      else let cfg = sb_cfg s
           in Inr ([sc_BinaryPath cfg] @ [''-W'', ExecRoot spec] @
                   mount_args (ws_InputMounts spec) @
                   concat (map (\<lambda>p. [''-w'', p]) (sc_WritablePaths cfg)) @
                   concat (map (\<lambda>p. [''-w'', p]) (sort (deduplicatePaths (ws_WritablePaths spec)))) @
                   (if sc_NetworkIsolation cfg then [''-N''] else []) @
                   [''-H''] @
                   (if 0 < ws_Timeout spec
                    then [''-T'', show_int (whole_seconds rd (ws_Timeout spec)), ''-t'', show_int (sc_KillDelay cfg)]
                    else []) @
                   (if sc_Debug cfg then [''-D''] else []) @
                   [''--''] @ ws_Command spec))"

definition Enabled :: "Sandbox option \<Rightarrow> bool" where
  "Enabled s \<longleftrightarrow> (case s of None \<Rightarrow> False | Some s \<Rightarrow> sc_Enabled (sb_cfg s))"

section \<open>Lemmas\<close>

lemma dedup_set: "set (dedup seen xs) = set xs - seen"
  by (induction seen xs rule: dedup.induct) auto

lemma dedup_distinct: "distinct (dedup seen xs)"
  by (induction seen xs rule: dedup.induct) (auto simp: dedup_set)

lemma deduplicatePaths_set [simp]: "set (deduplicatePaths xs) = set xs"
  by (simp add: deduplicatePaths_def dedup_set)

lemma deduplicatePaths_distinct [simp]: "distinct (deduplicatePaths xs)"
  by (simp add: deduplicatePaths_def dedup_distinct)

lemma sort_deduplicate: "sort (deduplicatePaths xs) = sorted_list_of_set (set xs)"
  for xs :: "'a :: linorder list"
  by (rule sorted_distinct_set_unique) simp_all

text \<open>The arguments depend on the mounts as a map, not on the order the range loop finds them in.\<close>

lemma mount_args_order:
  assumes "distinct (map fst ms)" "distinct (map fst ns)" "map_of ms = map_of ns"
  shows "mount_args ms = mount_args ns"
proof -
  have "set (map fst ms) = set (map fst ns)"
    using assms(3) by (metis dom_map_of_conv_image_fst list.set_map)
  then have "sort (map fst ms) = sort (map fst ns)"
    using assms(1,2) by (intro sorted_distinct_set_unique) simp_all
  then show ?thesis using assms(3) by (simp add: mount_args_def)
qed

text \<open>
  How an option parser with the option string \<^verbatim>\<open>W:M:m:w:NHT:t:D\<close> reads the arguments: an option with a value takes
  the next argument as it is.
\<close>

datatype opt = Val char string | Flag char

fun getopt :: "string list \<Rightarrow> (opt list \<times> string list) option" where
  "getopt [] = Some ([], [])"
| "getopt (a # rest) =
     (case a of
        [d, c] \<Rightarrow>
          if d \<noteq> CHR ''-'' then Some ([], a # rest)
          else if c = CHR ''-'' then Some ([], rest)
          else if c \<in> set ''NHD'' then map_option (\<lambda>(os, cmd). (Flag c # os, cmd)) (getopt rest)
          else if c \<in> set ''WMmwTt''
          then (case rest of
                  [] \<Rightarrow> None
                | v # rest \<Rightarrow> map_option (\<lambda>(os, cmd). (Val c v # os, cmd)) (getopt rest))
          else None
      | _ \<Rightarrow> Some ([], a # rest))"

definition then_opts :: "opt list \<Rightarrow> (opt list \<times> string list) option \<Rightarrow> (opt list \<times> string list) option" where
  "then_opts os r = map_option (\<lambda>(os', cmd). (os @ os', cmd)) r"

lemma then_opts_simps [simp]:
  "then_opts os None = None" "then_opts os (Some (os', cmd)) = Some (os @ os', cmd)"
  "then_opts os (then_opts os' r) = then_opts (os @ os') r" "then_opts [] r = r"
  by (simp_all add: then_opts_def option.map_comp comp_def split_def option.map_ident)

lemma getopt_val: "c \<in> set ''WMmwTt'' \<Longrightarrow> getopt ([CHR ''-'', c] # v # rest) = then_opts [Val c v] (getopt rest)"
  by (auto simp: then_opts_def)

lemma getopt_flag: "c \<in> set ''NHD'' \<Longrightarrow> getopt ([CHR ''-'', c] # rest) = then_opts [Flag c] (getopt rest)"
  by (auto simp: then_opts_def)

lemma getopt_end: "getopt (''--'' # rest) = Some ([], rest)"
  by simp

declare getopt.simps [simp del]

lemma getopt_writable:
  "getopt (concat (map (\<lambda>p. [''-w'', p]) ps) @ rest) = then_opts (map (Val (CHR ''w'')) ps) (getopt rest)"
  by (induction ps) (simp_all add: getopt_val)

lemma getopt_mounts:
  "getopt (concat (map (\<lambda>x. [''-M'', x, ''-m'', f x]) xs) @ rest) =
     then_opts (concat (map (\<lambda>x. [Val (CHR ''M'') x, Val (CHR ''m'') (f x)]) xs)) (getopt rest)"
  by (induction xs) (simp_all add: getopt_val)

text \<open>The options a specification stands for.\<close>

definition spec_opts :: "(rat \<Rightarrow> rat) \<Rightarrow> SandboxConfig \<Rightarrow> WrapSpec \<Rightarrow> opt list" where
  "spec_opts rd cfg spec =
     Val (CHR ''W'') (ExecRoot spec) #
     concat (map (\<lambda>x. [Val (CHR ''M'') x, Val (CHR ''m'') (the (map_of (ws_InputMounts spec) x))])
       (sorted_list_of_set (fst ` set (ws_InputMounts spec)))) @
     map (Val (CHR ''w'')) (sc_WritablePaths cfg @ sorted_list_of_set (set (ws_WritablePaths spec))) @
     (if sc_NetworkIsolation cfg then [Flag (CHR ''N'')] else []) @ [Flag (CHR ''H'')] @
     (if 0 < ws_Timeout spec
      then [Val (CHR ''T'') (show_int (whole_seconds rd (ws_Timeout spec))), Val (CHR ''t'') (show_int (sc_KillDelay cfg))]
      else []) @
     (if sc_Debug cfg then [Flag (CHR ''D'')] else [])"


definition sandbox0 :: Sandbox where
  "sandbox0 = \<lparr>sb_cfg = \<lparr>sc_Enabled = True, sc_BinaryPath = ''sb'', sc_NetworkIsolation = True, sc_WritablePaths = [''t''],
                          sc_KillDelay = 5, sc_Debug = False\<rparr>\<rparr>"

definition spec0 :: WrapSpec where
  "spec0 = \<lparr>ExecRoot = ''-N'', ws_InputMounts = [(''b'', ''--''), (''a'', ''c'')], ws_WritablePaths = [''o'', ''o''],
            ws_Timeout = 0, ws_Command = [''--'', ''x'']\<rparr>"


text \<open>
  Rounding to float64: monotone and exact on the integers up to 2^53.
\<close>

definition f64_rounding :: "(rat \<Rightarrow> rat) \<Rightarrow> bool" where
  "f64_rounding rd \<longleftrightarrow> mono rd \<and> (\<forall>i. \<bar>i\<bar> \<le> 2 ^ 53 \<longrightarrow> rd (of_int i) = of_int i)"

text \<open>The time limit passed to the sandbox is the time limit in whole seconds, rounded down, or one second more where
  the sum in float64 rounds up; it is never less, so a limit below one second becomes 0 or 1.\<close>

theorem sandbox_timeout_bounds:
  assumes "f64_rounding rd" "0 < d" "d < 2 ^ 63"
  shows "whole_seconds rd d \<in> {d div second, d div second + 1}"
proof -
  let ?q = "d div second" and ?r = "d mod second"
  have q: "0 \<le> ?q" "?q + 1 \<le> 2 ^ 53" "0 \<le> ?r" "?r \<le> 1000000000" "?r \<le> 2 ^ 53"
    using assms(2,3) by (auto simp: second_def intro: order.trans [OF less_imp_le [OF pos_mod_bound]])
  have ex: "rd (of_int i) = of_int i" if "\<bar>i\<bar> \<le> 2 ^ 53" for i using assms(1) that by (auto simp: f64_rounding_def)
  have mn: "x \<le> y \<Longrightarrow> rd x \<le> rd y" for x y using assms(1) by (auto simp: f64_rounding_def mono_def)
  define f where "f = rd (of_int ?r / 1000000000)"
  have f: "0 \<le> f" "f \<le> 1"
    using mn [of 0 "of_int ?r / 1000000000"] mn [of "of_int ?r / 1000000000" 1] ex [of 0] ex [of 1] q
    by (auto simp: f_def divide_le_eq)
  have "of_int ?q \<le> rd (of_int ?q + f)" using mn [of "of_int ?q" "of_int ?q + f"] ex [of ?q] f q by simp
  moreover have "rd (of_int ?q + f) \<le> of_int (?q + 1)"
    using mn [of "of_int ?q + f" "of_int (?q + 1)"] ex [of "?q + 1"] f q by simp
  moreover have "whole_seconds rd d = \<lfloor>rd (of_int ?q + f)\<rfloor>"
    using q by (simp add: whole_seconds_def Let_def ex f_def)
  ultimately show ?thesis by (simp add: floor_eq_iff) linarith
qed

theorem sandbox_timeout_bounds_witness: "f64_rounding id \<and> whole_seconds id (3 * second + 5) \<in> {3, 4}"
proof -
  have r: "f64_rounding id" by (simp add: f64_rounding_def mono_def)
  have "(3 * second + 5) div second = 3" by (simp add: second_def)
  with sandbox_timeout_bounds [OF r, of "3 * second + 5"] r show ?thesis by (simp add: second_def)
qed

end
