(* ===== verification/Persistent.thy ===== *)
theory Persistent
  imports OS
begin

text \<open>
Persistent worker processes (\<^verbatim>\<open>pkg/execution/persistent.go\<close>): the length-prefixed framing on the pipes, the
  manager's map of workers and restart commands with a heap of the processes it ever started, requests with the
  goroutines that read the responses, and \<open>Execute\<close> with its one restart. What a worker process answers is a
  parameter.
\<close>

section \<open>Framing\<close>

text \<open>\<open>binary.LittleEndian\<close>: the four bytes of a length and back.\<close>

definition PutUint32 :: "32 word \<Rightarrow> bytes" where
  "PutUint32 v = [ucast v, ucast (drop_bit 8 v), ucast (drop_bit 16 v), ucast (drop_bit 24 v)]"

definition Uint32 :: "bytes \<Rightarrow> 32 word" where
  "Uint32 b = or (ucast (b ! 0)) (or (push_bit 8 (ucast (b ! 1))) (or (push_bit 16 (ucast (b ! 2))) (push_bit 24 (ucast (b ! 3)))))"

record Input =
  in_path :: string
  in_digest :: bytes

record WorkRequest =
  wr_Arguments :: "string list"
  wr_Inputs :: "Input list"
  wr_Cancel :: bool

record WorkResponse =
  wp_ExitCode :: "32 word"
  wp_Output :: string
  wp_RequestId :: "32 word"
  wp_WasCancelled :: bool

record WorkResult =
  wr_ExitCode :: int
  wr_Output :: string
  wr_RequestId :: "32 word"
  wr_WasCancelled :: bool

text \<open>Marshalling of requests and unmarshalling of responses.\<close>

record wpcodec =
  marshal_req :: "WorkRequest \<Rightarrow> goerr + bytes"
  unmarshal_resp :: "bytes \<Rightarrow> goerr + WorkResponse"

text \<open>
  \<open>writeProto\<close>: what it has written and its error. \<open>werr i\<close> is the error of the \<open>i\<close>-th write, with the number of bytes
  written before it.
\<close>

definition writeProto :: "wpcodec \<Rightarrow> (nat \<Rightarrow> (goerr \<times> nat) option) \<Rightarrow> WorkRequest \<Rightarrow> bytes \<times> goerr option" where
  "writeProto C werr msg =
     (case marshal_req C msg of
        Inl err \<Rightarrow> ([], Some err)
      | Inr data \<Rightarrow>
          let lenBuf = PutUint32 (of_nat (length data))
          in case werr 0 of
               Some (err, n) \<Rightarrow> (take n lenBuf, Some err)
             | None \<Rightarrow>
                 (case werr 1 of
                    Some (err, n) \<Rightarrow> (lenBuf @ take n data, Some err)
                  | None \<Rightarrow> (lenBuf @ data, None)))"

text \<open>
  \<open>io.ReadFull\<close> on a pipe with the unread bytes \<open>out\<close>: \<open>None\<close> where it waits for more. \<open>en\<close> is the error that ends the
  stream, if it has ended.
\<close>

definition ReadFull :: "goerr option \<Rightarrow> bytes \<Rightarrow> nat \<Rightarrow> ((goerr + bytes) \<times> bytes) option" where
  "ReadFull en out n =
     (if n \<le> length out then Some (Inr (take n out), drop n out)
      else map_option (\<lambda>err. (Inl (if err = ErrEOF \<and> out \<noteq> [] then ErrUnexpectedEOF else err), [])) en)"

definition readProto :: "wpcodec \<Rightarrow> goerr option \<Rightarrow> bytes \<Rightarrow> ((goerr + WorkResponse) \<times> bytes) option" where
  "readProto C en out =
     (case ReadFull en out 4 of
        None \<Rightarrow> None
      | Some (Inl err, out) \<Rightarrow> Some (Inl err, out)
      | Some (Inr lenBuf, out) \<Rightarrow>
          (case ReadFull en out (unat (Uint32 lenBuf)) of
             None \<Rightarrow> None
           | Some (Inl err, out) \<Rightarrow> Some (Inl err, out)
           | Some (Inr data, out) \<Rightarrow> Some (unmarshal_resp C data, out)))"

section \<open>Worker processes\<close>

record Cmd =
  cmd_Path :: string
  cmd_Args :: "string list"
  cmd_Env :: "string list"
  cmd_Dir :: string

text \<open>A goroutine of \<open>sendRequest\<close> that reads a response: before the length, before the data, or finished.\<close>

datatype phase = WantLen | WantData nat | Got "goerr + WorkResponse"

text \<open>
  A \<open>managedWorker\<close> and its process: \<open>ProcessState\<close> is set by \<open>Wait\<close> only and says whether the process exited by
  itself, \<open>pr_sent\<close> is all that was written to its standard input, \<open>pr_out\<close> what it has written and nobody has
  read, \<open>pr_end\<close> the error after that, once the stream has ended.
\<close>

record managedWorker =
  pr_key :: string
  pr_cmd :: Cmd
  pr_Process :: bool
  pr_ProcessState :: "bool option"
  pr_stdin_open :: bool
  pr_stdout_open :: bool
  pr_sent :: bytes
  pr_out :: bytes
  pr_end :: "goerr option"
  pr_readers :: "phase list"

record PersistentWorkerManager =
  workers :: "(string \<times> nat) list"
  restart :: "(string \<times> Cmd) list"
  procs :: "nat \<Rightarrow> managedWorker option"
  next_proc :: nat

definition NewPersistentWorkerManager :: PersistentWorkerManager where
  "NewPersistentWorkerManager = \<lparr>workers = [], restart = [], procs = Map.empty, next_proc = 0\<rparr>"

definition SetRestartCommand :: "PersistentWorkerManager \<Rightarrow> string \<Rightarrow> Cmd \<Rightarrow> PersistentWorkerManager" where
  "SetRestartCommand m key cmd = m\<lparr>restart := AList.update key cmd (restart m)\<rparr>"

definition upd_proc :: "PersistentWorkerManager \<Rightarrow> nat \<Rightarrow> (managedWorker \<Rightarrow> managedWorker) \<Rightarrow> PersistentWorkerManager" where
  "upd_proc m a f = m\<lparr>procs := (procs m)(a := map_option f (procs m a))\<rparr>"

definition close_pipes :: "managedWorker \<Rightarrow> managedWorker" where
  "close_pipes w = w\<lparr>pr_stdin_open := False, pr_stdout_open := False, pr_end := Some ErrClosedPipe, pr_out := []\<rparr>"

text \<open>\<open>Kill\<close> and \<open>Wait\<close>; \<open>exited\<close> says whether the process had exited before the signal.\<close>

definition kill_wait :: "bool \<Rightarrow> managedWorker \<Rightarrow> managedWorker" where
  "kill_wait exited w = (if pr_Process w then w\<lparr>pr_ProcessState := Some exited\<rparr> else w)"

text \<open>The errors of the two pipes and of starting the process.\<close>

record start_env =
  st_stdin :: "goerr option"
  st_stdout :: "goerr option"
  st_start :: "goerr option"

definition startWorker :: "start_env \<Rightarrow> PersistentWorkerManager \<Rightarrow> string \<Rightarrow> Cmd \<Rightarrow> PersistentWorkerManager \<times> (goerr + nat)" where
  "startWorker e m key cmd =
     (case st_stdin e of
        Some err \<Rightarrow> (m, Inl (Wrap ''failed to create stdin pipe'' err))
      | None \<Rightarrow>
          (case st_stdout e of
             Some err \<Rightarrow> (m, Inl (Wrap ''failed to create stdout pipe'' err))
           | None \<Rightarrow>
               (case st_start e of
                  Some err \<Rightarrow> (m, Inl (Wrap ''failed to start worker process'' err))
                | None \<Rightarrow>
                    (m\<lparr>restart := (if map_of (restart m) key = None then AList.update key cmd (restart m) else restart m),
                       procs := (procs m)(next_proc m \<mapsto>
                         \<lparr>pr_key = key, pr_cmd = cmd, pr_Process = True, pr_ProcessState = None, pr_stdin_open = True,
                          pr_stdout_open = True, pr_sent = [], pr_out = [], pr_end = None, pr_readers = []\<rparr>),
                       next_proc := Suc (next_proc m)\<rparr>,
                     Inr (next_proc m)))))"

definition alive :: "managedWorker \<Rightarrow> bool" where
  "alive w \<longleftrightarrow> pr_Process w \<and> (pr_ProcessState w = None \<or> pr_ProcessState w = Some False)"

definition start_and_store ::
  "start_env \<Rightarrow> PersistentWorkerManager \<Rightarrow> string \<Rightarrow> Cmd \<Rightarrow> PersistentWorkerManager \<times> (goerr + nat)" where
  "start_and_store e m key cmd =
     (case startWorker e m key cmd of
        (m, Inl err) \<Rightarrow> (m, Inl err)
      | (m, Inr a) \<Rightarrow> (m\<lparr>workers := AList.update key a (workers m)\<rparr>, Inr a))"

definition getOrCreateWorker ::
  "start_env \<Rightarrow> PersistentWorkerManager \<Rightarrow> string \<Rightarrow> Cmd option \<Rightarrow> PersistentWorkerManager \<times> (goerr + nat)" where
  "getOrCreateWorker e m key cmd =
     (let create = (\<lambda>m. case cmd of
                           None \<Rightarrow> (m, Inl (Errorf ''no worker exists and no command provided''))
                         | Some cmd \<Rightarrow> start_and_store e m key cmd)
      in case map_of (workers m) key of
           None \<Rightarrow> create m
         | Some a \<Rightarrow>
             if (case procs m a of None \<Rightarrow> False | Some w \<Rightarrow> alive w) then (m, Inr a)
             else create ((upd_proc m a close_pipes)\<lparr>workers := AList.delete key (workers m)\<rparr>))"

definition restartWorker ::
  "start_env \<Rightarrow> bool \<Rightarrow> PersistentWorkerManager \<Rightarrow> string \<Rightarrow> PersistentWorkerManager \<times> (goerr + nat)" where
  "restartWorker e exited m key =
     (let m = (case map_of (workers m) key of
                 None \<Rightarrow> m
               | Some a \<Rightarrow> (upd_proc m a (kill_wait exited \<circ> close_pipes))\<lparr>workers := AList.delete key (workers m)\<rparr>)
      in case map_of (restart m) key of
           None \<Rightarrow> (m, Inl (Errorf ''no restart command registered''))
         | Some cmd \<Rightarrow> start_and_store e m key cmd)"

fun shutdown_loop :: "(nat \<Rightarrow> bool) \<Rightarrow> (string \<times> nat) list \<Rightarrow> PersistentWorkerManager \<Rightarrow> PersistentWorkerManager" where
  "shutdown_loop exited [] m = m"
| "shutdown_loop exited ((key, a) # ws) m =
     shutdown_loop exited ws
       ((upd_proc m a (kill_wait (exited a) \<circ> close_pipes))\<lparr>workers := AList.delete key (workers m)\<rparr>)"

definition Shutdown :: "(nat \<Rightarrow> bool) \<Rightarrow> PersistentWorkerManager \<Rightarrow> PersistentWorkerManager" where
  "Shutdown exited m = shutdown_loop exited (workers m) m"

section \<open>Requests\<close>

text \<open>One step of the \<open>i\<close>-th reading goroutine of a worker, on the readers and the unread bytes.\<close>

definition read_step :: "wpcodec \<Rightarrow> goerr option \<Rightarrow> phase list \<times> bytes \<Rightarrow> nat \<Rightarrow> phase list \<times> bytes" where
  "read_step C en = (\<lambda>(rs, out) i.
     if length rs \<le> i then (rs, out)
     else (case rs ! i of
             WantLen \<Rightarrow>
               (case ReadFull en out 4 of
                  None \<Rightarrow> (rs, out)
                | Some (Inl err, out) \<Rightarrow> (rs[i := Got (Inl err)], out)
                | Some (Inr lenBuf, out) \<Rightarrow> (rs[i := WantData (unat (Uint32 lenBuf))], out))
           | WantData n \<Rightarrow>
               (case ReadFull en out n of
                  None \<Rightarrow> (rs, out)
                | Some (Inl err, out) \<Rightarrow> (rs[i := Got (Inl err)], out)
                | Some (Inr data, out) \<Rightarrow> (rs[i := Got (unmarshal_resp C data)], out))
           | Got _ \<Rightarrow> (rs, out)))"

text \<open>
  What a request finds: the errors of its writes, whether its select takes the end of the context, and the order in
  which the readers of the worker run. Readers of earlier requests that gave up may still be there.
\<close>

record send_env =
  sv_werr :: "nat \<Rightarrow> (goerr \<times> nat) option"
  sv_ctx :: bool
  sv_order :: "nat list"

definition work_result :: "WorkResponse \<Rightarrow> WorkResult" where
  "work_result resp = \<lparr>wr_ExitCode = sint (wp_ExitCode resp), wr_Output = wp_Output resp, wr_RequestId = wp_RequestId resp,
                       wr_WasCancelled = wp_WasCancelled resp\<rparr>"

text \<open>
  \<open>sendRequest\<close> on the worker at address \<open>a\<close>. \<open>B cmd sent new\<close> is what the process writes when \<open>new\<close> arrives after \<open>sent\<close>.
  The result is \<open>None\<close> while the call waits for the response.
\<close>

definition sendRequest ::
  "wpcodec \<Rightarrow> (Cmd \<Rightarrow> bytes \<Rightarrow> bytes \<Rightarrow> bytes) \<Rightarrow> send_env \<Rightarrow> PersistentWorkerManager \<Rightarrow> nat \<Rightarrow> WorkRequest \<Rightarrow>
   PersistentWorkerManager \<times> (goerr + WorkResult) option" where
  "sendRequest C B e m a req =
     (case procs m a of
        None \<Rightarrow> (m, None)
      | Some w \<Rightarrow>
          (case writeProto C (if pr_stdin_open w then sv_werr e else (\<lambda>_. Some (ErrClosedPipe, 0))) req of
             (new, werr) \<Rightarrow>
               (let w = w\<lparr>pr_sent := pr_sent w @ new,
                          pr_out := pr_out w @ (if pr_end w = None then B (pr_cmd w) (pr_sent w) new else [])\<rparr>
                in case werr of
                     Some err \<Rightarrow> (upd_proc m a (\<lambda>_. w), Some (Inl (Wrap ''failed to write request'' err)))
                   | None \<Rightarrow>
                       (case foldl (read_step C (pr_end w)) (pr_readers w @ [WantLen], pr_out w) (sv_order e) of
                          (rs, out) \<Rightarrow>
                            if sv_ctx e
                            then (upd_proc m a (\<lambda>_. w\<lparr>pr_readers := rs, pr_out := out\<rparr>), Some (Inl CtxErr))
                            else (case last rs of
                                    Got (Inl err) \<Rightarrow>
                                      (upd_proc m a (\<lambda>_. w\<lparr>pr_readers := butlast rs, pr_out := out\<rparr>),
                                       Some (Inl (Wrap ''failed to read response'' err)))
                                  | Got (Inr resp) \<Rightarrow>
                                      (upd_proc m a (\<lambda>_. w\<lparr>pr_readers := butlast rs, pr_out := out\<rparr>),
                                       Some (Inr (work_result resp)))
                                  | _ \<Rightarrow> (upd_proc m a (\<lambda>_. w\<lparr>pr_readers := rs, pr_out := out\<rparr>), None))))))"

text \<open>What the two attempts of \<open>Execute\<close> find.\<close>

record pw_env =
  xe_create :: start_env
  xe_send :: send_env
  xe_restart :: start_env
  xe_exited :: bool
  xe_resend :: send_env

definition pw_Execute ::
  "wpcodec \<Rightarrow> (Cmd \<Rightarrow> bytes \<Rightarrow> bytes \<Rightarrow> bytes) \<Rightarrow> pw_env \<Rightarrow> PersistentWorkerManager \<Rightarrow> string \<Rightarrow> Cmd option \<Rightarrow> string list \<Rightarrow>
   Input list \<Rightarrow> bool \<Rightarrow> PersistentWorkerManager \<times> (goerr + WorkResult) option" where
  "pw_Execute C B e m key cmd arguments inputs cancel =
     (let req = \<lparr>wr_Arguments = arguments, wr_Inputs = inputs, wr_Cancel = cancel\<rparr>
      in case getOrCreateWorker (xe_create e) m key cmd of
           (m, Inl err) \<Rightarrow> (m, Some (Inl (Wrap ''failed to get/create worker'' err)))
         | (m, Inr a) \<Rightarrow>
             (case sendRequest C B (xe_send e) m a req of
                (m, None) \<Rightarrow> (m, None)
              | (m, Some (Inr r)) \<Rightarrow> (m, Some (Inr r))
              | (m, Some (Inl err)) \<Rightarrow>
                  (case restartWorker (xe_restart e) (xe_exited e) m key of
                     (m, Inl restartErr) \<Rightarrow> (m, Some (Inl (Wrap ''worker died and restart failed'' err)))
                   | (m, Inr a) \<Rightarrow>
                       (case sendRequest C B (xe_resend e) m a req of
                          (m, None) \<Rightarrow> (m, None)
                        | (m, Some (Inr r)) \<Rightarrow> (m, Some (Inr r))
                        | (m, Some (Inl err)) \<Rightarrow> (m, Some (Inl (Wrap ''worker failed after restart'' err)))))))"

section \<open>Lemmas on the framing\<close>

lemma length_PutUint32 [simp]: "length (PutUint32 v) = 4"
  by (simp add: PutUint32_def)

lemma PutUint32_not_Nil [simp]: "PutUint32 v \<noteq> []"
  by (simp add: PutUint32_def)

lemma Uint32_PutUint32 [simp]: "Uint32 (PutUint32 v) = v"
proof (rule bit_word_eqI)
  fix n assume "n < LENGTH(32)"
  then consider "n < 8" | "8 \<le> n" "n < 16" | "16 \<le> n" "n < 24" | "24 \<le> n" "n < 32" by fastforce
  then show "bit (Uint32 (PutUint32 v)) n = bit v n"
    by cases (auto simp: Uint32_def PutUint32_def bit_simps)
qed

definition frame :: "bytes \<Rightarrow> bytes" where
  "frame data = PutUint32 (of_nat (length data)) @ data"

lemma writeProto_frame: "marshal_req C req = Inr data \<Longrightarrow> writeProto C (\<lambda>_. None) req = (frame data, None)"
  by (simp add: writeProto_def frame_def)

lemma unat_len: "n < 2 ^ 32 \<Longrightarrow> unat (of_nat n :: 32 word) = n"
  by (simp add: unat_of_nat)

lemma readProto_frame:
  "length data < 2 ^ 32 \<Longrightarrow> readProto C en (frame data @ rest) = Some (unmarshal_resp C data, rest)"
  by (simp add: readProto_def ReadFull_def frame_def unat_len)

lemma readProto_wraps:
  assumes "2 ^ 32 \<le> length data"
  shows "readProto C en (frame data) =
    Some (unmarshal_resp C (take (length data mod 2 ^ 32) data), drop (length data mod 2 ^ 32) data)"
proof -
  have "unat (of_nat (length data) :: 32 word) = length data mod 2 ^ 32" by (simp add: unat_of_nat)
  moreover have "length data mod 2 ^ 32 \<le> length data" by simp
  ultimately show ?thesis by (simp add: readProto_def ReadFull_def frame_def)
qed

lemma readProto_truncated:
  assumes "length data < 2 ^ 32" "k < length (frame data)"
  shows "readProto C (Some ErrEOF) (take k (frame data)) =
    Some (Inl (if k = 0 \<or> k = 4 then ErrEOF else ErrUnexpectedEOF), [])"
proof (cases "k < 4")
  case True
  then show ?thesis by (auto simp: readProto_def ReadFull_def frame_def)
next
  case False
  then have "take k (frame data) = PutUint32 (of_nat (length data)) @ take (k - 4) data" by (simp add: frame_def)
  moreover have "k - 4 < length data" using False assms(2) by (simp add: frame_def)
  ultimately show ?thesis using False assms(1) by (auto simp: readProto_def ReadFull_def unat_len)
qed

fun readProtos :: "wpcodec \<Rightarrow> goerr option \<Rightarrow> nat \<Rightarrow> bytes \<Rightarrow> ((goerr + WorkResponse) list \<times> bytes) option" where
  "readProtos C en 0 out = Some ([], out)"
| "readProtos C en (Suc k) out =
     (case readProto C en out of
        None \<Rightarrow> None
      | Some (r, out) \<Rightarrow> map_option (\<lambda>(rs, out). (r # rs, out)) (readProtos C en k out))"

lemma readProtos_frames:
  "(\<forall>d \<in> set ds. length d < 2 ^ 32) \<Longrightarrow>
   readProtos C en (length ds) (concat (map frame ds) @ rest) = Some (map (unmarshal_resp C) ds, rest)"
  by (induction ds) (simp_all add: readProto_frame)

text \<open>C29: Messages written one after the other with writeProto are read back one by one by readProto, in order and
  without a byte left over, as long as each is shorter than 2^32 bytes; a stream that ends inside a message gives an
  error and never a message.\<close>

theorem frame_roundtrip:
  assumes "list_all2 (\<lambda>req d. marshal_req C req = Inr d \<and> length d < 2 ^ 32) reqs ds"
  shows "readProtos C en (length reqs) (concat (map (fst \<circ> writeProto C (\<lambda>_. None)) reqs) @ rest) =
      Some (map (unmarshal_resp C) ds, rest) \<and>
    (\<forall>req \<in> set reqs. \<forall>k < length (fst (writeProto C (\<lambda>_. None) req)).
      \<exists>err. readProto C (Some ErrEOF) (take k (fst (writeProto C (\<lambda>_. None) req))) = Some (Inl err, []))"
proof
  have "map (fst \<circ> writeProto C (\<lambda>_. None)) reqs = map frame ds"
    using assms by (induction rule: list_all2_induct) (simp_all add: writeProto_frame)
  moreover have "\<forall>d \<in> set ds. length d < 2 ^ 32" using assms by (auto simp: list_all2_conv_all_nth in_set_conv_nth)
  moreover have "length reqs = length ds" using assms by (rule list_all2_lengthD)
  ultimately show "readProtos C en (length reqs) (concat (map (fst \<circ> writeProto C (\<lambda>_. None)) reqs) @ rest) =
      Some (map (unmarshal_resp C) ds, rest)" using readProtos_frames [of ds] by simp
  show "\<forall>req \<in> set reqs. \<forall>k < length (fst (writeProto C (\<lambda>_. None) req)).
      \<exists>err. readProto C (Some ErrEOF) (take k (fst (writeProto C (\<lambda>_. None) req))) = Some (Inl err, [])"
  proof (intro ballI allI impI)
    fix req k assume r: "req \<in> set reqs" and k: "k < length (fst (writeProto C (\<lambda>_. None) req))"
    from r assms obtain d where "marshal_req C req = Inr d" "length d < 2 ^ 32"
      by (auto simp: list_all2_conv_all_nth in_set_conv_nth)
    with k show "\<exists>err. readProto C (Some ErrEOF) (take k (fst (writeProto C (\<lambda>_. None) req))) = Some (Inl err, [])"
      by (simp add: writeProto_frame readProto_truncated)
  qed
qed

definition wpcodec0 :: wpcodec where
  "wpcodec0 = \<lparr>marshal_req = (\<lambda>r. Inr (map (\<lambda>a. of_nat (length a)) (wr_Arguments r))),
     unmarshal_resp = (\<lambda>d. Inr \<lparr>wp_ExitCode = of_nat (length d), wp_Output = [], wp_RequestId = 0, wp_WasCancelled = False\<rparr>)\<rparr>"

definition request0 :: "string list \<Rightarrow> WorkRequest" where
  "request0 args = \<lparr>wr_Arguments = args, wr_Inputs = [], wr_Cancel = False\<rparr>"

theorem frame_roundtrip_witness:
  "readProtos wpcodec0 None 2 (concat (map (fst \<circ> writeProto wpcodec0 (\<lambda>_. None)) [request0 [''a''], request0 []]) @ [7]) =
     Some (map (unmarshal_resp wpcodec0) [[1], []], [7])"
proof -
  have "list_all2 (\<lambda>req d. marshal_req wpcodec0 req = Inr d \<and> length d < 2 ^ 32) [request0 [''a''], request0 []] [[1], []]"
    by (simp add: wpcodec0_def request0_def)
  from conjunct1 [OF frame_roundtrip [OF this, of None "[7]"]] show ?thesis by (simp add: numeral_2_eq_2)
qed

section \<open>Ownership of processes\<close>

text \<open>
  A running worker is in the map under its key, was never waited for and has its pipes open; every other process was
  killed, waited for and has its pipes closed. A restart command is registered for every running worker.
\<close>

definition running :: "managedWorker \<Rightarrow> bool" where
  "running w \<longleftrightarrow> pr_Process w \<and> pr_ProcessState w = None \<and> pr_stdin_open w \<and> pr_stdout_open w"

definition reaped :: "managedWorker \<Rightarrow> bool" where
  "reaped w \<longleftrightarrow> pr_Process w \<and> pr_ProcessState w \<noteq> None \<and> \<not> pr_stdin_open w \<and> \<not> pr_stdout_open w"

definition mgr_inv :: "PersistentWorkerManager \<Rightarrow> bool" where
  "mgr_inv m \<longleftrightarrow> distinct (map fst (workers m)) \<and> distinct (map snd (workers m)) \<and>
     (\<forall>(k, a) \<in> set (workers m). (\<exists>w. procs m a = Some w \<and> pr_key w = k \<and> running w) \<and> map_of (restart m) k \<noteq> None) \<and>
     (\<forall>a w. procs m a = Some w \<longrightarrow> a < next_proc m \<and> (a \<in> snd ` set (workers m) \<or> reaped w))"


lemma mgr_invI:
  assumes "distinct (map fst (workers m))" "distinct (map snd (workers m))"
    and "\<And>k a. (k, a) \<in> set (workers m) \<Longrightarrow> \<exists>w. procs m a = Some w \<and> pr_key w = k \<and> running w"
    and "\<And>k a. (k, a) \<in> set (workers m) \<Longrightarrow> map_of (restart m) k \<noteq> None"
    and "\<And>a w. procs m a = Some w \<Longrightarrow> a < next_proc m \<and> (a \<in> snd ` set (workers m) \<or> reaped w)"
  shows "mgr_inv m"
  using assms unfolding mgr_inv_def by blast

lemma mgr_invD:
  assumes "mgr_inv m" "map_of (workers m) k = Some a"
  obtains w where "procs m a = Some w" "pr_key w = k" "running w" "map_of (restart m) k \<noteq> None"
  using assms unfolding mgr_inv_def by (fastforce dest: map_of_SomeD)

lemma upd_proc_simps [simp]:
  "workers (upd_proc m a f) = workers m" "restart (upd_proc m a f) = restart m" "next_proc (upd_proc m a f) = next_proc m"
  "procs (upd_proc m a f) b = (if b = a then map_option f (procs m a) else procs m b)"
  by (simp_all add: upd_proc_def)

text \<open>Changes of a worker that neither close nor wait.\<close>

definition keeps_shape :: "managedWorker \<Rightarrow> managedWorker \<Rightarrow> bool" where
  "keeps_shape w v \<longleftrightarrow> pr_key v = pr_key w \<and> pr_Process v = pr_Process w \<and> pr_ProcessState v = pr_ProcessState w \<and>
     pr_stdin_open v = pr_stdin_open w \<and> pr_stdout_open v = pr_stdout_open w"

lemma upd_proc_inv:
  assumes "mgr_inv m" "\<And>w. procs m a = Some w \<Longrightarrow> keeps_shape w (f w)"
  shows "mgr_inv (upd_proc m a f)"
proof -
  have 1: "\<exists>w. procs (upd_proc m a f) b = Some w \<and> pr_key w = k \<and> running w"
    if "procs m b = Some v" "pr_key v = k" "running v" for b k v
    using that assms(2) by (auto simp: keeps_shape_def running_def)
  have 2: "b < next_proc m \<and> (b \<in> snd ` set (workers m) \<or> reaped w)" if "procs (upd_proc m a f) b = Some w" for b w
  proof -
    from that obtain v where v: "procs m b = Some v" "reaped w = reaped v"
      using assms(2) by (auto simp: keeps_shape_def reaped_def split: if_splits)
    with assms(1) show ?thesis unfolding mgr_inv_def by blast
  qed
  show ?thesis using assms(1) 1 2 unfolding mgr_inv_def upd_proc_simps(1-3) by fastforce
qed

definition reap :: "bool \<Rightarrow> PersistentWorkerManager \<Rightarrow> string \<Rightarrow> nat \<Rightarrow> PersistentWorkerManager" where
  "reap exited m key a = (upd_proc m a (kill_wait exited \<circ> close_pipes))\<lparr>workers := AList.delete key (workers m)\<rparr>"

lemma reap_simps [simp]:
  "workers (reap ex m key a) = AList.delete key (workers m)" "restart (reap ex m key a) = restart m"
  "next_proc (reap ex m key a) = next_proc m"
  "procs (reap ex m key a) b = (if b = a then map_option (kill_wait ex \<circ> close_pipes) (procs m a) else procs m b)"
  by (simp_all add: reap_def)

lemma reaped_reap: "pr_Process w \<Longrightarrow> reaped (kill_wait ex (close_pipes w))"
  by (simp add: reaped_def kill_wait_def close_pipes_def)

lemma distinct_snd_delete: "distinct (map snd xs) \<Longrightarrow> distinct (map snd (AList.delete k xs))"
  by (simp add: AList.delete_eq distinct_map_filter)

lemma reap_inv:
  assumes "mgr_inv m" "map_of (workers m) key = Some a"
  shows "mgr_inv (reap ex m key a)"
proof -
  have d: "distinct (map fst (workers m))" "distinct (map snd (workers m))" using assms(1) by (auto simp: mgr_inv_def)
  have mem: "(k, b) \<in> set (AList.delete key (workers m)) \<longleftrightarrow> (k, b) \<in> set (workers m) \<and> k \<noteq> key" for k b
    by (auto simp: AList.delete_eq)
  have ka: "(key, a) \<in> set (workers m)" using assms(2) by (rule map_of_SomeD)
  have other: "b \<noteq> a" if "(k, b) \<in> set (workers m)" "k \<noteq> key" for k b
    using that ka d(2) by (metis distinct_map inj_onD prod.inject snd_conv)
  show ?thesis
  proof (rule mgr_invI)
    fix k b assume "(k, b) \<in> set (workers (reap ex m key a))"
    then have kb: "(k, b) \<in> set (workers m)" "k \<noteq> key" unfolding reap_simps mem by simp_all
    then show "\<exists>w. procs (reap ex m key a) b = Some w \<and> pr_key w = k \<and> running w"
      using other [OF kb] assms(1) unfolding mgr_inv_def by fastforce
    from kb show "map_of (restart (reap ex m key a)) k \<noteq> None" using assms(1) unfolding mgr_inv_def by fastforce
  next
    fix b w assume w: "procs (reap ex m key a) b = Some w"
    show "b < next_proc (reap ex m key a) \<and> (b \<in> snd ` set (workers (reap ex m key a)) \<or> reaped w)"
    proof (cases "b = a")
      case True
      with w obtain v where v: "procs m a = Some v" "w = kill_wait ex (close_pipes v)" by auto
      moreover have "pr_Process v" using mgr_invD [OF assms] v(1) by (metis option.inject running_def)
      ultimately show ?thesis using assms(1) True unfolding mgr_inv_def reap_simps(3) by (blast intro: reaped_reap)
    next
      case False
      with w have p: "procs m b = Some w" by simp
      have "b \<in> snd ` set (AList.delete key (workers m))" if "b \<in> snd ` set (workers m)"
      proof -
        from that obtain k where k: "(k, b) \<in> set (workers m)" by auto
        have "k \<noteq> key" using eq_key_imp_eq_value [OF d(1) _ ka] k False by auto
        then have "(k, b) \<in> set (AList.delete key (workers m))" using k unfolding mem by simp
        then show ?thesis by (rule image_eqI [rotated]) simp
      qed
      with p assms(1) show ?thesis unfolding mgr_inv_def reap_simps(1,3) by blast
    qed
  next
    show "distinct (map fst (workers (reap ex m key a)))" using d(1) by (simp add: distinct_delete)
    show "distinct (map snd (workers (reap ex m key a)))" using d(2) by (simp add: distinct_snd_delete)
  qed
qed

lemma update_new: "map_of xs k = None \<Longrightarrow> AList.update k v xs = xs @ [(k, v)]"
  by (induction xs) (auto split: if_splits)

lemma start_and_store_ok:
  assumes "st_stdin e = None" "st_stdout e = None" "st_start e = None" "map_of (workers m) key = None"
  shows "snd (start_and_store e m key cmd) = Inr (next_proc m)"
    "workers (fst (start_and_store e m key cmd)) = workers m @ [(key, next_proc m)]"
    "next_proc (fst (start_and_store e m key cmd)) = Suc (next_proc m)"
    "procs (fst (start_and_store e m key cmd)) = (procs m)(next_proc m \<mapsto>
       \<lparr>pr_key = key, pr_cmd = cmd, pr_Process = True, pr_ProcessState = None, pr_stdin_open = True,
        pr_stdout_open = True, pr_sent = [], pr_out = [], pr_end = None, pr_readers = []\<rparr>)"
    "map_of (restart (fst (start_and_store e m key cmd))) k =
       (if k = key \<and> map_of (restart m) key = None then Some cmd else map_of (restart m) k)"
  using assms by (auto simp: start_and_store_def startWorker_def update_new map_add_def split: option.splits)

lemma start_and_store_inv:
  assumes "mgr_inv m" "map_of (workers m) key = None"
  shows "mgr_inv (fst (start_and_store e m key cmd))"
proof (cases "st_stdin e = None \<and> st_stdout e = None \<and> st_start e = None")
  case False
  then show ?thesis using assms(1) by (auto simp: start_and_store_def startWorker_def split: option.splits)
next
  case True
  note new = start_and_store_ok [OF _ _ _ assms(2), of e cmd]
  have old: "a < next_proc m" if "(k, a) \<in> set (workers m)" for k a
    using that assms(1) unfolding mgr_inv_def by fastforce
  have fresh: "key \<notin> fst ` set (workers m)" using assms(2) by (simp add: map_of_eq_None_iff)
  have unused: "next_proc m \<notin> snd ` set (workers m)" using old by fastforce
  let ?m = "fst (start_and_store e m key cmd)"
  show ?thesis
  proof (rule mgr_invI)
    fix k a assume ka: "(k, a) \<in> set (workers ?m)"
    have "(\<exists>w. procs ?m a = Some w \<and> pr_key w = k \<and> running w) \<and> map_of (restart ?m) k \<noteq> None"
    proof (cases "(k, a) \<in> set (workers m)")
      case True': True
      then have "a \<noteq> next_proc m" using old by blast
      with True' assms(1) True show ?thesis unfolding mgr_inv_def by (fastforce simp: new)
    next
      case False
      with ka True show ?thesis by (auto simp: new running_def)
    qed
    then show "\<exists>w. procs ?m a = Some w \<and> pr_key w = k \<and> running w" "map_of (restart ?m) k \<noteq> None" by blast+
  next
    fix a w assume "procs ?m a = Some w"
    then consider "a = next_proc m" | "procs m a = Some w" using True by (auto simp: new split: if_splits)
    then show "a < next_proc ?m \<and> (a \<in> snd ` set (workers ?m) \<or> reaped w)"
    proof cases
      case 1
      then show ?thesis using True by (simp add: new)
    next
      case 2
      then have "a < next_proc m \<and> (a \<in> snd ` set (workers m) \<or> reaped w)" using assms(1) unfolding mgr_inv_def by blast
      then show ?thesis using True by (auto simp: new)
    qed
  next
    show "distinct (map fst (workers ?m))" "distinct (map snd (workers ?m))"
      using fresh unused assms(1) True by (simp_all add: new mgr_inv_def)
  qed
qed

lemma getOrCreateWorker_alive:
  assumes "mgr_inv m" "map_of (workers m) key = Some a"
  shows "getOrCreateWorker e m key cmd = (m, Inr a)"
  by (rule mgr_invD [OF assms]) (use assms(2) in \<open>auto simp: getOrCreateWorker_def Let_def alive_def running_def\<close>)

lemma getOrCreateWorker_inv:
  assumes "mgr_inv m" shows "mgr_inv (fst (getOrCreateWorker e m key cmd))"
proof (cases "map_of (workers m) key")
  case None
  with assms show ?thesis
    by (cases cmd) (simp_all add: getOrCreateWorker_def Let_def start_and_store_inv)
next
  case (Some a)
  with assms show ?thesis by (simp add: getOrCreateWorker_alive)
qed

lemma restartWorker_inv:
  assumes "mgr_inv m" shows "mgr_inv (fst (restartWorker e ex m key))"
proof -
  let ?m = "case map_of (workers m) key of None \<Rightarrow> m | Some a \<Rightarrow> reap ex m key a"
  have "mgr_inv ?m" using assms by (auto intro: reap_inv split: option.splits)
  moreover have "map_of (workers ?m) key = None"
    using assms by (auto simp: delete_conv' split: option.splits)
  moreover have "restartWorker e ex m key = (case map_of (restart ?m) key of
        None \<Rightarrow> (?m, Inl (Errorf ''no restart command registered''))
      | Some cmd \<Rightarrow> start_and_store e ?m key cmd)"
    by (simp add: restartWorker_def reap_def Let_def split: option.split)
  ultimately show ?thesis by (auto simp: start_and_store_inv split: option.split)
qed

lemma sendRequest_shape:
  assumes "procs m a = Some w"
  shows "\<exists>v r. sendRequest C B e m a req = (upd_proc m a (\<lambda>_. v), r) \<and> keeps_shape w v"
proof -
  obtain new werr where wp: "writeProto C (if pr_stdin_open w then sv_werr e else (\<lambda>_. Some (ErrClosedPipe, 0))) req = (new, werr)"
    by (cases "writeProto C (if pr_stdin_open w then sv_werr e else (\<lambda>_. Some (ErrClosedPipe, 0))) req")
  define u where "u = w\<lparr>pr_sent := pr_sent w @ new,
      pr_out := pr_out w @ (if pr_end w = None then B (pr_cmd w) (pr_sent w) new else [])\<rparr>"
  obtain rs out where fl: "foldl (read_step C (pr_end u)) (pr_readers u @ [WantLen], pr_out u) (sv_order e) = (rs, out)"
    by (cases "foldl (read_step C (pr_end u)) (pr_readers u @ [WantLen], pr_out u) (sv_order e)")
  have shape: "keeps_shape w u" "keeps_shape w (u\<lparr>pr_readers := x, pr_out := y\<rparr>)" for x y
    by (simp_all add: keeps_shape_def u_def)
  show ?thesis unfolding sendRequest_def assms wp option.case prod.case u_def [symmetric] Let_def
    using shape by (auto simp: fl split: option.split phase.split sum.split)
qed

lemma sendRequest_inv: "mgr_inv m \<Longrightarrow> mgr_inv (fst (sendRequest C B e m a req))"
proof (cases "procs m a")
  case None
  then show "mgr_inv m \<Longrightarrow> ?thesis" by (simp add: sendRequest_def)
next
  case (Some w)
  from sendRequest_shape [OF this, of C B e req] obtain v r
    where "sendRequest C B e m a req = (upd_proc m a (\<lambda>_. v), r)" "keeps_shape w v" by blast
  then show "mgr_inv m \<Longrightarrow> ?thesis" using Some by (auto intro: upd_proc_inv)
qed

lemma shutdown_loop_inv:
  "mgr_inv m \<Longrightarrow> ws = workers m \<Longrightarrow>
   mgr_inv (shutdown_loop exited ws m) \<and> workers (shutdown_loop exited ws m) = [] \<and>
   restart (shutdown_loop exited ws m) = restart m"
proof (induction exited ws m rule: shutdown_loop.induct)
  case (1 exited m)
  then show ?case by simp
next
  case (2 exited key a ws m)
  have m: "map_of (workers m) key = Some a" using 2(3) by (simp flip: 2(3))
  have "distinct (map fst ((key, a) # ws))" using 2(2,3) by (simp add: mgr_inv_def)
  then have "AList.delete key (workers m) = ws"
    unfolding 2(3) [symmetric] by (force simp: AList.delete_eq filter_id_conv)
  then have "ws = workers (reap (exited a) m key a)" by simp
  with 2(1) reap_inv [OF 2(2) m] show ?case by (simp flip: reap_def)
qed

text \<open>A process that ends by itself: its output ends.\<close>

definition proc_exits :: "PersistentWorkerManager \<Rightarrow> nat \<Rightarrow> PersistentWorkerManager" where
  "proc_exits m a = upd_proc m a (\<lambda>w. if pr_end w = None then w\<lparr>pr_end := Some ErrEOF\<rparr> else w)"

text \<open>
  Callers run concurrently: what is atomic under a mutex is an event, and events of different calls come in any order.
\<close>

datatype mgr_event =
    MSetRestart string Cmd
  | MGetOrCreate start_env string "Cmd option"
  | MSend send_env nat WorkRequest
  | MRestart start_env bool string
  | MExit nat
  | MShutdown "nat \<Rightarrow> bool"

fun mgr_step ::
  "wpcodec \<Rightarrow> (Cmd \<Rightarrow> bytes \<Rightarrow> bytes \<Rightarrow> bytes) \<Rightarrow> PersistentWorkerManager \<Rightarrow> mgr_event \<Rightarrow> PersistentWorkerManager option" where
  "mgr_step C B m (MSetRestart key cmd) = Some (SetRestartCommand m key cmd)"
| "mgr_step C B m (MGetOrCreate e key cmd) = Some (fst (getOrCreateWorker e m key cmd))"
| "mgr_step C B m (MSend e a req) = Some (fst (sendRequest C B e m a req))"
| "mgr_step C B m (MRestart e ex key) = Some (fst (restartWorker e ex m key))"
| "mgr_step C B m (MExit a) = Some (proc_exits m a)"
| "mgr_step C B m (MShutdown exited) = Some (Shutdown exited m)"

lemma SetRestartCommand_inv: "mgr_inv m \<Longrightarrow> mgr_inv (SetRestartCommand m key cmd)"
  unfolding mgr_inv_def SetRestartCommand_def by (auto simp: update_conv')

lemma proc_exits_inv: "mgr_inv m \<Longrightarrow> mgr_inv (proc_exits m a)"
  unfolding proc_exits_def by (erule upd_proc_inv) (simp add: keeps_shape_def)

lemma new_mgr_inv: "mgr_inv NewPersistentWorkerManager"
  by (simp add: mgr_inv_def NewPersistentWorkerManager_def)

lemma mgr_step_inv: "mgr_inv m \<Longrightarrow> \<exists>t. mgr_step C B m e = Some t \<and> mgr_inv t"
  by (cases e) (simp_all add: SetRestartCommand_inv getOrCreateWorker_inv sendRequest_inv restartWorker_inv
      proc_exits_inv Shutdown_def shutdown_loop_inv)

interpretation mgr: machine "\<lambda>_ _. True" "mgr_step C B" mgr_inv for C B
proof
  show "\<exists>t. mgr_step C B s e = Some t" if "mgr_inv s" for s e using mgr_step_inv [OF that] by blast
  show "mgr_inv t" if "mgr_inv s" "mgr_step C B s e = Some t" for s e t using mgr_step_inv [OF that(1), of C B e] that(2) by auto
qed

lemma enabled_True: "enabled_run (\<lambda>_ _. True) step s es"
  by (induction es arbitrary: s) (auto split: option.split)

text \<open>C26: Whatever order concurrent calls run in, workers fail in and processes exit in, no process is left behind: each
  process the manager started is the one in the map under its key, still to be waited for and with open pipes, or has been
  killed, waited for and closed. A caller that asks for a worker of the map is given that one, so the branch that
  finds a dead process is never taken. After Shutdown every process has been waited for.\<close>

theorem processes_owned:
  assumes "run (mgr_step C B) NewPersistentWorkerManager es = Some m"
  shows "(\<forall>a w. procs m a = Some w \<longrightarrow> (map_of (workers m) (pr_key w) = Some a \<and> running w) \<or> reaped w) \<and>
    (\<forall>e key cmd a. map_of (workers m) key = Some a \<longrightarrow> getOrCreateWorker e m key cmd = (m, Inr a)) \<and>
    (\<forall>exited a w. procs (Shutdown exited m) a = Some w \<longrightarrow> reaped w)"
proof (intro conjI allI impI)
  have inv: "mgr_inv m" by (rule mgr.run_keeps [OF new_mgr_inv enabled_True assms])
  have own: "\<exists>k. (k, a) \<in> set (workers m) \<or> reaped w" if "procs m a = Some w" for a w
    using inv that unfolding mgr_inv_def by fastforce
  fix a w assume w: "procs m a = Some w"
  show "(map_of (workers m) (pr_key w) = Some a \<and> running w) \<or> reaped w"
  proof (cases "reaped w")
    case False
    with own [OF w] obtain k where k: "(k, a) \<in> set (workers m)" by blast
    moreover have "distinct (map fst (workers m))" using inv by (simp add: mgr_inv_def)
    moreover have "pr_key w = k \<and> running w" using inv k w unfolding mgr_inv_def by fastforce
    ultimately show ?thesis by simp
  qed simp
next
  have inv: "mgr_inv m" by (rule mgr.run_keeps [OF new_mgr_inv enabled_True assms])
  show "getOrCreateWorker e m key cmd = (m, Inr a)" if "map_of (workers m) key = Some a" for e key cmd a
    using inv that by (rule getOrCreateWorker_alive)
  show "reaped w" if "procs (Shutdown exited m) a = Some w" for exited a w
    using shutdown_loop_inv [OF inv refl, of exited] that unfolding mgr_inv_def Shutdown_def by fastforce
qed


definition start_ok :: start_env where
  "start_ok = \<lparr>st_stdin = None, st_stdout = None, st_start = None\<rparr>"

definition cmd0 :: Cmd where
  "cmd0 = \<lparr>cmd_Path = ''w'', cmd_Args = [''w''], cmd_Env = [], cmd_Dir = []\<rparr>"

theorem processes_owned_witness:
  "\<exists>m w. run (mgr_step wpcodec0 (\<lambda>_ _ _. [])) NewPersistentWorkerManager
      [MGetOrCreate start_ok ''k'' (Some cmd0), MExit 0, MRestart start_ok True ''k''] = Some m \<and>
    map_of (workers m) ''k'' = Some 1 \<and> procs m 0 = Some w \<and> reaped w"
proof -
  define m where "m = the (run (mgr_step wpcodec0 (\<lambda>_ _ _. [])) NewPersistentWorkerManager
      [MGetOrCreate start_ok ''k'' (Some cmd0), MExit 0, MRestart start_ok True ''k''])"
  have r: "run (mgr_step wpcodec0 (\<lambda>_ _ _. [])) NewPersistentWorkerManager
      [MGetOrCreate start_ok ''k'' (Some cmd0), MExit 0, MRestart start_ok True ''k''] = Some m" by (simp add: m_def)
  have m: "map_of (workers m) ''k'' = Some 1" "\<exists>w. procs m 0 = Some w \<and> pr_key w = ''k''"
    by (simp_all add: m_def NewPersistentWorkerManager_def getOrCreateWorker_def restartWorker_def start_and_store_def
        startWorker_def start_ok_def proc_exits_def upd_proc_def kill_wait_def close_pipes_def)
  then obtain w where w: "procs m 0 = Some w" "pr_key w = ''k''" by blast
  with processes_owned [OF r] m(1) have "reaped w" by fastforce
  with r m(1) w show ?thesis by blast
qed

section \<open>Responses\<close>

text \<open>
  A process that speaks the worker protocol: it answers the frame of a request with one frame, which holds the
  response.
\<close>

definition honest ::
  "wpcodec \<Rightarrow> (Cmd \<Rightarrow> bytes \<Rightarrow> bytes \<Rightarrow> bytes) \<Rightarrow> Cmd \<Rightarrow> (WorkRequest \<Rightarrow> WorkResponse) \<Rightarrow> bool" where
  "honest C B cmd answer \<longleftrightarrow> (\<forall>req. \<exists>d r. marshal_req C req = Inr d \<and> length r < 2 ^ 32 \<and> unmarshal_resp C r = Inr (answer req) \<and>
     (\<forall>sent. B cmd sent (frame d) = frame r))"

definition idle :: "managedWorker \<Rightarrow> bool" where
  "idle w \<longleftrightarrow> pr_stdin_open w \<and> pr_end w = None \<and> pr_out w = [] \<and> pr_readers w = []"

definition undisturbed :: "send_env \<Rightarrow> bool" where
  "undisturbed e \<longleftrightarrow> sv_werr e = (\<lambda>_. None) \<and> \<not> sv_ctx e \<and> 2 \<le> count_list (sv_order e) 0"

lemma read_step_simps:
  "length rs \<le> i \<Longrightarrow> read_step C en (rs, out) i = (rs, out)"
  "i < length rs \<Longrightarrow> rs ! i = Got r \<Longrightarrow> read_step C en (rs, out) i = (rs, out)"
  "i < length rs \<Longrightarrow> rs ! i = WantData n \<Longrightarrow> n \<le> length out \<Longrightarrow>
     read_step C en (rs, out) i = (rs[i := Got (unmarshal_resp C (take n out))], drop n out)"
  by (simp_all add: read_step_def ReadFull_def)

lemma read_step_frame:
  "i < length rs \<Longrightarrow> rs ! i = WantLen \<Longrightarrow> length r < 2 ^ 32 \<Longrightarrow>
   read_step C en (rs, frame r @ rest) i = (rs[i := WantData (length r)], r @ rest)"
  by (simp add: read_step_def ReadFull_def frame_def unat_len)

lemma reads_got: "foldl (read_step C en) ([Got r], out) os = ([Got r], out)"
proof (induction os)
  case (Cons i os)
  then show ?case by (cases i) (simp_all add: read_step_simps)
qed simp

lemma reads_data:
  "n \<le> length out \<Longrightarrow> 1 \<le> count_list os 0 \<Longrightarrow>
   foldl (read_step C en) ([WantData n], out) os = ([Got (unmarshal_resp C (take n out))], drop n out)"
proof (induction os)
  case (Cons i os)
  then show ?case by (cases i) (simp_all add: read_step_simps reads_got)
qed simp

lemma reads_frame:
  assumes "length r < 2 ^ 32"
  shows "2 \<le> count_list os 0 \<Longrightarrow>
    foldl (read_step C en) ([WantLen], frame r @ rest) os = ([Got (unmarshal_resp C r)], rest)"
proof (induction os)
  case (Cons i os)
  show ?case
  proof (cases "i = 0")
    case True
    then have "read_step C en ([WantLen], frame r @ rest) i = ([WantData (length r)], r @ rest)"
      using assms by (simp add: read_step_frame)
    with True Cons.prems show ?thesis by (simp add: reads_data)
  next
    case False
    with Cons show ?thesis by (simp add: read_step_simps)
  qed
qed simp

lemma send_idle:
  assumes "procs m a = Some w" "idle w" "honest C B (pr_cmd w) answer" "undisturbed e"
  shows "\<exists>v. sendRequest C B e m a req = (upd_proc m a (\<lambda>_. v), Some (Inr (work_result (answer req)))) \<and>
    idle v \<and> pr_cmd v = pr_cmd w \<and> keeps_shape w v"
proof -
  obtain d r where h: "marshal_req C req = Inr d" "length r < 2 ^ 32" "unmarshal_resp C r = Inr (answer req)"
    "B (pr_cmd w) sent (frame d) = frame r" for sent
    using assms(3) unfolding honest_def by blast
  have "foldl (read_step C None) ([WantLen], frame r) (sv_order e) = ([Got (Inr (answer req))], [])"
    using reads_frame [OF h(2), of "sv_order e" C None "[]"] assms(4) h(3) by (simp add: undisturbed_def)
  with assms(1,2,4) h(1,4) show ?thesis
    by (auto simp: sendRequest_def idle_def undisturbed_def writeProto_frame Let_def keeps_shape_def)
qed

fun exec_all ::
  "wpcodec \<Rightarrow> (Cmd \<Rightarrow> bytes \<Rightarrow> bytes \<Rightarrow> bytes) \<Rightarrow> PersistentWorkerManager \<Rightarrow> string \<Rightarrow> Cmd \<Rightarrow> (pw_env \<times> WorkRequest) list \<Rightarrow>
   PersistentWorkerManager \<times> (goerr + WorkResult) option list" where
  "exec_all C B m key cmd [] = (m, [])"
| "exec_all C B m key cmd ((e, req) # calls) =
     (case pw_Execute C B e m key (Some cmd) (wr_Arguments req) (wr_Inputs req) (wr_Cancel req) of
        (m, r) \<Rightarrow> (case exec_all C B m key cmd calls of (m, rs) \<Rightarrow> (m, r # rs)))"

lemma start_ok_iff: "e = start_ok \<longleftrightarrow> st_stdin e = None \<and> st_stdout e = None \<and> st_start e = None"
  by (auto simp: start_ok_def)

definition serves :: "PersistentWorkerManager \<Rightarrow> string \<Rightarrow> Cmd \<Rightarrow> bool" where
  "serves m key cmd \<longleftrightarrow> mgr_inv m \<and>
     (case map_of (workers m) key of
        None \<Rightarrow> True
      | Some a \<Rightarrow> (\<exists>w. procs m a = Some w \<and> idle w \<and> pr_cmd w = cmd))"

lemma getOrCreateWorker_serves:
  assumes "serves m key cmd"
  obtains t a w where "getOrCreateWorker start_ok m key (Some cmd) = (t, Inr a)" "mgr_inv t"
    "map_of (workers t) key = Some a" "procs t a = Some w" "idle w" "pr_cmd w = cmd"
proof (cases "map_of (workers m) key")
  case (Some a)
  with assms show ?thesis using that by (auto simp: serves_def getOrCreateWorker_alive)
next
  case None
  have inv: "mgr_inv m" using assms by (simp add: serves_def)
  have g: "getOrCreateWorker start_ok m key (Some cmd) = start_and_store start_ok m key cmd"
    using None by (simp add: getOrCreateWorker_def)
  note new = start_and_store_ok [of start_ok, OF _ _ _ None, of cmd]
  obtain t where t: "start_and_store start_ok m key cmd = (t, Inr (next_proc m))"
    using new(1) by (metis prod.collapse start_ok_iff)
  have "map_of (workers t) key = Some (next_proc m)" "\<exists>w. procs t (next_proc m) = Some w \<and> idle w \<and> pr_cmd w = cmd"
    using new(2,4) t None by (auto simp: start_ok_def map_add_def idle_def)
  with that g t start_and_store_inv [OF inv None, of start_ok cmd] show ?thesis by auto
qed

lemma pw_Execute_serves:
  assumes "serves m key cmd" "honest C B cmd answer" "xe_create e = start_ok" "undisturbed (xe_send e)"
  obtains t where "pw_Execute C B e m key (Some cmd) (wr_Arguments req) (wr_Inputs req) (wr_Cancel req) =
      (t, Some (Inr (work_result (answer req))))" "serves t key cmd"
proof -
  from assms(1) obtain t a w where t: "getOrCreateWorker start_ok m key (Some cmd) = (t, Inr a)" "mgr_inv t"
    "map_of (workers t) key = Some a" "procs t a = Some w" "idle w" "pr_cmd w = cmd"
    by (rule getOrCreateWorker_serves)
  have req: "\<lparr>wr_Arguments = wr_Arguments req, wr_Inputs = wr_Inputs req, wr_Cancel = wr_Cancel req\<rparr> = req" by simp
  from send_idle [OF t(4,5), of C B answer "xe_send e" req] assms(2,4) t(6) obtain v
    where v: "sendRequest C B (xe_send e) t a req = (upd_proc t a (\<lambda>_. v), Some (Inr (work_result (answer req))))"
      "idle v" "pr_cmd v = cmd" "keeps_shape w v" by auto
  have "mgr_inv (upd_proc t a (\<lambda>_. v))" using t(2,4) v(4) by (auto intro: upd_proc_inv)
  then have "serves (upd_proc t a (\<lambda>_. v)) key cmd" using t(3,4) v by (simp add: serves_def)
  then show ?thesis using that v(1) t(1) assms(3) by (simp add: pw_Execute_def Let_def req)
qed

text \<open>C27: With a process that speaks the protocol, every request of a sequence that is not cancelled gets the response to
  itself, on one process that is started by the first of them.\<close>

theorem own_response:
  assumes "serves m key cmd" "honest C B cmd answer"
    and "\<forall>(e, req) \<in> set calls. xe_create e = start_ok \<and> undisturbed (xe_send e)"
  shows "snd (exec_all C B m key cmd calls) = map (\<lambda>(e, req). Some (Inr (work_result (answer req)))) calls"
  using assms(1,3)
proof (induction calls arbitrary: m)
  case (Cons c calls)
  obtain e req where c: "c = (e, req)" by (cases c)
  with Cons.prems(2) have "xe_create e = start_ok" "undisturbed (xe_send e)" by auto
  with Cons.prems(1) assms(2) obtain t
    where t: "pw_Execute C B e m key (Some cmd) (wr_Arguments req) (wr_Inputs req) (wr_Cancel req) =
      (t, Some (Inr (work_result (answer req))))" "serves t key cmd" by (rule pw_Execute_serves)
  with Cons c show ?case by (auto simp: split_def)
qed simp


text \<open>A process that answers with the first byte of the request.\<close>

definition echo :: "Cmd \<Rightarrow> bytes \<Rightarrow> bytes \<Rightarrow> bytes" where
  "echo cmd sent new = frame (take 1 (drop 4 new))"

definition echo_answer :: "WorkRequest \<Rightarrow> WorkResponse" where
  "echo_answer req = \<lparr>wp_ExitCode = of_nat (min 1 (length (wr_Arguments req))), wp_Output = [], wp_RequestId = 0,
                      wp_WasCancelled = False\<rparr>"

lemma echo_honest: "honest wpcodec0 echo cmd echo_answer"
  unfolding honest_def
proof
  fix req :: WorkRequest
  define d :: bytes where "d = map (\<lambda>a. of_nat (length a)) (wr_Arguments req)"
  have "marshal_req wpcodec0 req = Inr d" by (simp add: wpcodec0_def d_def)
  moreover have "length (take 1 d) < 2 ^ 32" by (simp add: min_def)
  moreover have "unmarshal_resp wpcodec0 (take 1 d) = Inr (echo_answer req)"
    by (simp add: wpcodec0_def echo_answer_def d_def min.commute)
  moreover have "echo cmd sent (frame d) = frame (take 1 d)" for sent
    by (simp add: echo_def frame_def [of d])
  ultimately show "\<exists>d r. marshal_req wpcodec0 req = Inr d \<and> length r < 2 ^ 32 \<and>
      unmarshal_resp wpcodec0 r = Inr (echo_answer req) \<and> (\<forall>sent. echo cmd sent (frame d) = frame r)" by blast
qed

definition send_ok :: "nat list \<Rightarrow> send_env" where
  "send_ok order = \<lparr>sv_werr = (\<lambda>_. None), sv_ctx = False, sv_order = order\<rparr>"

definition send_cancelled :: send_env where
  "send_cancelled = \<lparr>sv_werr = (\<lambda>_. None), sv_ctx = True, sv_order = []\<rparr>"

definition pw_env0 :: "send_env \<Rightarrow> pw_env" where
  "pw_env0 e = \<lparr>xe_create = start_ok, xe_send = e, xe_restart = start_ok, xe_exited = False, xe_resend = e\<rparr>"

theorem own_response_witness:
  "snd (exec_all wpcodec0 echo NewPersistentWorkerManager ''k'' cmd0
      [(pw_env0 (send_ok [0, 0]), request0 [''a'']), (pw_env0 (send_ok [0, 0]), request0 [])]) =
   [Some (Inr (work_result (echo_answer (request0 [''a''])))), Some (Inr (work_result (echo_answer (request0 []))))]"
proof -
  have "serves NewPersistentWorkerManager ''k'' cmd0"
    using new_mgr_inv by (simp add: serves_def NewPersistentWorkerManager_def)
  from own_response [OF this echo_honest,
      of "[(pw_env0 (send_ok [0, 0]), request0 [''a'']), (pw_env0 (send_ok [0, 0]), request0 [])]"]
  show ?thesis by (simp add: pw_env0_def send_ok_def undisturbed_def)
qed

lemma restartWorker_fresh:
  assumes "mgr_inv m" "map_of (workers m) key = Some a" "map_of (restart m) key = Some cmd"
  obtains t b u where "restartWorker start_ok ex m key = (t, Inr b)" "mgr_inv t" "map_of (workers t) key = Some b"
    "procs t b = Some u" "idle u" "pr_cmd u = cmd"
proof -
  define n where "n = reap ex m key a"
  have n: "mgr_inv n" "map_of (workers n) key = None" "map_of (restart n) key = Some cmd"
    unfolding n_def using reap_inv [OF assms(1,2)] assms(3) by (simp_all add: delete_conv')
  define t where "t = fst (start_and_store start_ok n key cmd)"
  note new = start_and_store_ok [of start_ok, OF _ _ _ n(2), of cmd]
  have "restartWorker start_ok ex m key = (t, Inr (next_proc n))" "mgr_inv t" "map_of (workers t) key = Some (next_proc n)"
    "\<exists>u. procs t (next_proc n) = Some u \<and> idle u \<and> pr_cmd u = cmd"
    using new(1,2,4) assms(2,3) n start_and_store_inv [OF n(1,2), of start_ok cmd]
    by (auto simp: restartWorker_def Let_def t_def start_ok_def map_add_def idle_def prod_eq_iff simp flip: reap_def n_def)
  with that show ?thesis by blast
qed

lemma send_cancelled_running:
  assumes "procs m a = Some w" "running w" "marshal_req C req = Inr d"
  shows "\<exists>v. sendRequest C B send_cancelled m a req = (upd_proc m a (\<lambda>_. v), Some (Inl CtxErr)) \<and> keeps_shape w v"
  using assms by (auto simp: sendRequest_def send_cancelled_def running_def writeProto_frame Let_def keeps_shape_def)

text \<open>C28: A cancelled call leaves its request and its reading goroutine with the restarted worker. The next request to
  this worker can be answered with the response to the cancelled one, since the identifiers of request and
  response are never compared.\<close>

theorem cancelled_response_delivered:
  fixes req later :: WorkRequest
  assumes inv: "mgr_inv m" and a: "map_of (workers m) key = Some a"
    and h: "honest C B (the (map_of (restart m) key)) answer"
  shows "\<exists>m'. pw_Execute C B (pw_env0 send_cancelled) m key None (wr_Arguments req) (wr_Inputs req) (wr_Cancel req) =
      (m', Some (Inl (Wrap ''worker failed after restart'' CtxErr))) \<and>
    snd (pw_Execute C B (pw_env0 (send_ok [1, 1])) m' key None (wr_Arguments later) (wr_Inputs later) (wr_Cancel later)) =
      Some (Inr (work_result (answer req)))"
proof -
  have flds: "\<lparr>wr_Arguments = wr_Arguments q, wr_Inputs = wr_Inputs q, wr_Cancel = wr_Cancel q\<rparr> = q" for q :: WorkRequest by simp
  obtain d r where q: "marshal_req C req = Inr d" "length r < 2 ^ 32" "unmarshal_resp C r = Inr (answer req)"
    "B (the (map_of (restart m) key)) sent (frame d) = frame r" for sent
    using h unfolding honest_def by blast
  obtain d' r' where q': "marshal_req C later = Inr d'"
    "B (the (map_of (restart m) key)) sent (frame d') = frame r'" for sent
    using h unfolding honest_def by blast
  obtain w cmd where w: "procs m a = Some w" "running w" "map_of (restart m) key = Some cmd"
    by (rule mgr_invD [OF inv a]) blast
  from send_cancelled_running [OF w(1,2) q(1), of B] obtain v
    where s1: "sendRequest C B send_cancelled m a req = (upd_proc m a (\<lambda>_. v), Some (Inl CtxErr))" "keeps_shape w v" by blast
  have "mgr_inv (upd_proc m a (\<lambda>_. v))" using inv s1(2) w(1) by (auto intro: upd_proc_inv)
  then obtain m3 b u where m3: "restartWorker start_ok False (upd_proc m a (\<lambda>_. v)) key = (m3, Inr b)" "mgr_inv m3"
      "map_of (workers m3) key = Some b" and u: "procs m3 b = Some u" "idle u" "pr_cmd u = cmd"
    by (rule restartWorker_fresh [where key = key and a = a and cmd = cmd]) (use a w(3) in simp_all)
  define u' where "u' = u\<lparr>pr_sent := pr_sent u @ frame d, pr_readers := [WantLen], pr_out := frame r\<rparr>"
  define m4 where "m4 = upd_proc m3 b (\<lambda>_. u')"
  have s2: "sendRequest C B send_cancelled m3 b req = (m4, Some (Inl CtxErr))"
    using u q(1,4) w(3) unfolding m4_def u'_def
    by (simp add: sendRequest_def send_cancelled_def idle_def writeProto_frame Let_def)
  have "mgr_inv m4" unfolding m4_def using m3(2) u(1) by (auto intro!: upd_proc_inv simp: keeps_shape_def u'_def)
  then have g: "getOrCreateWorker start_ok m4 key None = (m4, Inr b)"
    using m3(3) by (intro getOrCreateWorker_alive) (simp_all add: m4_def)
  have rd: "foldl (read_step C None) ([WantLen, WantLen], frame r @ frame r') [1, 1] =
      ([WantLen, Got (Inr (answer req))], frame r')"
    using q(2,3) by (simp add: read_step_frame read_step_simps)
  have s3: "snd (sendRequest C B (send_ok [1, 1]) m4 b later) = Some (Inr (work_result (answer req)))"
    using u q' w(3) rd unfolding m4_def u'_def
    by (simp add: sendRequest_def send_ok_def idle_def writeProto_frame Let_def)
  have "pw_Execute C B (pw_env0 send_cancelled) m key None (wr_Arguments req) (wr_Inputs req) (wr_Cancel req) =
      (m4, Some (Inl (Wrap ''worker failed after restart'' CtxErr)))"
    using getOrCreateWorker_alive [OF inv a, of start_ok None] s1(1) m3(1) s2
    by (simp add: pw_Execute_def pw_env0_def Let_def flds)
  moreover have "snd (pw_Execute C B (pw_env0 (send_ok [1, 1])) m4 key None (wr_Arguments later) (wr_Inputs later) (wr_Cancel later)) =
      Some (Inr (work_result (answer req)))"
    using g s3 by (cases "sendRequest C B (send_ok [1, 1]) m4 b later") (simp add: pw_Execute_def pw_env0_def Let_def flds)
  ultimately show ?thesis by blast
qed

theorem cancelled_response_delivered_witness:
  "\<exists>m m'. pw_Execute wpcodec0 echo (pw_env0 send_cancelled) m ''k'' None [''a''] [] False =
      (m', Some (Inl (Wrap ''worker failed after restart'' CtxErr))) \<and>
    snd (pw_Execute wpcodec0 echo (pw_env0 (send_ok [1, 1])) m' ''k'' None [] [] False) =
      Some (Inr (work_result (echo_answer (request0 [''a''])))) \<and>
    work_result (echo_answer (request0 [''a''])) \<noteq> work_result (echo_answer (request0 []))"
proof -
  define m where "m = fst (getOrCreateWorker start_ok NewPersistentWorkerManager ''k'' (Some cmd0))"
  have "mgr_inv m" unfolding m_def by (rule getOrCreateWorker_inv [OF new_mgr_inv])
  moreover have "map_of (workers m) ''k'' = Some 0"
    by (simp add: m_def NewPersistentWorkerManager_def getOrCreateWorker_def start_and_store_def startWorker_def start_ok_def)
  ultimately obtain m' where
    "pw_Execute wpcodec0 echo (pw_env0 send_cancelled) m ''k'' None [''a''] [] False =
      (m', Some (Inl (Wrap ''worker failed after restart'' CtxErr)))"
    "snd (pw_Execute wpcodec0 echo (pw_env0 (send_ok [1, 1])) m' ''k'' None [] [] False) =
      Some (Inr (work_result (echo_answer (request0 [''a'']))))"
    using cancelled_response_delivered [OF _ _ echo_honest, of m "''k''" 0 "request0 [''a'']" "request0 []"]
    by (auto simp: request0_def)
  moreover have "work_result (echo_answer (request0 [''a''])) \<noteq> work_result (echo_answer (request0 []))"
    by (simp add: work_result_def echo_answer_def request0_def)
  ultimately show ?thesis by blast
qed

end
