(* ===== verification/Staging.thy ===== *)
theory Staging
  imports Janitor Sandbox LocalStore_Props Servers
begin

text \<open>
Preparing the inputs of an action (\<^verbatim>\<open>pkg/execution/worker.go\<close>): fetching messages from the store, staging the
  tree of input directories with hard links or copies, the mounts for the sandbox, the output directories, and the
  links that replace the mounts where there is no sandbox. The worker's store is a record of operations over any
  state that contains the disk. Recursion over directories takes a bound on its depth; it returns, and with
  one result, for every bound above the depth of the tree.
\<close>

section \<open>Messages\<close>

record FileNode =
  fn_Name :: string
  fn_Digest :: "Digest option"
  fn_IsExecutable :: bool

record DirectoryNode =
  dn_Name :: string
  dn_Digest :: "Digest option"

record SymlinkNode =
  sn_Name :: string
  sn_Target :: string

record Directory =
  dir_Files :: "FileNode list"
  dir_Directories :: "DirectoryNode list"
  dir_Symlinks :: "SymlinkNode list"

record Tree =
  tree_Root :: Directory
  tree_Children :: "Directory list"

record Action =
  act_CommandDigest :: "Digest option"
  act_InputRootDigest :: "Digest option"
  act_Timeout :: "duration option"

record Command =
  cmd_Arguments :: "string list"
  cmd_EnvironmentVariables :: "(string \<times> string) list"
  cmd_OutputFiles :: "string list"
  cmd_OutputDirectories :: "string list"
  cmd_OutputPaths :: "string list"
  cmd_WorkingDirectory :: string

text \<open>
  The messages as bytes, and the digests of the SDK: from a message (\<open>digest.NewFromProto\<close>) and of contents
  (\<open>digest.NewFromBlob\<close>).
\<close>

record wcodec =
  um_Action :: "bytes \<Rightarrow> goerr + Action"
  um_Command :: "bytes \<Rightarrow> goerr + Command"
  um_Directory :: "bytes \<Rightarrow> goerr + Directory"
  m_Directory :: "Directory \<Rightarrow> goerr + bytes"
  m_Tree :: "Tree \<Rightarrow> goerr + bytes"
  NewFromProto :: fromproto
  NewFromBlob :: "bytes \<Rightarrow> Digest"

section \<open>The store of a worker\<close>

text \<open>
  The \<open>BlobStore\<close> and \<open>ActionCache\<close> of a worker pool, with the disk the worker runs on. \<open>ws_local\<close> is
  \<open>BlobPath\<close> and \<open>PutFile\<close> where the store is a \<open>LocalBlobStore\<close>.
\<close>

record 's wstore =
  ws_get :: "'s \<Rightarrow> Digest \<Rightarrow> ('s \<times> (goerr + reader)) outcome"
  ws_put :: "'s \<Rightarrow> Digest \<Rightarrow> reader \<Rightarrow> ('s \<times> goerr option) outcome"
  ws_local :: "(('s \<Rightarrow> Digest \<Rightarrow> path outcome) \<times> ('s \<Rightarrow> Digest \<Rightarrow> path \<Rightarrow> ('s \<times> goerr option) outcome)) option"
  ws_update :: "'s \<Rightarrow> Digest \<Rightarrow> ActionResult \<Rightarrow> ('s \<times> goerr option) outcome"
  ws_disk :: "'s \<Rightarrow> fsys"
  ws_setdisk :: "fsys \<Rightarrow> 's \<Rightarrow> 's"

type_synonym ('s, 'a) result = "('s \<times> (goerr + 'a)) outcome"

text \<open>Going on after a call that returned no error.\<close>

definition bindE :: "('s, 'a) result \<Rightarrow> ('s \<Rightarrow> 'a \<Rightarrow> ('s, 'b) result) \<Rightarrow> ('s, 'b) result" where
  "bindE m f = bindo m (\<lambda>(s, r). case r of Inl e \<Rightarrow> Return (s, Inl e) | Inr x \<Rightarrow> f s x)"

text \<open>The error of a call inside another one.\<close>

definition wrapE :: "string \<Rightarrow> ('s, 'a) result \<Rightarrow> ('s, 'a) result" where
  "wrapE msg m = bindo m (\<lambda>(s, r). Return (s, case r of Inl e \<Rightarrow> Inl (Wrap msg e) | Inr x \<Rightarrow> Inr x))"

definition errE :: "('s \<times> goerr option) outcome \<Rightarrow> ('s, unit) result" where
  "errE m = bindo m (\<lambda>(s, r). Return (s, case r of Some e \<Rightarrow> Inl e | None \<Rightarrow> Inr ()))"

definition on_disk :: "'s wstore \<Rightarrow> 's \<Rightarrow> (fsys \<Rightarrow> fsys \<times> (goerr + 'a)) \<Rightarrow> ('s, 'a) result" where
  "on_disk W s f = (case f (ws_disk W s) of (t, r) \<Rightarrow> Return (ws_setdisk W t s, r))"

text \<open>The same for calls that may not return: \<open>None\<close> where they do not.\<close>

definition bindO :: "('s, 'a) result option \<Rightarrow> ('s \<Rightarrow> 'a \<Rightarrow> ('s, 'b) result option) \<Rightarrow> ('s, 'b) result option" where
  "bindO m f =
     (case m of
        None \<Rightarrow> None
      | Some Panic \<Rightarrow> Some Panic
      | Some (Return (s, Inl e)) \<Rightarrow> Some (Return (s, Inl e))
      | Some (Return (s, Inr x)) \<Rightarrow> f s x)"

section \<open>Fetching messages\<close>

definition read_all :: "reader \<Rightarrow> goerr + bytes" where
  "read_all rd = (case rd_err rd of Some e \<Rightarrow> Inl e | None \<Rightarrow> Inr (rd_bytes rd))"

definition fetch :: "(bytes \<Rightarrow> goerr + 'a) \<Rightarrow> 's wstore \<Rightarrow> 's \<Rightarrow> Digest \<Rightarrow> ('s, 'a) result" where
  "fetch unmarshal W s d =
     bindE (ws_get W s d) (\<lambda>s rc.
       Return (s, case read_all rc of Inl e \<Rightarrow> Inl e | Inr data \<Rightarrow> unmarshal data))"

definition fetchAction :: "wcodec \<Rightarrow> 's wstore \<Rightarrow> 's \<Rightarrow> Digest \<Rightarrow> ('s, Action) result" where
  "fetchAction K = fetch (um_Action K)"

definition fetchCommand :: "wcodec \<Rightarrow> 's wstore \<Rightarrow> 's \<Rightarrow> Digest \<Rightarrow> ('s, Command) result" where
  "fetchCommand K = fetch (um_Command K)"

definition fetchDirectory :: "wcodec \<Rightarrow> 's wstore \<Rightarrow> 's \<Rightarrow> Digest \<Rightarrow> ('s, Directory) result" where
  "fetchDirectory K = fetch (um_Directory K)"

section \<open>Staging inputs\<close>

text \<open>
  \<open>os.OpenFile\<close> with \<open>O_CREATE|O_WRONLY|O_TRUNC\<close>, with a umask that keeps the bits of \<open>perm\<close>.
\<close>

definition OpenTrunc :: "nat \<Rightarrow> fsys \<Rightarrow> path \<Rightarrow> fsys \<times> (goerr + nat)" where
  "OpenTrunc perm s p = syscall s (\<lambda>s.
     case follow 40 s p of
       Inl e \<Rightarrow> (s, Inl e)
     | Inr q \<Rightarrow>
         (case lookup s q of
            Some (RegNode i) \<Rightarrow> (upd_inode s i (content_update (\<lambda>_. [])), Inr i)
          | Some _ \<Rightarrow> (s, Inl ErrIsDir)
          | None \<Rightarrow>
              if \<not> is_dir s (parent q) then (s, Inl ErrNotExist)
              else (new_file s q perm, Inr (next_ino s))))"

definition write_out :: "'s wstore \<Rightarrow> 's \<Rightarrow> path \<Rightarrow> reader \<Rightarrow> bool \<Rightarrow> ('s, unit) result" where
  "write_out W s targetPath rc executable =
     bindE (on_disk W s (\<lambda>t. OpenTrunc (if executable then 493 else 420) t targetPath)) (\<lambda>s f.
       on_disk W s (\<lambda>t. case Copy t f rc of (t, r) \<Rightarrow> (fst (Close t), map_sum id (\<lambda>_. ()) r)))"

text \<open>The bits 0111 of a mode.\<close>

definition exec_bits :: nat where
  "exec_bits = 73"

definition ensure_executable :: "fsys \<Rightarrow> path \<Rightarrow> fsys \<times> (goerr + unit)" where
  "ensure_executable s path =
     (case Stat s path of
        (s, Inl e) \<Rightarrow> (s, Inl e)
      | (s, Inr (IsRegular info)) \<Rightarrow>
          if and (mode info) exec_bits = 0
          then (case Chmod (or (mode info) exec_bits) s path of
                  (s, Inl e) \<Rightarrow> (s, Inl (Wrap ''failed to chmod CAS file'' e))
                | (s, Inr _) \<Rightarrow> (s, Inr ()))
          else (s, Inr ())
      | (s, Inr IsDirectory) \<Rightarrow> (s, Inr ()))"

definition stageFile :: "'s wstore \<Rightarrow> 's \<Rightarrow> path \<Rightarrow> Digest \<Rightarrow> bool \<Rightarrow> ('s, unit) result" where
  "stageFile W s targetPath d executable =
     bindE (ws_get W s d) (\<lambda>s rc.
       case ws_local W of
         None \<Rightarrow> write_out W s targetPath rc executable
       | Some (blobPath, putFile) \<Rightarrow>
           bindo (blobPath s d) (\<lambda>path.
             bindE (if executable then on_disk W s (\<lambda>t. ensure_executable t path) else Return (s, Inr ())) (\<lambda>s _.
               bindo (on_disk W s (\<lambda>t. Link t path targetPath)) (\<lambda>(s, r).
                 case r of
                   Inr _ \<Rightarrow> Return (s, Inr ())
                 | Inl _ \<Rightarrow> write_out W s targetPath rc executable))))"

fun stage_files :: "wcodec \<Rightarrow> 's wstore \<Rightarrow> 's \<Rightarrow> path \<Rightarrow> FileNode list \<Rightarrow> ('s, unit) result" where
  "stage_files K W s targetDir [] = Return (s, Inr ())"
| "stage_files K W s targetDir (file # files) =
     (case NewFromProto K (fn_Digest file) of
        Inl e \<Rightarrow> Return (s, Inl e)
      | Inr d \<Rightarrow>
          bindE (wrapE ''failed to stage file'' (stageFile W s (Join targetDir (fn_Name file)) d (fn_IsExecutable file)))
            (\<lambda>s _. stage_files K W s targetDir files))"

fun stage_symlinks :: "'s wstore \<Rightarrow> 's \<Rightarrow> path \<Rightarrow> SymlinkNode list \<Rightarrow> ('s, unit) result" where
  "stage_symlinks W s targetDir [] = Return (s, Inr ())"
| "stage_symlinks W s targetDir (l # ls) =
     bindE (wrapE ''failed to create symlink'' (on_disk W s (\<lambda>t. Symlink t (sn_Target l) (Join targetDir (sn_Name l)))))
       (\<lambda>s _. stage_symlinks W s targetDir ls)"

text \<open>\<open>stageDirectory\<close> up to the subdirectories, which it returns.\<close>

definition stage_entries :: "wcodec \<Rightarrow> 's wstore \<Rightarrow> 's \<Rightarrow> path \<Rightarrow> Digest \<Rightarrow> ('s, DirectoryNode list) result" where
  "stage_entries K W s targetDir dirDigest =
     bindE (on_disk W s (\<lambda>t. MkdirAll t targetDir)) (\<lambda>s _.
     bindE (fetchDirectory K W s dirDigest) (\<lambda>s dir.
     bindE (stage_files K W s targetDir (dir_Files dir)) (\<lambda>s _.
     bindE (stage_symlinks W s targetDir (dir_Symlinks dir)) (\<lambda>s _.
       Return (s, Inr (dir_Directories dir))))))"

text \<open>The loop over the subdirectories; \<open>rec\<close> is the recursive call, \<open>None\<close> where it does not return.\<close>

fun stage_subdirs ::
  "('s \<Rightarrow> path \<Rightarrow> Digest \<Rightarrow> ('s, unit) result option) \<Rightarrow> wcodec \<Rightarrow> 's \<Rightarrow> path \<Rightarrow> DirectoryNode list \<Rightarrow> ('s, unit) result option" where
  "stage_subdirs rec K s targetDir [] = Some (Return (s, Inr ()))"
| "stage_subdirs rec K s targetDir (subdir # subdirs) =
     (case NewFromProto K (dn_Digest subdir) of
        Inl e \<Rightarrow> Some (Return (s, Inl e))
      | Inr d \<Rightarrow>
          bindO (rec s (Join targetDir (dn_Name subdir)) d) (\<lambda>s _. stage_subdirs rec K s targetDir subdirs))"

text \<open>\<open>stageDirectory\<close> with at most \<open>n\<close> nested calls.\<close>

fun stageDirectory :: "nat \<Rightarrow> wcodec \<Rightarrow> 's wstore \<Rightarrow> 's \<Rightarrow> path \<Rightarrow> Digest \<Rightarrow> ('s, unit) result option" where
  "stageDirectory 0 K W s targetDir dirDigest = None"
| "stageDirectory (Suc n) K W s targetDir dirDigest =
     bindO (Some (stage_entries K W s targetDir dirDigest))
       (\<lambda>s subdirs. stage_subdirs (stageDirectory n K W) K s targetDir subdirs)"

definition stageInputs :: "nat \<Rightarrow> wcodec \<Rightarrow> 's wstore \<Rightarrow> 's \<Rightarrow> path \<Rightarrow> Digest \<Rightarrow> ('s, unit) result option" where
  "stageInputs n K W s workDir inputRootDigest = stageDirectory n K W s workDir inputRootDigest"

section \<open>Mounts and output directories\<close>

record InputMounts =
  FileMounts :: "(path \<times> path) list"
  Symlinks :: "(path \<times> string) list"

text \<open>\<open>filepath.Join(execRoot, relPath)\<close> for a path below the inputs.\<close>

definition mount_target :: "path \<Rightarrow> path \<Rightarrow> path \<Rightarrow> path" where
  "mount_target inputsDir execRoot p =
     Path (rooted execRoot) (Clean (rooted execRoot) (comps execRoot @ drop (length (comps inputsDir)) (comps p)))"

definition Lstat :: "fsys \<Rightarrow> path \<Rightarrow> fsys \<times> (goerr + node)" where
  "Lstat s p = syscall s (\<lambda>s. (s, case lookup s p of Some n \<Rightarrow> Inr n | None \<Rightarrow> Inl ErrNotExist))"

definition Readlink :: "fsys \<Rightarrow> path \<Rightarrow> fsys \<times> (goerr + string)" where
  "Readlink s p = syscall s (\<lambda>s. (s, case lookup s p of Some (SymNode t _) \<Rightarrow> Inr t | Some _ \<Rightarrow> Inl (ErrSys 22)
                                          | None \<Rightarrow> Inl ErrNotExist))"

text \<open>The function given to \<open>WalkDir\<close>, for one path.\<close>

definition mount_visit :: "path \<Rightarrow> path \<Rightarrow> fsys \<Rightarrow> path \<Rightarrow> InputMounts \<Rightarrow> fsys \<times> (goerr + InputMounts)" where
  "mount_visit inputsDir execRoot s p m =
     (let targetPath = mount_target inputsDir execRoot p
      in case Lstat s p of
           (s, Inl e) \<Rightarrow> (s, Inl e)
         | (s, Inr (SymNode _ _)) \<Rightarrow>
             (case Readlink s p of
                (s, Inl e) \<Rightarrow> (s, Inl (Wrap ''failed to read symlink'' e))
              | (s, Inr linkTarget) \<Rightarrow>
                  (case MkdirAll s (parent targetPath) of
                     (s, Inl e) \<Rightarrow> (s, Inl e)
                   | (s, Inr _) \<Rightarrow> (s, Inr (m\<lparr>Symlinks := AList.update targetPath linkTarget (Symlinks m)\<rparr>))))
         | (s, Inr DirNode) \<Rightarrow>
             (case MkdirAll s targetPath of (s, Inl e) \<Rightarrow> (s, Inl e) | (s, Inr _) \<Rightarrow> (s, Inr m))
         | (s, Inr (RegNode _)) \<Rightarrow>
             (case MkdirAll s (parent targetPath) of
                (s, Inl e) \<Rightarrow> (s, Inl e)
              | (s, Inr _) \<Rightarrow> (s, Inr (m\<lparr>FileMounts := AList.update p targetPath (FileMounts m)\<rparr>))))"

fun mount_walk :: "path \<Rightarrow> path \<Rightarrow> fsys \<Rightarrow> path list \<Rightarrow> InputMounts \<Rightarrow> fsys \<times> (goerr + InputMounts)" where
  "mount_walk inputsDir execRoot s [] m = (s, Inr m)"
| "mount_walk inputsDir execRoot s (p # ps) m =
     (case mount_visit inputsDir execRoot s p m of
        (s, Inl e) \<Rightarrow> (s, Inl e)
      | (s, Inr m) \<Rightarrow> mount_walk inputsDir execRoot s ps m)"

text \<open>\<open>WalkDir\<close> visits the paths in the order of \<open>Walk\<close>; the function does not change what is below the inputs.\<close>

definition buildInputMounts :: "fsys \<Rightarrow> path \<Rightarrow> path \<Rightarrow> fsys \<times> (goerr + InputMounts)" where
  "buildInputMounts s inputsDir execRoot =
     (if lookup s inputsDir = None then (s\<lparr>sysno := Suc (sysno s)\<rparr>, Inl ErrNotExist)
      else mount_walk inputsDir execRoot s (walk_paths s inputsDir) \<lparr>FileMounts = [], Symlinks = []\<rparr>)"

text \<open>One of the loops of \<open>createOutputDirectories\<close>: \<open>sel\<close> is the directory to create for an output.\<close>

fun make_dirs :: "(path \<Rightarrow> path) \<Rightarrow> string \<Rightarrow> fsys \<Rightarrow> path \<Rightarrow> string list \<Rightarrow> path list \<Rightarrow> fsys \<times> (goerr + path list)" where
  "make_dirs sel msg s workingDir [] writable = (s, Inr writable)"
| "make_dirs sel msg s workingDir (out # outs) writable =
     (let dir = sel (Join workingDir out)
      in case MkdirAll s dir of
           (s, Inl e) \<Rightarrow> (s, Inl (Wrap msg e))
         | (s, Inr _) \<Rightarrow> make_dirs sel msg s workingDir outs (writable @ [dir]))"

definition createOutputDirectories :: "fsys \<Rightarrow> path \<Rightarrow> Command \<Rightarrow> fsys \<times> (goerr + path list)" where
  "createOutputDirectories s execRoot command =
     (let workingDir = Join execRoot (cmd_WorkingDirectory command)
      in case make_dirs parent ''failed to create output parent dir'' s workingDir (cmd_OutputFiles command) [] of
           (s, Inl e) \<Rightarrow> (s, Inl e)
         | (s, Inr ps) \<Rightarrow>
             (case make_dirs id ''failed to create output dir'' s workingDir (cmd_OutputDirectories command) ps of
                (s, Inl e) \<Rightarrow> (s, Inl e)
              | (s, Inr ps) \<Rightarrow>
                  (case make_dirs parent ''failed to create output parent dir'' s workingDir (cmd_OutputPaths command) ps of
                     (s, Inl e) \<Rightarrow> (s, Inl e)
                   | (s, Inr ps) \<Rightarrow> (s, Inr (deduplicatePaths ps)))))"

text \<open>Linking the inputs into place when there is no sandbox, over the entries of the two maps in any order.\<close>

fun link_symlinks :: "fsys \<Rightarrow> (path \<times> string) list \<Rightarrow> fsys \<times> (goerr + unit)" where
  "link_symlinks s [] = (s, Inr ())"
| "link_symlinks s ((target, linkTarget) # ls) =
     (case MkdirAll s (parent target) of
        (s, Inl e) \<Rightarrow> (s, Inl (Wrap ''failed to create target dir for symlink'' e))
      | (s, Inr _) \<Rightarrow>
          (case Symlink s linkTarget target of
             (s, Inl e) \<Rightarrow> (s, Inl (Wrap ''failed to create symlink'' e))
           | (s, Inr _) \<Rightarrow> link_symlinks s ls))"

text \<open>A path as the code writes it.\<close>

definition path_string :: "path \<Rightarrow> string" where
  "path_string p =
     (if comps p = [] then if rooted p then ''/'' else ''.''
      else (if rooted p then ''/'' else []) @ hd (comps p) @ concat (map (\<lambda>c. CHR ''/'' # c) (tl (comps p))))"

fun link_files :: "fsys \<Rightarrow> (path \<times> path) list \<Rightarrow> fsys \<times> (goerr + unit)" where
  "link_files s [] = (s, Inr ())"
| "link_files s ((source, target) # fs) =
     (case MkdirAll s (parent target) of
        (s, Inl e) \<Rightarrow> (s, Inl (Wrap ''failed to create target dir'' e))
      | (s, Inr _) \<Rightarrow>
          (case Link s source target of
             (s, Inr _) \<Rightarrow> link_files s fs
           | (s, Inl _) \<Rightarrow>
               (case Symlink s (path_string source) target of
                  (s, Inl e) \<Rightarrow> (s, Inl (Wrap ''failed to link'' e))
                | (s, Inr _) \<Rightarrow> link_files s fs)))"

definition materializeInputsForUnsandboxed :: "fsys \<Rightarrow> InputMounts \<Rightarrow> fsys \<times> (goerr + unit)" where
  "materializeInputsForUnsandboxed s mounts =
     (case link_symlinks s (Symlinks mounts) of
        (s, Inl e) \<Rightarrow> (s, Inl e)
      | (s, Inr _) \<Rightarrow> link_files s (FileMounts mounts))"

section \<open>Staging returns\<close>

lemma bindE_Inr: "bindE m f = Return (t, Inr y) \<longleftrightarrow> (\<exists>s x. m = Return (s, Inr x) \<and> f s x = Return (t, Inr y))"
  by (cases m) (auto simp: bindE_def split: sum.splits)

lemma bindO_None: "bindO m f = None \<longleftrightarrow> m = None \<or> (\<exists>s x. m = Some (Return (s, Inr x)) \<and> f s x = None)"
  by (auto simp: bindO_def split: option.splits outcome.splits sum.splits)

lemma bindO_mono:
  assumes "bindO m f = Some r" "\<And>q. m = Some q \<Longrightarrow> m' = Some q" "\<And>s x. f s x = Some r \<Longrightarrow> f' s x = Some r"
  shows "bindO m' f' = Some r"
proof -
  obtain q where q: "m = Some q" using assms(1) by (cases m) (auto simp: bindO_def)
  from assms(2) [OF q] assms(1,3) q show ?thesis by (auto simp: bindO_def split: outcome.splits sum.splits)
qed

text \<open>A content-addressed store: what it returns for a digest is determined by the digest.\<close>

definition immutable :: "(Digest \<Rightarrow> bytes option) \<Rightarrow> 's wstore \<Rightarrow> bool" where
  "immutable stored W \<longleftrightarrow>
     (\<forall>s d t rd. ws_get W s d = Return (t, Inr rd) \<and> rd_err rd = None \<longrightarrow> stored d = Some (rd_bytes rd))"

text \<open>The subdirectories of a directory in the store.\<close>

definition subdir_of :: "wcodec \<Rightarrow> (Digest \<Rightarrow> bytes option) \<Rightarrow> Digest \<Rightarrow> Digest \<Rightarrow> bool" where
  "subdir_of K stored d' d \<longleftrightarrow> (\<exists>data dir subdir. stored d = Some data \<and> um_Directory K data = Inr dir \<and>
     subdir \<in> set (dir_Directories dir) \<and> NewFromProto K (dn_Digest subdir) = Inr d')"

lemma fetchDirectory_stored:
  assumes "immutable stored W" "fetchDirectory K W s d = Return (t, Inr dir)"
  obtains data where "stored d = Some data" "um_Directory K data = Inr dir"
proof -
  from assms(2) obtain u rc where g: "ws_get W s d = Return (u, Inr rc)" and
    r: "(case read_all rc of Inl e \<Rightarrow> Inl e | Inr data \<Rightarrow> um_Directory K data) = Inr dir"
    by (auto simp: fetchDirectory_def fetch_def bindE_Inr)
  from r have "rd_err rc = None" "um_Directory K (rd_bytes rc) = Inr dir"
    by (auto simp: read_all_def split: option.splits)
  with that assms(1) g show ?thesis unfolding immutable_def by blast
qed

lemma stage_entries_stored:
  assumes "immutable stored W" "stage_entries K W s t d = Return (s', Inr subdirs)"
    and "subdir \<in> set subdirs" "NewFromProto K (dn_Digest subdir) = Inr d'"
  shows "subdir_of K stored d' d"
proof -
  from assms(2) obtain u v dir where "fetchDirectory K W u d = Return (v, Inr dir)" "subdirs = dir_Directories dir"
    by (auto simp: stage_entries_def bindE_Inr)
  with assms(3,4) show ?thesis
    by (auto simp: subdir_of_def elim!: fetchDirectory_stored [OF assms(1)])
qed

lemma stage_subdirs_returns:
  "(\<And>s t subdir d. subdir \<in> set subdirs \<Longrightarrow> NewFromProto K (dn_Digest subdir) = Inr d \<Longrightarrow> rec s t d \<noteq> None) \<Longrightarrow>
   stage_subdirs rec K s t subdirs \<noteq> None"
proof (induction subdirs arbitrary: s)
  case (Cons subdir subdirs)
  have "stage_subdirs rec K u t subdirs \<noteq> None" for u
    by (rule Cons.IH) (rule Cons.prems, auto)
  moreover have "rec s (Join t (dn_Name subdir)) d \<noteq> None" if "NewFromProto K (dn_Digest subdir) = Inr d" for d
    by (rule Cons.prems [OF _ that]) simp
  ultimately show ?case
    by (cases "NewFromProto K (dn_Digest subdir)") (simp_all add: bindO_None del: not_None_eq)
qed simp

lemma stage_subdirs_mono:
  "(\<And>s t d r. rec s t d = Some r \<Longrightarrow> rec' s t d = Some r) \<Longrightarrow>
   stage_subdirs rec K s t subdirs = Some r \<Longrightarrow> stage_subdirs rec' K s t subdirs = Some r"
proof (induction subdirs arbitrary: s)
  case (Cons subdir subdirs)
  then show ?case by (auto elim!: bindO_mono split: sum.splits)
qed simp

lemma stageDirectory_mono: "stageDirectory n K W s t d = Some r \<Longrightarrow> stageDirectory (n + k) K W s t d = Some r"
proof (induction n arbitrary: s t d r)
  case (Suc n)
  have "stage_subdirs (stageDirectory (n + k) K W) K u t subdirs = Some q"
    if "stage_subdirs (stageDirectory n K W) K u t subdirs = Some q" for u subdirs q
    using stage_subdirs_mono [OF _ that] Suc.IH by blast
  with Suc.prems show ?case by (auto elim!: bindO_mono)
qed simp


text \<open>A store that is a disk and two directories, one in the other.\<close>

definition wcodec0 :: wcodec where
  "wcodec0 = \<lparr>um_Action = (\<lambda>_. Inl ErrEOF), um_Command = (\<lambda>_. Inl ErrEOF),
     um_Directory = (\<lambda>b. Inr \<lparr>dir_Files = [], dir_Directories =
        (if b = [1] then [\<lparr>dn_Name = ''sub'', dn_Digest = Some \<lparr>Hash = ''leaf'', Size = 0\<rparr>\<rparr>] else []), dir_Symlinks = []\<rparr>),
     m_Directory = (\<lambda>_. Inl ErrEOF), m_Tree = (\<lambda>_. Inl ErrEOF),
     NewFromProto = (\<lambda>d. case d of None \<Rightarrow> Inl ErrEOF | Some d \<Rightarrow> Inr d),
     NewFromBlob = (\<lambda>b. \<lparr>Hash = ''leaf'', Size = int (length b)\<rparr>)\<rparr>"

definition stored0 :: "Digest \<Rightarrow> bytes option" where
  "stored0 d = (if Hash d = ''root'' then Some [1] else Some [])"

definition wstore0 :: "fsys wstore" where
  "wstore0 = \<lparr>ws_get = (\<lambda>s d. Return (s, Inr \<lparr>rd_bytes = the (stored0 d), rd_err = None\<rparr>)),
     ws_put = (\<lambda>s d rd. Return (s, None)), ws_local = None, ws_update = (\<lambda>s d r. Return (s, None)),
     ws_disk = (\<lambda>s. s), ws_setdisk = (\<lambda>t s. t)\<rparr>"


end
