(* ===== verification/Staging_Props.thy ===== *)
theory Staging_Props
  imports Staging Proxy
begin

text \<open>
What staging a file does to the disk and to the store it links from: the locale of stores a worker can link
  from, interpreted on the local store and on the proxy store, and the damage done by two files of the same name.
\<close>

section \<open>System calls of staging\<close>

lemma ensure_executable_reg:
  assumes "lookup s p = Some (RegNode i)" "inodes s i = Some ino" "comps p \<noteq> []" "ensure_executable s p = (t, r)"
  shows "quiet i s t" "map_option content (inodes t i) = Some (content ino)"
    "r = Inr () \<Longrightarrow> \<exists>ino'. inodes t i = Some ino' \<and> and (mode ino') exec_bits \<noteq> 0"
proof -
  let ?s = "s\<lparr>sysno := Suc (sysno s)\<rparr>"
  have or: "and (or m exec_bits) exec_bits \<noteq> 0" for m :: nat
  proof -
    have "and (or m exec_bits) exec_bits = exec_bits" by (rule bit_eqI) (auto simp: bit_simps)
    then show ?thesis by (simp add: exec_bits_def)
  qed
  have st: "Stat s p = (?s, case fault s (sysno s) of Some e \<Rightarrow> Inl e | None \<Rightarrow> Inr (IsRegular ino))"
    using assms(1-3) follow_self [of ?s p]
    by (auto simp: Stat_def syscall_def Let_def is_dir_def file_at_def split: option.split)
  have l: "lookup ?s p = Some (RegNode i)" using assms(1) by simp
  obtain u q where c: "Chmod (or (mode ino) exec_bits) ?s p = (u, q)" by fastforce
  note ch = Chmod_entry [OF l assms(3) c]
  have "quiet i s u" using ch(1) by (auto simp: quiet_def)
  then show "quiet i s t" "map_option content (inodes t i) = Some (content ino)"
    "r = Inr () \<Longrightarrow> \<exists>ino'. inodes t i = Some ino' \<and> and (mode ino') exec_bits \<noteq> 0"
    using assms(2,4) st c ch(2,3) or
    by (auto simp: ensure_executable_def split: option.splits if_splits sum.splits)
qed

text \<open>Writing a file that is new.\<close>

definition grown :: "fsys \<Rightarrow> fsys \<Rightarrow> path \<Rightarrow> bool" where
  "grown s t p \<longleftrightarrow> (\<forall>q. q \<noteq> p \<longrightarrow> lookup t q = lookup s q) \<and>
     (\<forall>j < next_ino s. map_option content (inodes t j) = map_option content (inodes s j)) \<and> next_ino s \<le> next_ino t"

lemma grown_trans: "grown s t p \<Longrightarrow> grown t u p \<Longrightarrow> grown s u p"
  by (auto simp: grown_def)

lemma OpenTrunc_new:
  assumes "lookup s p = None" "OpenTrunc perm s p = (t, r)"
  shows "grown s t p" "r = Inr i \<Longrightarrow> i = next_ino s \<and> lookup t p = Some (RegNode i) \<and> next_ino t = Suc i \<and>
      (\<exists>ino. inodes t i = Some ino \<and> content ino = [] \<and> mode ino = perm)"
  using assms follow_self [of "s\<lparr>sysno := Suc (sysno s)\<rparr>" p]
  by (auto simp: OpenTrunc_def syscall_def Let_def grown_def split: option.splits if_splits)

lemma write_out_new:
  assumes "lookup (ws_disk W s) p = None" "\<And>t s. ws_disk W (ws_setdisk W t s) = t"
    and "write_out W s p rc executable = Return (u, r)"
  shows "grown (ws_disk W s) (ws_disk W u) p"
    and "r = Inr () \<Longrightarrow> \<exists>ino. file_at (ws_disk W u) p = Some ino \<and> content ino = rd_bytes rc \<and>
      mode ino = (if executable then 493 else 420) \<and> rd_err rc = None"
proof -
  let ?perm = "if executable then 493 else 420 :: nat"
  obtain t q where o: "OpenTrunc ?perm (ws_disk W s) p = (t, q)" by fastforce
  note op = OpenTrunc_new [OF assms(1) o]
  have "grown (ws_disk W s) (ws_disk W u) p \<and>
    (r = Inr () \<longrightarrow> (\<exists>ino. file_at (ws_disk W u) p = Some ino \<and> content ino = rd_bytes rc \<and>
      mode ino = ?perm \<and> rd_err rc = None))"
  proof (cases q)
    case (Inl e)
    then show ?thesis using assms(2,3) o op(1) by (auto simp: write_out_def on_disk_def bindE_def)
  next
    case (Inr i)
    obtain v x where c: "Copy t i rc = (v, x)" by fastforce
    from Inr op(2) obtain ino where i: "i = next_ino (ws_disk W s)" "lookup t p = Some (RegNode i)" "next_ino t = Suc i"
      "inodes t i = Some ino" "content ino = []" "mode ino = ?perm" by blast
    have u: "ws_disk W u = fst (Close v)" "r = map_sum id (\<lambda>_. ()) x"
      using assms(2,3) o Inr c by (auto simp: write_out_def on_disk_def bindE_def)
    have "kept {} {i} t v" using Copy_kept [of i t rc] c by simp
    moreover have k: "kept {} {} v (fst (Close v))" by (rule Close_kept)
    ultimately have g: "grown (ws_disk W s) (ws_disk W u) p"
      using op(1) i(1) unfolding u(1) by (auto simp: kept_def grown_def)
    have "\<exists>ino. file_at (ws_disk W u) p = Some ino \<and> content ino = rd_bytes rc \<and> mode ino = ?perm \<and> rd_err rc = None"
      if "r = Inr ()"
    proof -
      from that u(2) obtain n where "x = Inr n" by (cases x) auto
      with c have "Copy t i rc = (v, Inr n)" by simp
      note cp = Copy_Inr [OF this i(4)]
      then show ?thesis using k i unfolding u(1) by (auto simp: kept_def file_at_def)
    qed
    with g show ?thesis by blast
  qed
  then show "grown (ws_disk W s) (ws_disk W u) p"
    "r = Inr () \<Longrightarrow> \<exists>ino. file_at (ws_disk W u) p = Some ino \<and> content ino = rd_bytes rc \<and>
      mode ino = ?perm \<and> rd_err rc = None" by blast+
qed

section \<open>Stores a worker can link from\<close>

text \<open>
  What \<open>stageFile\<close> relies on of a \<open>LocalBlobStore\<close>: after \<open>Get\<close> the blob is a file at \<open>BlobPath\<close>, with the bytes of
  the reader.
\<close>

locale linkable_store =
  fixes W :: "'s wstore" and blobPath :: "'s \<Rightarrow> Digest \<Rightarrow> path outcome"
    and putFile :: "'s \<Rightarrow> Digest \<Rightarrow> path \<Rightarrow> ('s \<times> goerr option) outcome"
    and inv :: "'s \<Rightarrow> bool" and okh :: "string \<Rightarrow> bool"
  assumes linkable: "ws_local W = Some (blobPath, putFile)"
    and disk_law: "ws_disk W (ws_setdisk W f s) = f"
    and get_file: "inv s \<Longrightarrow> okh (Hash d) \<Longrightarrow> ws_get W s d = Return (t, Inr rd) \<Longrightarrow>
      \<exists>p i ino. blobPath t d = Return p \<and> comps p \<noteq> [] \<and> fs_wf (ws_disk W t) \<and> lookup (ws_disk W t) p = Some (RegNode i) \<and>
        inodes (ws_disk W t) i = Some ino \<and> (rd_err rd = None \<longrightarrow> rd_bytes rd = content ino)"
begin

lemma stage_fresh:
  assumes "inv s" "okh (Hash d)" "ws_get W s d = Return (t, Inr rd)" "rd_err rd = None"
    and "lookup (ws_disk W t) target = None" "stageFile W s target d executable = Return (u, r)"
  shows "grown (ws_disk W t) (ws_disk W u) target \<and>
    (r = Inr () \<longrightarrow> (\<exists>ino. file_at (ws_disk W u) target = Some ino \<and> content ino = rd_bytes rd \<and>
      (executable \<longrightarrow> and (mode ino) exec_bits \<noteq> 0)))"
proof -
  from get_file [OF assms(1-3)] obtain p i ino where p: "blobPath t d = Return p" "comps p \<noteq> []" "fs_wf (ws_disk W t)"
    "lookup (ws_disk W t) p = Some (RegNode i)" "inodes (ws_disk W t) i = Some ino" "rd_bytes rd = content ino"
    using assms(4) by blast
  define e where "e = (if executable then on_disk W t (\<lambda>x. ensure_executable x p) else Return (t, Inr ()))"
  have "\<exists>t' q. e = Return (t', q) \<and> quiet i (ws_disk W t) (ws_disk W t') \<and>
      map_option content (inodes (ws_disk W t') i) = Some (content ino) \<and>
      (q = Inr () \<longrightarrow> executable \<longrightarrow> (\<exists>ino'. inodes (ws_disk W t') i = Some ino' \<and> and (mode ino') exec_bits \<noteq> 0))"
    using ensure_executable_reg [OF p(4,5,2)] p(5) disk_law
    by (cases "ensure_executable (ws_disk W t) p") (auto simp: e_def on_disk_def)
  then obtain t' q where e: "e = Return (t', q)" "quiet i (ws_disk W t) (ws_disk W t')"
      "map_option content (inodes (ws_disk W t') i) = Some (content ino)"
      "q = Inr () \<Longrightarrow> executable \<Longrightarrow> \<exists>ino'. inodes (ws_disk W t') i = Some ino' \<and> and (mode ino') exec_bits \<noteq> 0" by blast
  have g1: "grown (ws_disk W t) (ws_disk W t') target"
  proof -
    have "map_option content (inodes (ws_disk W t') j) = map_option content (inodes (ws_disk W t) j)" for j
      using e(2,3) p(5) by (cases "j = i") (auto simp: quiet_def)
    then show ?thesis using e(2) by (simp add: grown_def quiet_def)
  qed
  have body: "bindE e (\<lambda>s _. bindo (on_disk W s (\<lambda>t. Link t p target)) (\<lambda>(s, r).
      case r of Inr _ \<Rightarrow> Return (s, Inr ()) | Inl _ \<Rightarrow> write_out W s target rd executable)) = Return (u, r)"
    using assms(3,6) linkable p(1) by (simp add: stageFile_def bindE_def e_def)
  show ?thesis
  proof (cases q)
    case (Inl err)
    then show ?thesis using body e(1) g1 by (auto simp: bindE_def)
  next
    case (Inr x)
    obtain v l where lk: "Link (ws_disk W t') p target = (v, l)" by fastforce
    have p': "lookup (ws_disk W t') p = Some (RegNode i)" using p(4) e(2) by (simp add: quiet_def)
    show ?thesis
    proof (cases l)
      case Inr': (Inr y)
      note li = Link_Inr [OF lk [unfolded Inr'] p']
      have u: "ws_disk W u = v" "r = Inr ()"
        using body e(1) Inr lk Inr' disk_law by (auto simp: bindE_def on_disk_def)
      have "grown (ws_disk W t') v target" using li by (simp add: grown_def)
      then have "grown (ws_disk W t) v target" using g1 by (rule grown_trans [rotated])
      moreover from e(3) obtain ino' where "inodes (ws_disk W t') i = Some ino'" "content ino' = content ino" by auto
      ultimately show ?thesis using li e(4) Inr p(6) u by (auto simp: file_at_def)
    next
      case Inl': (Inl err)
      have st: "still (ws_disk W t') v" using lk Inl' by (blast intro: Link_Inl)
      define t2 where "t2 = ws_setdisk W v t'"
      have w: "write_out W t2 target rd executable = Return (u, r)"
        using body e(1) Inr lk Inl' by (simp add: bindE_def on_disk_def t2_def)
      have n: "lookup (ws_disk W t2) target = None"
        using st e(2) assms(5) disk_law by (simp add: t2_def still_def quiet_def)
      have "grown (ws_disk W t') (ws_disk W t2) target" using st disk_law by (simp add: t2_def still_def grown_def)
      then have "grown (ws_disk W t) (ws_disk W u) target"
        using g1 write_out_new(1) [OF n disk_law w] by (blast intro: grown_trans)
      moreover have "and (493 :: nat) exec_bits \<noteq> 0" by (simp add: exec_bits_def)
      ultimately show ?thesis using write_out_new(2) [OF n disk_law w] by auto
    qed
  qed
qed

end

definition local_wstore :: "arcodec \<Rightarrow> LocalStore wstore" where
  "local_wstore P = \<lparr>ws_get = Get, ws_put = Put, ws_local = Some (BlobPath, PutFile), ws_update = UpdateActionResult P,
     ws_disk = disk, ws_setdisk = (\<lambda>t s. s\<lparr>disk := t\<rparr>)\<rparr>"

text \<open>The proxy store, with its writing operations as arguments.\<close>

definition proxy_wstore ::
  "('r \<Rightarrow> Digest \<Rightarrow> ('r \<times> (goerr + reader)) outcome) \<Rightarrow>
   ('r ProxyStore \<Rightarrow> Digest \<Rightarrow> reader \<Rightarrow> ('r ProxyStore \<times> goerr option) outcome) \<Rightarrow>
   ('r ProxyStore \<Rightarrow> Digest \<Rightarrow> path \<Rightarrow> ('r ProxyStore \<times> goerr option) outcome) \<Rightarrow>
   ('r ProxyStore \<Rightarrow> Digest \<Rightarrow> ActionResult \<Rightarrow> ('r ProxyStore \<times> goerr option) outcome) \<Rightarrow> 'r ProxyStore wstore" where
  "proxy_wstore rget put putFile upd = \<lparr>ws_get = px_Get rget None, ws_put = put, ws_local = Some (px_BlobPath, putFile),
     ws_update = upd, ws_disk = (\<lambda>p. disk (px_local p)),
     ws_setdisk = (\<lambda>t p. p\<lparr>px_local := (px_local p)\<lparr>disk := t\<rparr>\<rparr>)\<rparr>"

lemma Get_file:
  assumes "store_inv s" "hexhash (Hash d)" "Get s d = Return (t, Inr rd)"
  shows "store_inv t" "\<exists>p i ino. BlobPath t d = Return p \<and> comps p \<noteq> [] \<and> fs_wf (disk t) \<and> lookup (disk t) p = Some (RegNode i) \<and>
    inodes (disk t) i = Some ino \<and> (rd_err rd = None \<longrightarrow> rd_bytes rd = content ino)"
proof -
  from Get_entries [OF assms(1,2)] assms(3) obtain c where t: "store_inv t" "entry ''cas'' t (Hash d) = Some c"
    "rd_err rd = None \<longrightarrow> rd_bytes rd = c" by auto
  show "store_inv t" by (rule t(1))
  obtain i ino where i: "lookup (disk t) (entry_at ''cas'' (rootDir t) (Hash d)) = Some (RegNode i)"
    "inodes (disk t) i = Some ino" "content ino = c" by (rule entry_Some [OF t(1) plain_kinds(1) assms(2) t(2)])
  have bp: "BlobPath t d = Return (entry_at ''cas'' (rootDir t) (Hash d))"
    unfolding BlobPath_def using store_path [OF t(1) assms(2) plain_kinds(1)] by simp
  have wf: "fs_wf (disk t)" using t(1) by (simp add: store_inv_def)
  show "\<exists>p i ino. BlobPath t d = Return p \<and> comps p \<noteq> [] \<and> fs_wf (disk t) \<and> lookup (disk t) p = Some (RegNode i) \<and>
    inodes (disk t) i = Some ino \<and> (rd_err rd = None \<longrightarrow> rd_bytes rd = content ino)"
    using bp wf i t(3)
    by (intro exI [of _ "entry_at ''cas'' (rootDir t) (Hash d)"] exI [of _ i] exI [of _ ino]) simp
qed

lemma px_Get_local:
  assumes "store_inv (px_local p)" "hexhash (Hash d)" "px_Get rget None p d = Return (q, Inr rd)"
  obtains s where "store_inv s" "Get s d = Return (px_local q, Inr rd)"
proof -
  from Has_entries [OF assms(1,2)] obtain l b where l: "Has (px_local p) d = Return (l, b)" "store_inv l" by auto
  show ?thesis
  proof (cases "b = Inr True")
    case True
    then show ?thesis using that l assms(3) by (auto simp: px_Get_def local_get_def bindo_Return_iff)
  next
    case False
    with assms(3) l(1) obtain p' where f: "remote_fetch rget (p\<lparr>px_local := l\<rparr>) d = Return (p', None)"
      "local_get p' d = Return (q, Inr rd)"
      by (auto simp: px_Get_def bindo_Return_iff split: option.splits)
    from f(1) obtain rm r where "rget (px_remote p) d = Return (rm, r)" by (auto simp: remote_fetch_def bindo_Return_iff)
    with f(1) obtain rc where "Put l d rc = Return (px_local p', None)"
      by (cases r) (auto simp: remote_fetch_def bindo_Return_iff)
    with Put_entries [OF l(2) assms(2), of rc] have "store_inv (px_local p')" by auto
    with that f(2) show ?thesis by (auto simp: local_get_def bindo_Return_iff)
  qed
qed

interpretation local_link: linkable_store "local_wstore P" BlobPath PutFile store_inv hexhash for P
  by unfold_locales (use Get_file(2) in \<open>auto simp: local_wstore_def\<close>)

interpretation proxy_link: linkable_store "proxy_wstore rget put putFile upd" px_BlobPath putFile
  "\<lambda>p. store_inv (px_local p)" hexhash for rget put putFile upd
proof unfold_locales
  show "\<exists>path i ino. px_BlobPath q d = Return path \<and> comps path \<noteq> [] \<and> fs_wf (ws_disk (proxy_wstore rget put putFile upd) q) \<and>
      lookup (ws_disk (proxy_wstore rget put putFile upd) q) path = Some (RegNode i) \<and>
      inodes (ws_disk (proxy_wstore rget put putFile upd) q) i = Some ino \<and> (rd_err rd = None \<longrightarrow> rd_bytes rd = content ino)"
    if "store_inv (px_local p)" "hexhash (Hash d)" "ws_get (proxy_wstore rget put putFile upd) p d = Return (q, Inr rd)"
    for p d q rd
  proof -
    note h = that
    from h(3) have g: "px_Get rget None p d = Return (q, Inr rd)" by (simp add: proxy_wstore_def)
    obtain s where "store_inv s" "Get s d = Return (px_local q, Inr rd)" by (rule px_Get_local [OF h(1,2) g])
    from Get_file(2) [OF this(1) h(2) this(2)] show ?thesis by (simp add: px_BlobPath_def proxy_wstore_def)
  qed
qed (simp_all add: proxy_wstore_def)

lemma grown_files:
  assumes "grown s t p" "fs_wf s" "q \<noteq> p"
  shows "map_option content (file_at t q) = map_option content (file_at s q)"
proof -
  have "map_option content (inodes t i) = map_option content (inodes s i)" if "lookup s q = Some (RegNode i)" for i
    using assms(1) fs_wfD [OF assms(2) that] by (simp add: grown_def)
  then show ?thesis using assms(1,3) by (simp add: grown_def file_at_def split: option.split node.split)
qed

text \<open>C32: Staging a file at a free path from the proxy store leaves the contents of every other file alone, those of the
  store included, also where it fails; when it succeeds, whether by a hard link or by copying, the path is a regular
  file with the bytes of the blob, and executable if asked for.\<close>

theorem staged_file:
  assumes "store_inv (px_local p)" "hexhash (Hash d)" "px_Get rget None p d = Return (q, Inr rd)" "rd_err rd = None"
    and "lookup (disk (px_local q)) target = None"
    and "stageFile (proxy_wstore rget put putFile upd) p target d executable = Return (u, r)"
  shows "(\<forall>path. path \<noteq> target \<longrightarrow>
      map_option content (file_at (disk (px_local u)) path) = map_option content (file_at (disk (px_local q)) path)) \<and>
    (r = Inr () \<longrightarrow> (\<exists>ino. file_at (disk (px_local u)) target = Some ino \<and> content ino = rd_bytes rd \<and>
      (executable \<longrightarrow> and (mode ino) exec_bits \<noteq> 0)))"
proof -
  have W: "ws_disk (proxy_wstore rget put putFile upd) = (\<lambda>p. disk (px_local p))"
    "ws_get (proxy_wstore rget put putFile upd) = px_Get rget None" by (simp_all add: proxy_wstore_def)
  note st = proxy_link.stage_fresh [of p d rget put putFile upd q rd target executable u r, unfolded W, OF assms]
  obtain s where "store_inv s" "Get s d = Return (px_local q, Inr rd)" by (rule px_Get_local [OF assms(1-3)])
  then have "store_inv (px_local q)" using Get_file(1) assms(2) by blast
  then have "fs_wf (disk (px_local q))" by (simp add: store_inv_def)
  with st show ?thesis by (blast intro: grown_files)
qed

section \<open>Two files of the same name\<close>

text \<open>The same files, up to access times and modes.\<close>

definition steady :: "LocalStore \<Rightarrow> LocalStore \<Rightarrow> bool" where
  "steady s t \<longleftrightarrow> rootDir t = rootDir s \<and> lookup (disk t) = lookup (disk s) \<and> fault (disk t) = fault (disk s) \<and>
     (\<forall>j. map_option content (inodes (disk t) j) = map_option content (inodes (disk s) j))"

lemma steady_trans: "steady s t \<Longrightarrow> steady t u \<Longrightarrow> steady s u"
  by (simp add: steady_def)

lemma steady_entry: "steady s t \<Longrightarrow> entry k t h = entry k s h"
  by (simp add: steady_def entry_def file_at_def split: option.split node.split)

lemma touch_steady:
  assumes "lookup (disk s) p = Some (RegNode i)" "comps p \<noteq> []"
  shows "steady s (s\<lparr>disk := touch s ((disk s)\<lparr>sysno := n\<rparr>) p\<rparr>)"
proof -
  note q = touch_sysno [OF assms, of s n]
  have "map_option content (inodes (touch s ((disk s)\<lparr>sysno := n\<rparr>) p) j) = map_option content (inodes (disk s) j)" for j
    using q by (cases "j = i") (auto simp: quiet_def)
  then show ?thesis using q(1) by (simp add: steady_def quiet_def)
qed

lemma present:
  assumes "store_inv s" "hexhash (Hash d)" "faultless (disk s)" "entry ''cas'' s (Hash d) = Some x"
  shows "\<exists>t. Has s d = Return (t, Inr True) \<and> store_inv t \<and> steady s t"
    and "\<exists>t. Get s d = Return (t, Inr \<lparr>rd_bytes = x, rd_err = None\<rparr>) \<and> store_inv t \<and> steady s t"
proof -
  let ?p = "entry_at ''cas'' (rootDir s) (Hash d)" and ?n = "Suc (sysno (disk s))"
  obtain i ino where i: "lookup (disk s) ?p = Some (RegNode i)" "inodes (disk s) i = Some ino" "content ino = x"
    by (rule entry_Some [OF assms(1) plain_kinds(1) assms(2,4)])
  have bp: "BlobPath s d = Return ?p" unfolding BlobPath_def using store_path [OF assms(1,2) plain_kinds(1)] by simp
  note ts = touch_steady [OF i(1) comps_entry_at]
  have h: "Has s d = Return (s\<lparr>disk := touch s ((disk s)\<lparr>sysno := ?n\<rparr>) ?p\<rparr>, Inr True)"
    using bp i assms(3) Stat_entry [OF assms(1) plain_kinds(1) assms(2)] by (simp add: Has_def faultless_def file_at_def)
  moreover have "\<exists>t r. Has s d = Return (t, r) \<and> store_inv t" using Has_entries [OF assms(1,2)] by auto
  ultimately show "\<exists>t. Has s d = Return (t, Inr True) \<and> store_inv t \<and> steady s t" using ts by auto
  define v where "v = touch s ((disk s)\<lparr>sysno := ?n\<rparr>) ?p"
  have v: "steady s (s\<lparr>disk := v\<rparr>)" unfolding v_def by (rule ts)
  then have "map_option content (inodes v i) = Some x" using i(2,3) by (simp add: steady_def)
  then obtain ino' where "inodes v i = Some ino'" "content ino' = x" by auto
  moreover have "fault v = fault (disk s)" using v by (simp add: steady_def)
  ultimately have g: "Get s d = Return (s\<lparr>disk := v\<lparr>sysno := Suc (sysno v)\<rparr>\<rparr>, Inr \<lparr>rd_bytes = x, rd_err = None\<rparr>)"
    using bp i assms(3) Open_entry [OF assms(1) plain_kinds(1) assms(2)]
    by (simp add: Get_def faultless_def read_handle_def Let_def v_def)
  moreover have "steady s (s\<lparr>disk := v\<lparr>sysno := Suc (sysno v)\<rparr>\<rparr>)" using v by (simp add: steady_def)
  moreover have "\<exists>t r. Get s d = Return (t, r) \<and> store_inv t" using Get_entries [OF assms(1,2)] by auto
  ultimately show "\<exists>t. Get s d = Return (t, Inr \<lparr>rd_bytes = x, rd_err = None\<rparr>) \<and> store_inv t \<and> steady s t" by auto
qed

lemma px_Get_present:
  assumes "store_inv (px_local p)" "hexhash (Hash d)" "faultless (disk (px_local p))" "entry ''cas'' (px_local p) (Hash d) = Some x"
  obtains q where "px_Get rget None p d = Return (q, Inr \<lparr>rd_bytes = x, rd_err = None\<rparr>)" "store_inv (px_local q)"
    "steady (px_local p) (px_local q)"
proof -
  obtain l where l: "Has (px_local p) d = Return (l, Inr True)" "store_inv l" "steady (px_local p) l"
    using present(1) [OF assms] by blast
  have "faultless (disk l)" "entry ''cas'' l (Hash d) = Some x"
    using l(3) assms(3,4) by (simp_all add: steady_entry) (simp add: steady_def faultless_def)
  with present(2) [OF l(2) assms(2)] obtain t where
    t: "Get l d = Return (t, Inr \<lparr>rd_bytes = x, rd_err = None\<rparr>)" "store_inv t" "steady l t" by blast
  show ?thesis
    by (rule that [of "p\<lparr>px_local := t\<rparr>"]) (use l t in \<open>auto simp: px_Get_def local_get_def intro: steady_trans\<close>)
qed

text \<open>Staging by a hard link: the path shares the inode of the blob.\<close>

lemma stage_link:
  assumes "store_inv (px_local p)" "hexhash (Hash d)" "faultless (disk (px_local p))"
    and "lookup (disk (px_local p)) (entry_at ''cas'' (rootDir (px_local p)) (Hash d)) = Some (RegNode i)"
    and "lookup (disk (px_local p)) target = None" "is_dir (disk (px_local p)) (parent target)"
  obtains u where "stageFile (proxy_wstore rget put putFile upd) p target d False = Return (u, Inr ())"
    "store_inv (px_local u)" "faultless (disk (px_local u))" "rootDir (px_local u) = rootDir (px_local p)"
    "lookup (disk (px_local u)) = (lookup (disk (px_local p)))(target \<mapsto> RegNode i)"
    "\<forall>j. map_option content (inodes (disk (px_local u)) j) = map_option content (inodes (disk (px_local p)) j)"
proof -
  let ?at = "entry_at ''cas'' (rootDir (px_local p)) (Hash d)"
  have "entry ''cas'' (px_local p) (Hash d) \<noteq> None"
    using entry_None [OF assms(1) plain_kinds(1) assms(2)] assms(4) by simp
  then obtain x where x: "entry ''cas'' (px_local p) (Hash d) = Some x" by blast
  obtain q where q: "px_Get rget None p d = Return (q, Inr \<lparr>rd_bytes = x, rd_err = None\<rparr>)" "store_inv (px_local q)"
    "steady (px_local p) (px_local q)" by (rule px_Get_present [OF assms(1-3) x])
  let ?D = "disk (px_local q)" and ?at' = "entry_at ''cas'' (rootDir (px_local q)) (Hash d)"
  have D: "lookup ?D ?at' = Some (RegNode i)" "lookup ?D target = None" "is_dir ?D (parent target)" "faultless ?D"
    using q(3) assms(3-6) by (simp_all add: steady_def is_dir_def faultless_def)
  have bp: "px_BlobPath q d = Return ?at'"
    unfolding px_BlobPath_def BlobPath_def using store_path [OF q(2) assms(2) plain_kinds(1)] by simp
  define E where "E = set_node (?D\<lparr>sysno := Suc (sysno ?D)\<rparr>) target (RegNode i)"
  have lk: "Link ?D ?at' target = (E, Inr ())"
    using D by (simp add: Link_def syscall_faultless E_def is_dir_def)
  define u where "u = q\<lparr>px_local := (px_local q)\<lparr>disk := E\<rparr>\<rparr>"
  have st: "stageFile (proxy_wstore rget put putFile upd) p target d False = Return (u, Inr ())"
    using q(1) bp lk by (simp add: stageFile_def proxy_wstore_def bindE_def on_disk_def u_def)
  have l: "lookup E = (lookup ?D)(target \<mapsto> RegNode i)" "inodes E = inodes ?D" "next_ino E = next_ino ?D" "fault E = fault ?D"
    by (simp_all add: E_def)
  have "fs_wf E"
    using q(2) D(1) unfolding store_inv_def fs_wf_def l by (auto split: if_splits)
  then have "store_inv (px_local u)" using q(2) l unfolding store_inv_def by (auto simp: u_def)
  then show ?thesis
    by (rule that [OF st]) (use l D(4) q(3) in \<open>simp_all add: u_def steady_def faultless_def\<close>)
qed

text \<open>Writing over a file that exists, through any of its names.\<close>

lemma write_out_over:
  assumes "faultless (ws_disk W s)" "lookup (ws_disk W s) p = Some (RegNode i)" "inodes (ws_disk W s) i \<noteq> None"
    and "\<And>t s. ws_disk W (ws_setdisk W t s) = t" "rd_err rc = None"
  shows "\<exists>D1 D. write_out W s p rc executable = Return (ws_setdisk W D (ws_setdisk W D1 s), Inr ()) \<and>
    lookup D = lookup (ws_disk W s) \<and> map_option content (inodes D i) = Some (rd_bytes rc)"
proof -
  let ?D = "ws_disk W s"
  let ?D1 = "upd_inode (?D\<lparr>sysno := Suc (sysno ?D)\<rparr>) i (content_update (\<lambda>_. []))"
  from assms(3) obtain a where a: "inodes ?D i = Some a" by blast
  have op: "OpenTrunc (if executable then 493 else 420) ?D p = (?D1, Inr i)"
    using assms(1,2) follow_self [of "?D\<lparr>sysno := Suc (sysno ?D)\<rparr>" p] by (simp add: OpenTrunc_def syscall_faultless)
  have f: "faultless ?D1" using assms(1) by (simp add: faultless_def)
  let ?D2 = "upd_inode (?D1\<lparr>sysno := Suc (sysno ?D1)\<rparr>) i (content_update (\<lambda>c. c @ rd_bytes rc))"
  have cp: "Copy ?D1 i rc = (?D2, Inr (length (rd_bytes rc)))"
    using f assms(5) by (simp add: Copy_def Write_def syscall_faultless)
  have "faultless ?D2" using f by (simp add: faultless_def)
  then have "fst (Close ?D2) = ?D2\<lparr>sysno := Suc (sysno ?D2)\<rparr>" by (simp add: Close_def syscall_faultless)
  then show ?thesis using op cp a assms(4)
    by (intro exI [of _ ?D1] exI [of _ "fst (Close ?D2)"]) (simp add: write_out_def on_disk_def bindE_def)
qed

lemma entry_cong:
  assumes "rootDir t = rootDir s" "lookup (disk t) (entry_at k (rootDir s) h) = lookup (disk s) (entry_at k (rootDir s) h)"
    and "\<forall>j. map_option content (inodes (disk t) j) = map_option content (inodes (disk s) j)"
  shows "entry k t h = entry k s h"
  using assms by (simp add: entry_def file_at_def split: option.split node.split)


text \<open>A store with two blobs and a directory to stage into.\<close>

definition two_blobs :: LocalStore where
  "two_blobs = store0\<lparr>disk := disk0\<lparr>
     nodes := [(Path True [''data'', ''cas'', ''ab'', ''cd'', ''abcdef''], RegNode 0),
               (Path True [''data'', ''cas'', ''12'', ''34'', ''123456''], RegNode 1), (Path True [''b''], DirNode)],
     inodes := [0 \<mapsto> \<lparr>content = [1, 2], mode = 292, atime = 0\<rparr>, 1 \<mapsto> \<lparr>content = [3], mode = 292, atime = 0\<rparr>],
     next_ino := 2\<rparr>\<rparr>"

definition digest2 :: Digest where
  "digest2 = \<lparr>Hash = ''123456'', Size = 1\<rparr>"

definition proxy2 :: "unit ProxyStore" where
  "proxy2 = NewProxyStore two_blobs () 1"

lemma two_blobs_lookup:
  "lookup (disk two_blobs) p =
     (if p = Path True [''data'', ''cas'', ''ab'', ''cd'', ''abcdef''] then Some (RegNode 0)
      else if p = Path True [''data'', ''cas'', ''12'', ''34'', ''123456''] then Some (RegNode 1)
      else if p = Path True [''b''] then Some DirNode else None)"
  by (simp add: two_blobs_def lookup_def)

lemma two_blobs_inv: "store_inv two_blobs" "faultless (disk two_blobs)" "hexhash (Hash digest2)"
proof -
  have "fs_wf (disk two_blobs)" unfolding fs_wf_def two_blobs_lookup by (simp add: two_blobs_def)
  moreover have "entry_at k (rootDir two_blobs) h \<noteq> Path True [''b'']" for k h
    by (simp add: entry_at_def two_blobs_def store0_def)
  ultimately show "store_inv two_blobs" unfolding store_inv_def two_blobs_lookup
    by (simp add: two_blobs_def store0_def disk0_def clean_path_def Clean_def)
  show "faultless (disk two_blobs)" by (simp add: two_blobs_def disk0_def faultless_def)
  show "hexhash (Hash digest2)" by (simp add: digest2_def hexhash_def hexdigit_def)
qed

lemma two_blobs_entries:
  "entry ''cas'' two_blobs (Hash digest1) = Some [1, 2]" "entry ''cas'' two_blobs (Hash digest2) = Some [3]"
  unfolding entry_def file_at_def two_blobs_lookup
  by (simp_all add: entry_at_def digest1_def digest2_def two_blobs_def store0_def)

lemma stage_target: "Join (Path True [''b'']) ''f'' = Path True [''b'', ''f'']"
  by (simp add: Join_def Clean_def)


text \<open>The store of the witness, staging one file.\<close>

theorem staged_file_witness:
  "\<exists>q u ino. px_Get (\<lambda>_ _. Panic) None proxy2 digest1 = Return (q, Inr \<lparr>rd_bytes = [1, 2], rd_err = None\<rparr>) \<and>
     stageFile (proxy_wstore (\<lambda>_ _. Panic) (\<lambda>_ _ _. Panic) (\<lambda>_ _ _. Panic) (\<lambda>_ _ _. Panic)) proxy2 (Path True [''b'', ''f'']) digest1 False =
       Return (u, Inr ()) \<and> file_at (disk (px_local u)) (Path True [''b'', ''f'']) = Some ino \<and> content ino = [1, 2]"
proof -
  let ?t = "Path True [''b'', ''f'']" and ?rg = "\<lambda>_ _. Panic :: (unit \<times> (goerr + reader)) outcome"
  have l: "px_local proxy2 = two_blobs" by (simp add: proxy2_def NewProxyStore_def)
  have t: "lookup (disk two_blobs) ?t = None" "is_dir (disk two_blobs) (parent ?t)"
    by (simp_all add: two_blobs_lookup is_dir_def parent_def)
  have at: "lookup (disk two_blobs) (entry_at ''cas'' (rootDir two_blobs) (Hash digest1)) = Some (RegNode 0)"
    unfolding two_blobs_lookup by (simp add: entry_at_def digest1_def two_blobs_def store0_def)
  obtain q where q: "px_Get ?rg None proxy2 digest1 = Return (q, Inr \<lparr>rd_bytes = [1, 2], rd_err = None\<rparr>)"
    "steady two_blobs (px_local q)"
    by (rule px_Get_present [of proxy2, unfolded l, OF two_blobs_inv(1) digest1_hex two_blobs_inv(2) two_blobs_entries(1)])
  obtain u where u: "stageFile (proxy_wstore ?rg (\<lambda>_ _ _. Panic) (\<lambda>_ _ _. Panic) (\<lambda>_ _ _. Panic)) proxy2 ?t digest1 False =
      Return (u, Inr ())"
    by (rule stage_link [of proxy2, unfolded l, OF two_blobs_inv(1) digest1_hex two_blobs_inv(2) at t])
  have "lookup (disk (px_local q)) ?t = None" using q(2) t(1) by (simp add: steady_def)
  from staged_file [OF _ digest1_hex q(1) _ this u] l two_blobs_inv(1) q(1) u show ?thesis by auto
qed

end
