(* ===== verification/Worker.thy ===== *)
theory Worker
  imports Staging Scheduler
begin

text \<open>
Running actions (\<^verbatim>\<open>pkg/execution/worker.go\<close>): uploading output files and trees, running a command directly or in
  the sandbox, \<open>execute\<close> from the fetched messages to the action cache, and the loop of a worker over the scheduler's
  queue. The command is a function on the disk.
\<close>

section \<open>Uploading\<close>

text \<open>\<open>digest.NewFromFile\<close> reads the file.\<close>

definition NewFromFile :: "wcodec \<Rightarrow> fsys \<Rightarrow> path \<Rightarrow> fsys \<times> (goerr + Digest)" where
  "NewFromFile K s p = (case ReadFile s p of (s, Inl e) \<Rightarrow> (s, Inl e) | (s, Inr data) \<Rightarrow> (s, Inr (NewFromBlob K data)))"

definition open_reader :: "fsys \<Rightarrow> path \<Rightarrow> fsys \<times> (goerr + reader)" where
  "open_reader s p =
     (case Open s p of
        (s, Inl e) \<Rightarrow> (s, Inl e)
      | (s, Inr h) \<Rightarrow> (case read_handle s h of (s, rd) \<Rightarrow> (s, Inr rd)))"

definition uploadFile :: "wcodec \<Rightarrow> 's wstore \<Rightarrow> 's \<Rightarrow> path \<Rightarrow> ('s, Digest) result" where
  "uploadFile K W s path =
     bindE (wrapE ''failed to compute digest'' (on_disk W s (\<lambda>t. NewFromFile K t path))) (\<lambda>s d.
       case ws_local W of
         Some (blobPath, putFile) \<Rightarrow>
           bindE (wrapE ''failed to put file'' (errE (putFile s d path))) (\<lambda>s _. Return (s, Inr d))
       | None \<Rightarrow>
           bindE (wrapE ''failed to open file'' (on_disk W s (\<lambda>t. open_reader t path))) (\<lambda>s f.
           bindE (wrapE ''failed to put blob'' (errE (ws_put W s d f))) (\<lambda>s _. Return (s, Inr d))))"

definition uploadBlob :: "wcodec \<Rightarrow> 's wstore \<Rightarrow> 's \<Rightarrow> bytes \<Rightarrow> ('s, Digest) result" where
  "uploadBlob K W s data =
     (let d = NewFromBlob K data
      in bindE (errE (ws_put W s d \<lparr>rd_bytes = data, rd_err = None\<rparr>)) (\<lambda>s _. Return (s, Inr d)))"

text \<open>\<open>os.ReadDir\<close>: the entries in the order of their names, with their types.\<close>

definition dir_entries :: "fsys \<Rightarrow> path \<Rightarrow> (string \<times> node) list" where
  "dir_entries s p =
     (let names = sort (remdups (map (last \<circ> comps) (filter (\<lambda>q. comps q \<noteq> [] \<and> parent q = p) (map fst (nodes s)))))
      in map (\<lambda>c. (c, the (lookup s (Path (rooted p) (comps p @ [c]))))) names)"

definition ReadDir :: "fsys \<Rightarrow> path \<Rightarrow> fsys \<times> (goerr + (string \<times> node) list)" where
  "ReadDir s p = syscall s (\<lambda>s.
     case follow 40 s p of
       Inl e \<Rightarrow> (s, Inl e)
     | Inr q \<Rightarrow>
         if is_dir s q then (s, Inr (dir_entries s q))
         else if lookup s q = None then (s, Inl ErrNotExist)
         else (s, Inl ErrNotDir))"

definition node_mode :: "fsys \<Rightarrow> node \<Rightarrow> nat" where
  "node_mode s n =
     (case n of
        RegNode i \<Rightarrow> (case inodes s i of Some ino \<Rightarrow> mode ino | None \<Rightarrow> 0)
      | SymNode _ _ \<Rightarrow> 511
      | DirNode \<Rightarrow> 493)"

text \<open>An entry that is not a directory.\<close>

definition build_leaf :: "wcodec \<Rightarrow> 's wstore \<Rightarrow> 's \<Rightarrow> path \<Rightarrow> string \<Rightarrow> node \<Rightarrow> Directory \<Rightarrow> ('s, Directory) result" where
  "build_leaf K W s entryP name info dir =
     (case info of
        SymNode _ _ \<Rightarrow>
          bindE (on_disk W s (\<lambda>t. Readlink t entryP)) (\<lambda>s target.
            Return (s, Inr (dir\<lparr>dir_Symlinks := dir_Symlinks dir @ [\<lparr>sn_Name = name, sn_Target = target\<rparr>]\<rparr>)))
      | _ \<Rightarrow>
          (let executable = (and (node_mode (ws_disk W s) info) exec_bits \<noteq> 0)
           in bindE (uploadFile K W s entryP) (\<lambda>s d.
                Return (s, Inr (dir\<lparr>dir_Files := dir_Files dir @
                  [\<lparr>fn_Name = name, fn_Digest = Some d, fn_IsExecutable = executable\<rparr>]\<rparr>)))))"

definition marshal_upload :: "(goerr + bytes) \<Rightarrow> wcodec \<Rightarrow> 's wstore \<Rightarrow> 's \<Rightarrow> ('s, Digest) result" where
  "marshal_upload r K W s = (case r of Inl e \<Rightarrow> Return (s, Inl e) | Inr data \<Rightarrow> uploadBlob K W s data)"

text \<open>
  The loop of \<open>buildDirectoryProto\<close>; \<open>rec\<close> is the recursive call, which gets the children of the tree so far.
\<close>

fun build_entries ::
  "('s \<Rightarrow> path \<Rightarrow> Directory list \<Rightarrow> ('s, Directory \<times> Directory list) result option) \<Rightarrow> wcodec \<Rightarrow> 's wstore \<Rightarrow> 's \<Rightarrow> path \<Rightarrow>
   (string \<times> node) list \<Rightarrow> Directory \<Rightarrow> Directory list \<Rightarrow> ('s, Directory \<times> Directory list) result option" where
  "build_entries rec K W s dirPath [] dir children = Some (Return (s, Inr (dir, children)))"
| "build_entries rec K W s dirPath ((name, e) # es) dir children =
     (let entryP = Join dirPath name
      in bindO (Some (on_disk W s (\<lambda>t. Lstat t entryP))) (\<lambda>s info.
           if e = DirNode
           then bindO (rec s entryP children) (\<lambda>s (subdir, children).
                bindO (Some (marshal_upload (m_Directory K subdir) K W s)) (\<lambda>s d.
                  build_entries rec K W s dirPath es
                    (dir\<lparr>dir_Directories := dir_Directories dir @ [\<lparr>dn_Name = name, dn_Digest = Some d\<rparr>]\<rparr>)
                    (children @ [subdir])))
           else bindO (Some (build_leaf K W s entryP name info dir)) (\<lambda>s dir.
                  build_entries rec K W s dirPath es dir children)))"

fun buildDirectoryProto ::
  "nat \<Rightarrow> wcodec \<Rightarrow> 's wstore \<Rightarrow> 's \<Rightarrow> path \<Rightarrow> Directory list \<Rightarrow> ('s, Directory \<times> Directory list) result option" where
  "buildDirectoryProto 0 K W s dirPath children = None"
| "buildDirectoryProto (Suc n) K W s dirPath children =
     bindO (Some (on_disk W s (\<lambda>t. ReadDir t dirPath))) (\<lambda>s es.
       build_entries (buildDirectoryProto n K W) K W s dirPath es
         \<lparr>dir_Files = [], dir_Directories = [], dir_Symlinks = []\<rparr> children)"

definition buildTree :: "nat \<Rightarrow> wcodec \<Rightarrow> 's wstore \<Rightarrow> 's \<Rightarrow> path \<Rightarrow> ('s, Tree \<times> Digest) result option" where
  "buildTree n K W s dirPath =
     bindO (buildDirectoryProto n K W s dirPath []) (\<lambda>s (rootDir, children).
     bindO (Some (marshal_upload (m_Directory K rootDir) K W s)) (\<lambda>s rootDigest.
       Some (Return (s, Inr (\<lparr>tree_Root = rootDir, tree_Children = children\<rparr>, rootDigest)))))"

section \<open>Outputs\<close>

record execResult =
  xr_exitCode :: int
  xr_stdout :: bytes
  xr_stderr :: bytes
  xr_duration :: duration

definition upload_stream :: "string \<Rightarrow> wcodec \<Rightarrow> 's wstore \<Rightarrow> 's \<Rightarrow> bytes \<Rightarrow> ('s, Digest option) result" where
  "upload_stream msg K W s data =
     (if data = [] then Return (s, Inr None)
      else bindE (wrapE msg (uploadBlob K W s data)) (\<lambda>s d. Return (s, Inr (Some d))))"

definition add_file ::
  "wcodec \<Rightarrow> 's wstore \<Rightarrow> 's \<Rightarrow> path \<Rightarrow> string \<Rightarrow> nat \<Rightarrow> ActionResult \<Rightarrow> ('s, ActionResult) result" where
  "add_file K W s fullPath outputPath mode' result =
     bindE (wrapE ''failed to upload output'' (uploadFile K W s fullPath)) (\<lambda>s d.
       Return (s, Inr (result\<lparr>OutputFiles := OutputFiles result @
         [\<lparr>of_Path = outputPath, of_Digest = d, of_IsExecutable = and mode' exec_bits \<noteq> 0\<rparr>]\<rparr>)))"

definition add_directory ::
  "nat \<Rightarrow> wcodec \<Rightarrow> 's wstore \<Rightarrow> 's \<Rightarrow> path \<Rightarrow> string \<Rightarrow> ActionResult \<Rightarrow> ('s, ActionResult) result option" where
  "add_directory n K W s fullPath outputPath result =
     bindO (map_option (wrapE ''failed to build tree'') (buildTree n K W s fullPath)) (\<lambda>s (tree, rootDigest).
     bindO (Some (case m_Tree K tree of
                    Inl e \<Rightarrow> Return (s, Inl e)
                  | Inr treeData \<Rightarrow> wrapE ''failed to upload tree'' (uploadBlob K W s treeData))) (\<lambda>s treeDigest.
       Some (Return (s, Inr (result\<lparr>OutputDirectories := OutputDirectories result @
         [\<lparr>od_Path = outputPath, od_TreeDigest = treeDigest, od_RootDirectoryDigest = rootDigest\<rparr>]\<rparr>)))))"

text \<open>The mode that \<open>os.Stat\<close> reports.\<close>

fun info_mode :: "fileinfo \<Rightarrow> nat" where
  "info_mode IsDirectory = 493"
| "info_mode (IsRegular ino) = mode ino"

fun upload_files ::
  "wcodec \<Rightarrow> 's wstore \<Rightarrow> 's \<Rightarrow> path \<Rightarrow> string list \<Rightarrow> ActionResult \<Rightarrow> ('s, ActionResult) result" where
  "upload_files K W s dir [] result = Return (s, Inr result)"
| "upload_files K W s dir (outputPath # outs) result =
     bindo (on_disk W s (\<lambda>t. Stat t (Join dir outputPath))) (\<lambda>(s, r).
       case r of
         Inl e \<Rightarrow>
           if IsNotExist e then upload_files K W s dir outs result
           else Return (s, Inl (Wrap ''failed to stat output'' e))
       | Inr info \<Rightarrow>
           bindE (add_file K W s (Join dir outputPath) outputPath (info_mode info) result) (\<lambda>s result.
             upload_files K W s dir outs result))"

fun upload_directories ::
  "nat \<Rightarrow> wcodec \<Rightarrow> 's wstore \<Rightarrow> 's \<Rightarrow> path \<Rightarrow> string list \<Rightarrow> ActionResult \<Rightarrow> ('s, ActionResult) result option" where
  "upload_directories n K W s dir [] result = Some (Return (s, Inr result))"
| "upload_directories n K W s dir (outputPath # outs) result =
     (case on_disk W s (\<lambda>t. Stat t (Join dir outputPath)) of
        Panic \<Rightarrow> Some Panic
      | Return (s, r) \<Rightarrow>
          if (case r of Inl e \<Rightarrow> IsNotExist e | Inr _ \<Rightarrow> False) then upload_directories n K W s dir outs result
          else bindO (add_directory n K W s (Join dir outputPath) outputPath result) (\<lambda>s result.
                 upload_directories n K W s dir outs result))"

fun upload_paths ::
  "nat \<Rightarrow> wcodec \<Rightarrow> 's wstore \<Rightarrow> 's \<Rightarrow> path \<Rightarrow> string list \<Rightarrow> ActionResult \<Rightarrow> ('s, ActionResult) result option" where
  "upload_paths n K W s dir [] result = Some (Return (s, Inr result))"
| "upload_paths n K W s dir (outputPath # outs) result =
     (case on_disk W s (\<lambda>t. Stat t (Join dir outputPath)) of
        Panic \<Rightarrow> Some Panic
      | Return (s, Inl e) \<Rightarrow>
          if IsNotExist e then upload_paths n K W s dir outs result
          else Some (Return (s, Inl (Wrap ''failed to stat output'' e)))
      | Return (s, Inr info) \<Rightarrow>
          bindO (if info = IsDirectory then add_directory n K W s (Join dir outputPath) outputPath result
                 else Some (add_file K W s (Join dir outputPath) outputPath (info_mode info) result)) (\<lambda>s result.
            upload_paths n K W s dir outs result))"

definition int32 :: "int \<Rightarrow> int" where
  "int32 i = sint (word_of_int i :: 32 word)"

definition uploadOutputs ::
  "nat \<Rightarrow> wcodec \<Rightarrow> 's wstore \<Rightarrow> gotime \<Rightarrow> 's \<Rightarrow> path \<Rightarrow> Command \<Rightarrow> execResult \<Rightarrow> ('s, ActionResult) result option" where
  "uploadOutputs n K W now s workDir command x =
     (let dir = Join workDir (cmd_WorkingDirectory command);
          result = \<lparr>ExitCode = int32 (xr_exitCode x), StdoutDigest = None, StderrDigest = None, OutputFiles = [],
                    OutputDirectories = [], ExecutionCompletedTimestamp = now\<rparr>
      in bindO (Some (upload_stream ''failed to upload stdout'' K W s (xr_stdout x))) (\<lambda>s out.
         bindO (Some (upload_stream ''failed to upload stderr'' K W s (xr_stderr x))) (\<lambda>s err.
         bindO (Some (upload_files K W s dir (cmd_OutputFiles command)
                       (result\<lparr>StdoutDigest := out, StderrDigest := err\<rparr>))) (\<lambda>s result.
         bindO (upload_directories n K W s dir (cmd_OutputDirectories command) result) (\<lambda>s result.
           upload_paths n K W s dir (cmd_OutputPaths command) result)))))"

section \<open>Running a command\<close>

text \<open>
  How a command ends: \<open>xp_err\<close> is the error of \<open>cmd.Run\<close>, an \<open>ExitError\<close> where the process started and did not
  exit with 0; \<open>xp_deadline\<close> says that the context has reached its deadline.
\<close>

datatype run_err = ExitError int | RunError goerr

record proc_end =
  xp_stdout :: bytes
  xp_stderr :: bytes
  xp_err :: "run_err option"
  xp_deadline :: bool
  xp_duration :: duration

text \<open>
  What a worker finds: the environment of its own process, the rounding of float64, the orders of the range loops
  over the two maps of mounts, and the command itself, which runs on the disk in a directory, with arguments,
  environment and time limit.
\<close>

record run_env =
  re_environ :: "string list"
  re_rd :: "rat \<Rightarrow> rat"
  re_symlinks :: "(path \<times> string) list \<Rightarrow> (path \<times> string) list"
  re_files :: "(path \<times> path) list \<Rightarrow> (path \<times> path) list"
  re_run :: "fsys \<Rightarrow> path \<Rightarrow> string list \<Rightarrow> string list \<Rightarrow> duration \<Rightarrow> fsys \<times> proc_end"

definition defaultTimeout :: duration where
  "defaultTimeout = 10 * minute"

fun make_symlinks :: "fsys \<Rightarrow> (path \<times> string) list \<Rightarrow> fsys \<times> (goerr + unit)" where
  "make_symlinks s [] = (s, Inr ())"
| "make_symlinks s ((target, linkTarget) # ls) =
     (case Symlink s linkTarget target of
        (s, Inl e) \<Rightarrow> (s, Inl (Wrap ''failed to create symlink'' e))
      | (s, Inr _) \<Rightarrow> make_symlinks s ls)"

fun make_targets :: "fsys \<Rightarrow> (path \<times> path) list \<Rightarrow> fsys \<times> (goerr + unit)" where
  "make_targets s [] = (s, Inr ())"
| "make_targets s ((source, target) # fs) =
     (case OpenTrunc 420 s target of
        (s, Inl e) \<Rightarrow> (s, Inl (Wrap ''failed to create mount target'' e))
      | (s, Inr _) \<Rightarrow> make_targets (fst (Close s)) fs)"

definition sandboxed_args ::
  "run_env \<Rightarrow> Sandbox \<Rightarrow> fsys \<Rightarrow> path \<Rightarrow> InputMounts \<Rightarrow> path list \<Rightarrow> string list \<Rightarrow> duration \<Rightarrow> fsys \<times> (goerr + string list)" where
  "sandboxed_args en sb s workingDir mounts writable arguments cmdTimeout =
     (case make_symlinks s (re_symlinks en (Symlinks mounts)) of
        (s, Inl e) \<Rightarrow> (s, Inl e)
      | (s, Inr _) \<Rightarrow>
          (case make_targets s (re_files en (FileMounts mounts)) of
             (s, Inl e) \<Rightarrow> (s, Inl e)
           | (s, Inr _) \<Rightarrow>
               (let spec = \<lparr>ExecRoot = path_string workingDir,
                            ws_InputMounts = map (\<lambda>(a, b). (path_string a, path_string b)) (re_files en (FileMounts mounts)),
                            ws_WritablePaths = map path_string writable, ws_Timeout = cmdTimeout, ws_Command = arguments\<rparr>
                in case WrapCommand (re_rd en) sb spec of
                     Inl e \<Rightarrow> (s, Inl (Wrap ''failed to wrap command in sandbox'' e))
                   | Inr args \<Rightarrow> (s, Inr args))))"

definition direct_args :: "run_env \<Rightarrow> fsys \<Rightarrow> InputMounts \<Rightarrow> string list \<Rightarrow> fsys \<times> (goerr + string list)" where
  "direct_args en s mounts arguments =
     (case materializeInputsForUnsandboxed s
             (mounts\<lparr>Symlinks := re_symlinks en (Symlinks mounts), FileMounts := re_files en (FileMounts mounts)\<rparr>) of
        (s, Inl e) \<Rightarrow> (s, Inl (Wrap ''failed to materialize inputs'' e))
      | (s, Inr _) \<Rightarrow> (s, Inr arguments))"

definition run_result :: "proc_end \<Rightarrow> goerr + execResult" where
  "run_result x =
     (let result = (\<lambda>c. Inr \<lparr>xr_exitCode = c, xr_stdout = xp_stdout x, xr_stderr = xp_stderr x, xr_duration = xp_duration x\<rparr>)
      in case xp_err x of
           None \<Rightarrow> result 0
         | Some (ExitError c) \<Rightarrow> result c
         | Some (RunError e) \<Rightarrow>
             if xp_deadline x then Inl (Status DeadlineExceeded ''command timed out'')
             else Inl (Wrap ''command failed'' e))"

definition runCommand ::
  "run_env \<Rightarrow> Sandbox option \<Rightarrow> fsys \<Rightarrow> path \<Rightarrow> InputMounts \<Rightarrow> path list \<Rightarrow> Command \<Rightarrow> duration option \<Rightarrow>
   fsys \<times> (goerr + execResult)" where
  "runCommand en sandbox s execRoot mounts writable command timeout =
     (let cmdTimeout = (case timeout of None \<Rightarrow> defaultTimeout | Some t \<Rightarrow> t);
          workingDir = Join execRoot (cmd_WorkingDirectory command);
          env = re_environ en @ map (\<lambda>(name, v). name @ ''='' @ v) (cmd_EnvironmentVariables command)
      in if cmd_Arguments command = [] then (s, Inl (Status InvalidArgument ''command has no arguments''))
         else case (if Enabled sandbox
                    then sandboxed_args en (the sandbox) s workingDir mounts writable (cmd_Arguments command) cmdTimeout
                    else direct_args en s mounts (cmd_Arguments command)) of
                (s, Inl e) \<Rightarrow> (s, Inl e)
              | (s, Inr args) \<Rightarrow> (case re_run en s workingDir args env cmdTimeout of (s, x) \<Rightarrow> (s, run_result x)))"

section \<open>Executing a task\<close>

text \<open>\<open>os.RemoveAll\<close>: everything at and below the path; a call that fails may have removed a part.\<close>

definition RemoveAll :: "fsys \<Rightarrow> path \<Rightarrow> fsys" where
  "RemoveAll s p =
     (case fault s (sysno s) of
        None \<Rightarrow> s\<lparr>sysno := Suc (sysno s), nodes := filter (\<lambda>(q, n). \<not> under p q) (nodes s)\<rparr>
      | Some e \<Rightarrow>
          (let gone = set (take (short s (sysno s)) (rev (walk_paths s p)))
           in s\<lparr>sysno := Suc (sysno s), nodes := filter (\<lambda>(q, n). q \<notin> gone) (nodes s)\<rparr>))"

record 's WorkerPool =
  wp_scheduler :: Scheduler
  wp_store :: 's
  wp_buildRoot :: path
  wp_concurrency :: int
  wp_sandbox :: "Sandbox option"

record ExecutionConfig =
  ec_Enabled :: bool
  ec_Concurrency :: int
  ec_BuildRoot :: string
  ec_QueueSize :: int
  ec_Sandbox :: SandboxConfig

definition NewWorkerPool ::
  "int \<Rightarrow> 's wstore \<Rightarrow> ExecutionConfig \<Rightarrow> Scheduler \<Rightarrow> 's \<Rightarrow> 's \<times> (goerr + 's WorkerPool)" where
  "NewWorkerPool numCPU W cfg sched s =
     (let concurrency = (if ec_Concurrency cfg \<le> 0 then numCPU else ec_Concurrency cfg)
      in case New (ws_disk W s) (ec_Sandbox cfg) of
           (t, Inl e) \<Rightarrow> (ws_setdisk W t s, Inl (Wrap ''failed to initialize sandbox'' e))
         | (t, Inr sb) \<Rightarrow>
             (ws_setdisk W t s,
              Inr \<lparr>wp_scheduler = sched, wp_store = ws_setdisk W t s, wp_buildRoot = to_path (ec_BuildRoot cfg),
                   wp_concurrency = concurrency, wp_sandbox = sb\<rparr>))"

text \<open>The digests of the action, its command and its inputs, with both messages.\<close>

definition fetch_task ::
  "wcodec \<Rightarrow> 's wstore \<Rightarrow> 's \<Rightarrow> Task \<Rightarrow> ('s, Digest \<times> Action \<times> Command \<times> Digest) result" where
  "fetch_task K W s task =
     (case NewFromProto K (Some (task_ActionDigest task)) of
        Inl e \<Rightarrow> Return (s, Inl (Status InvalidArgument ''invalid action digest''))
      | Inr actionDigest \<Rightarrow>
          bindE (wrapE ''failed to fetch action'' (fetchAction K W s actionDigest)) (\<lambda>s action.
            case NewFromProto K (act_CommandDigest action) of
              Inl e \<Rightarrow> Return (s, Inl (Status InvalidArgument ''invalid command digest''))
            | Inr cmdDigest \<Rightarrow>
                bindE (wrapE ''failed to fetch command'' (fetchCommand K W s cmdDigest)) (\<lambda>s command.
                  case NewFromProto K (act_InputRootDigest action) of
                    Inl e \<Rightarrow> Return (s, Inl (Status InvalidArgument ''invalid input root digest''))
                  | Inr inputRootDigest \<Rightarrow> Return (s, Inr (actionDigest, action, command, inputRootDigest)))))"

definition safeDirName :: "string \<Rightarrow> string" where
  "safeDirName = map (\<lambda>c. if c = CHR '':'' then CHR ''_'' else c)"

text \<open>Steps 5 to 8 of \<open>execute\<close>, up to the deferred removal of the directories.\<close>

definition execute_in ::
  "nat \<Rightarrow> wcodec \<Rightarrow> 's wstore \<Rightarrow> run_env \<Rightarrow> Sandbox option \<Rightarrow> gotime \<Rightarrow> 's \<Rightarrow> path \<Rightarrow> Task \<Rightarrow>
   Digest \<times> Action \<times> Command \<times> Digest \<Rightarrow> ('s, ActionResult) result option" where
  "execute_in n K W en sandbox now s baseDir task = (\<lambda>(actionDigest, action, command, inputRootDigest).
     let inputsDir = Join baseDir ''inputs''; execRoot = Join baseDir ''execroot''
     in bindO (map_option (wrapE ''failed to stage inputs'') (stageInputs n K W s inputsDir inputRootDigest)) (\<lambda>s _.
        bindO (Some (wrapE ''failed to build input mounts'' (on_disk W s (\<lambda>t. buildInputMounts t inputsDir execRoot)))) (\<lambda>s mounts.
        bindO (Some (wrapE ''failed to create working directory''
                      (on_disk W s (\<lambda>t. MkdirAll t (Join execRoot (cmd_WorkingDirectory command)))))) (\<lambda>s _.
        bindO (Some (wrapE ''failed to create output directories''
                      (on_disk W s (\<lambda>t. createOutputDirectories t execRoot command)))) (\<lambda>s writable.
        bindO (Some (wrapE ''failed to execute command''
                      (on_disk W s (\<lambda>t. runCommand en sandbox t execRoot mounts writable command (act_Timeout action))))) (\<lambda>s x.
        bindO (map_option (wrapE ''failed to upload outputs'') (uploadOutputs n K W now s execRoot command x)) (\<lambda>s result.
          if ExitCode result = 0 \<and> \<not> SkipCache task
          then Some (bindo (ws_update W s actionDigest result) (\<lambda>(s, _). Return (s, Inr result)))
          else Some (Return (s, Inr result)))))))))"

definition cleanup_base :: "'s wstore \<Rightarrow> path \<Rightarrow> ('s, 'a) result \<Rightarrow> ('s, 'a) result" where
  "cleanup_base W baseDir m = bindo m (\<lambda>(s, r). Return (ws_setdisk W (RemoveAll (ws_disk W s) baseDir) s, r))"

definition execute ::
  "nat \<Rightarrow> wcodec \<Rightarrow> 's wstore \<Rightarrow> run_env \<Rightarrow> Sandbox option \<Rightarrow> gotime \<Rightarrow> path \<Rightarrow> 's \<Rightarrow> Task \<Rightarrow> ('s, ActionResult) result option" where
  "execute n K W en sandbox now buildRoot s task =
     (let baseDir = Join buildRoot (safeDirName (OperationID task))
      in bindO (Some (fetch_task K W s task)) (\<lambda>s messages.
         bindO (Some (wrapE ''failed to create inputs dir'' (on_disk W s (\<lambda>t. MkdirAll t (Join baseDir ''inputs''))))) (\<lambda>s _.
         bindO (Some (wrapE ''failed to create execroot'' (on_disk W s (\<lambda>t. MkdirAll t (Join baseDir ''execroot''))))) (\<lambda>s _.
           map_option (cleanup_base W baseDir) (execute_in n K W en sandbox now s baseDir task messages)))))"

text \<open>The clock is read three times: \<open>now 0\<close> when the task starts, \<open>now 1\<close> for the result and \<open>now 2\<close> when it ends.\<close>

definition executeTask ::
  "nat \<Rightarrow> wcodec \<Rightarrow> 's wstore \<Rightarrow> run_env \<Rightarrow> (nat \<Rightarrow> gotime) \<Rightarrow> 's WorkerPool \<Rightarrow> Task \<Rightarrow> 's WorkerPool outcome option" where
  "executeTask n K W en now w task =
     (let name = op_name (OperationID task)
      in case UpdateState (now 0) (wp_scheduler w) name StateExecuting
                (Some \<lparr>Stage = EXECUTING, ActionDigest = task_ActionDigest task\<rparr>) of
           None \<Rightarrow> Some Panic
         | Some sched \<Rightarrow>
             map_option (\<lambda>m. bindo m (\<lambda>(s, r).
               case (case r of
                       Inl err \<Rightarrow> Fail (now 2) sched name err
                     | Inr result \<Rightarrow> Complete (now 2) sched name \<lparr>resp_Result = result, resp_CachedResult = False\<rparr>) of
                 None \<Rightarrow> Panic
               | Some sched \<Rightarrow> Return (w\<lparr>wp_scheduler := sched, wp_store := s\<rparr>)))
             (execute n K W en (wp_sandbox w) (now 1) (wp_buildRoot w) (wp_store w) task))"

text \<open>
  One round of the loop of \<open>runWorker\<close>: \<open>None\<close> while it waits for a task or does not return from one; the flag says
  that the worker has returned.
\<close>

definition runWorker ::
  "nat \<Rightarrow> wcodec \<Rightarrow> 's wstore \<Rightarrow> run_env \<Rightarrow> (nat \<Rightarrow> gotime) \<Rightarrow> bool \<Rightarrow> bool \<Rightarrow> 's WorkerPool \<Rightarrow> ('s WorkerPool \<times> bool) outcome option" where
  "runWorker n K W en now ctxDone recv w =
     (case Dequeue (wp_scheduler w) ctxDone recv of
        (sched, None) \<Rightarrow> None
      | (sched, Some (Inl err)) \<Rightarrow> Some (Return (w\<lparr>wp_scheduler := sched\<rparr>, ctxDone))
      | (sched, Some (Inr task)) \<Rightarrow>
          map_option (\<lambda>m. bindo m (\<lambda>w. Return (w, False))) (executeTask n K W en now (w\<lparr>wp_scheduler := sched\<rparr>) task))"

text \<open>\<open>Run\<close> makes the build root and starts the workers.\<close>

definition RunPool :: "'s wstore \<Rightarrow> 's WorkerPool \<Rightarrow> 's WorkerPool \<times> (goerr + nat list)" where
  "RunPool W w =
     (case MkdirAll (ws_disk W (wp_store w)) (wp_buildRoot w) of
        (t, Inl e) \<Rightarrow> (w\<lparr>wp_store := ws_setdisk W t (wp_store w)\<rparr>, Inl (Wrap ''failed to create build root'' e))
      | (t, Inr _) \<Rightarrow> (w\<lparr>wp_store := ws_setdisk W t (wp_store w)\<rparr>, Inr [0..<nat (wp_concurrency w)]))"

end
