(* ===== verification/Upload_Props.thy ===== *)
theory Upload_Props
  imports Worker Staging_Props
begin

text \<open>
Uploading the outputs of a command (\<^verbatim>\<open>pkg/execution/worker.go\<close>) to a store: the laws a store has to keep are
  a locale, and in it \<open>uploadFile\<close>, \<open>buildDirectoryProto\<close> and \<open>uploadOutputs\<close> return and leave every digest they
  report in the store.
\<close>

section \<open>Stores to upload to\<close>

text \<open>The bytes of a regular file.\<close>

definition file_bytes :: "fsys \<Rightarrow> nat \<Rightarrow> bytes" where
  "file_bytes s i = (case inodes s i of Some ino \<Rightarrow> content ino | None \<Rightarrow> [])"

text \<open>What an upload keeps: the blobs that were there, and the tree of files below \<open>base\<close>.\<close>

definition upload_step :: "'s wstore \<Rightarrow> ('s \<Rightarrow> string \<Rightarrow> bytes option) \<Rightarrow> (string \<Rightarrow> bool) \<Rightarrow> path \<Rightarrow> 's \<Rightarrow> 's \<Rightarrow> bool" where
  "upload_step W view okh base s t \<longleftrightarrow>
     (\<forall>h. okh h \<longrightarrow> view s h \<noteq> None \<longrightarrow> view t h \<noteq> None) \<and>
     (\<forall>p. under base p \<longrightarrow> lookup (ws_disk W t) p = lookup (ws_disk W s) p)"

lemma upload_step_refl [simp]: "upload_step W view okh base s s"
  by (simp add: upload_step_def)

lemma upload_step_trans:
  "upload_step W view okh base s t \<Longrightarrow> upload_step W view okh base t u \<Longrightarrow> upload_step W view okh base s u"
  by (simp add: upload_step_def)

text \<open>A blob that can be read, and the blobs that messages name.\<close>

definition stored_in :: "(string \<Rightarrow> bool) \<Rightarrow> ('s \<Rightarrow> string \<Rightarrow> bytes option) \<Rightarrow> 's \<Rightarrow> Digest \<Rightarrow> bool" where
  "stored_in okh view s d \<longleftrightarrow> okh (Hash d) \<and> view s (Hash d) \<noteq> None"

definition dir_digests :: "(Digest \<Rightarrow> bool) \<Rightarrow> Directory \<Rightarrow> bool" where
  "dir_digests P dir \<longleftrightarrow>
     (\<forall>f \<in> set (dir_Files dir). \<exists>d. fn_Digest f = Some d \<and> P d) \<and>
     (\<forall>x \<in> set (dir_Directories dir). \<exists>d. dn_Digest x = Some d \<and> P d)"

definition tree_digests :: "(Digest \<Rightarrow> bool) \<Rightarrow> Directory \<times> Directory list \<Rightarrow> bool" where
  "tree_digests P = (\<lambda>(dir, children). dir_digests P dir \<and> (\<forall>c \<in> set children. dir_digests P c))"

definition result_digests :: "(Digest \<Rightarrow> bool) \<Rightarrow> ActionResult \<Rightarrow> bool" where
  "result_digests P r \<longleftrightarrow>
     (\<forall>d. StdoutDigest r = Some d \<or> StderrDigest r = Some d \<longrightarrow> P d) \<and>
     (\<forall>f \<in> set (OutputFiles r). P (of_Digest f)) \<and>
     (\<forall>o' \<in> set (OutputDirectories r). P (od_TreeDigest o') \<and> P (od_RootDirectoryDigest o'))"

lemma dir_digests_mono: "dir_digests P dir \<Longrightarrow> (\<And>d. P d \<Longrightarrow> Q d) \<Longrightarrow> dir_digests Q dir"
  unfolding dir_digests_def by blast

lemma result_digests_mono: "result_digests P r \<Longrightarrow> (\<And>d. P d \<Longrightarrow> Q d) \<Longrightarrow> result_digests Q r"
  unfolding result_digests_def by blast

text \<open>The files below \<open>base\<close> have proper names and at most \<open>k\<close> of them on a path.\<close>

definition tree_ok :: "nat \<Rightarrow> path \<Rightarrow> fsys \<Rightarrow> bool" where
  "tree_ok k base s \<longleftrightarrow>
     (\<forall>p. under base p \<longrightarrow> lookup s p \<noteq> None \<longrightarrow> list_all plain (comps p) \<and> length (comps p) \<le> k)"

definition no_link :: "fsys \<Rightarrow> path \<Rightarrow> bool" where
  "no_link s p \<longleftrightarrow> (\<forall>t a. lookup s p \<noteq> Some (SymNode t a))"

lemma clean_plain: "list_all plain cs \<Longrightarrow> clean_path (Path r cs)"
proof (induction cs rule: rev_induct)
  case (snoc c cs)
  then show ?case by (simp add: clean_path_def Clean_snoc)
qed (simp add: clean_path_def Clean_def)

lemma under_child: "under base p \<Longrightarrow> under base (Path (rooted p) (comps p @ [c]))"
  by (auto simp: under_def take_append dest: arg_cong [where f = length])

section \<open>Reading the disk\<close>

lemma Lstat_faultless:
  "faultless s \<Longrightarrow> Lstat s p = (s\<lparr>sysno := Suc (sysno s)\<rparr>, case lookup s p of Some n \<Rightarrow> Inr n | None \<Rightarrow> Inl ErrNotExist)"
  by (simp add: Lstat_def syscall_faultless split: option.split)

lemma Readlink_faultless:
  "faultless s \<Longrightarrow> lookup s p = Some (SymNode t a) \<Longrightarrow> Readlink s p = (s\<lparr>sysno := Suc (sysno s)\<rparr>, Inr t)"
  by (simp add: Readlink_def syscall_faultless)

lemma follow_no_link: "no_link s p \<Longrightarrow> follow 40 (s\<lparr>sysno := n\<rparr>) p = Inr p"
  by (rule follow_self) (simp add: no_link_def)

lemma Stat_no_link:
  assumes "faultless s" "no_link s p" "comps p \<noteq> []"
  shows "Stat s p = (s\<lparr>sysno := Suc (sysno s)\<rparr>,
    case lookup s p of Some DirNode \<Rightarrow> Inr IsDirectory
    | Some (RegNode i) \<Rightarrow> (case inodes s i of Some ino \<Rightarrow> Inr (IsRegular ino) | None \<Rightarrow> Inl ErrNotExist)
    | _ \<Rightarrow> Inl ErrNotExist)"
  using assms follow_no_link [OF assms(2)]
  by (auto simp: Stat_def syscall_faultless is_dir_def file_at_def split: option.split node.split)

lemma Open_no_link:
  assumes "faultless s" "no_link s p" "comps p \<noteq> []"
  shows "Open s p = (s\<lparr>sysno := Suc (sysno s)\<rparr>,
    case lookup s p of Some DirNode \<Rightarrow> Inr HDir | Some (RegNode i) \<Rightarrow> Inr (HFile i) | _ \<Rightarrow> Inl ErrNotExist)"
  using assms follow_no_link [OF assms(2)]
  by (auto simp: Open_def syscall_faultless is_dir_def split: option.split node.split)

lemma read_handle_faultless:
  "faultless s \<Longrightarrow> read_handle s (HFile i) = (s\<lparr>sysno := Suc (sysno s)\<rparr>, \<lparr>rd_bytes = file_bytes s i, rd_err = None\<rparr>)"
  by (simp add: read_handle_def faultless_def file_bytes_def Let_def)

lemma file_bytes_sysno [simp]: "file_bytes (s\<lparr>sysno := n\<rparr>) = file_bytes s"
  by (simp add: file_bytes_def fun_eq_iff)

lemma faultless_sysno [simp]: "faultless (s\<lparr>sysno := n\<rparr>) \<longleftrightarrow> faultless s"
  by (simp add: faultless_def)

lemma open_reader_reg:
  assumes "faultless s" "lookup s p = Some (RegNode i)" "comps p \<noteq> []"
  shows "open_reader s p = (s\<lparr>sysno := Suc (Suc (sysno s))\<rparr>, Inr \<lparr>rd_bytes = file_bytes s i, rd_err = None\<rparr>)"
proof -
  have "no_link s p" using assms(2) by (simp add: no_link_def)
  with assms show ?thesis by (simp add: open_reader_def Open_no_link read_handle_faultless)
qed

lemma NewFromFile_reg:
  assumes "faultless s" "lookup s p = Some (RegNode i)" "comps p \<noteq> []"
  shows "NewFromFile K s p = (s\<lparr>sysno := Suc (Suc (sysno s))\<rparr>, Inr (NewFromBlob K (file_bytes s i)))"
proof -
  have "no_link s p" using assms(2) by (simp add: no_link_def)
  with assms show ?thesis by (simp add: NewFromFile_def ReadFile_def Open_no_link read_handle_faultless)
qed

lemma NewFromFile_dir:
  assumes "faultless s" "lookup s p = Some DirNode" "comps p \<noteq> []"
  shows "\<exists>e. NewFromFile K s p = (s\<lparr>sysno := Suc (Suc (sysno s))\<rparr>, Inl e)"
proof -
  have "no_link s p" using assms(2) by (simp add: no_link_def)
  with assms show ?thesis by (simp add: NewFromFile_def ReadFile_def Open_no_link read_handle_def Let_def)
qed

lemma dir_entries_lookup:
  assumes "(c, n) \<in> set (dir_entries s p)"
  shows "lookup s (Path (rooted p) (comps p @ [c])) = Some n"
proof -
  from assms obtain q where q: "q \<in> fst ` set (nodes s)" "comps q \<noteq> []" "parent q = p" "c = last (comps q)"
    "n = the (lookup s (Path (rooted p) (comps p @ [c])))" by (auto simp: dir_entries_def Let_def)
  from q(2-4) have "q = Path (rooted p) (comps p @ [c])" by (cases q) (auto simp: parent_def)
  moreover have "lookup s q \<noteq> None" using q(1) by (simp add: lookup_def map_of_eq_None_iff)
  ultimately show ?thesis using q(5) by auto
qed

lemma ReadDir_faultless:
  assumes "faultless s" "no_link s p" "comps p \<noteq> []"
  shows "\<exists>r. ReadDir s p = (s\<lparr>sysno := Suc (sysno s)\<rparr>, r) \<and> (\<forall>es. r = Inr es \<longrightarrow>
    lookup s p = Some DirNode \<and> (\<forall>(c, n) \<in> set es. lookup s (Path (rooted p) (comps p @ [c])) = Some n))"
  using assms follow_no_link [OF assms(2)] dir_entries_lookup [of _ _ "s\<lparr>sysno := Suc (sysno s)\<rparr>" p]
  by (auto simp: ReadDir_def syscall_faultless is_dir_def)

section \<open>The contract\<close>

text \<open>
  A call that returns, keeps an invariant and a relation to the state it began in, and gives a value with \<open>Q\<close> or an
  error; the second form is for calls with a bound on their depth.
\<close>

definition returns :: "('s \<Rightarrow> bool) \<Rightarrow> ('s \<Rightarrow> 's \<Rightarrow> bool) \<Rightarrow> 's \<Rightarrow> ('s, 'a) result \<Rightarrow> ('s \<Rightarrow> 'a \<Rightarrow> bool) \<Rightarrow> bool" where
  "returns I R s m Q \<longleftrightarrow> (\<exists>t r. m = Return (t, r) \<and> I t \<and> R s t \<and> (\<forall>x. r = Inr x \<longrightarrow> Q t x))"

definition returnsO :: "('s \<Rightarrow> bool) \<Rightarrow> ('s \<Rightarrow> 's \<Rightarrow> bool) \<Rightarrow> 's \<Rightarrow> ('s, 'a) result option \<Rightarrow> ('s \<Rightarrow> 'a \<Rightarrow> bool) \<Rightarrow> bool" where
  "returnsO I R s m Q \<longleftrightarrow> (\<exists>q. m = Some q \<and> returns I R s q Q)"

lemma returns_wrapE: "returns I R s m Q \<Longrightarrow> returns I R s (wrapE msg m) Q"
  by (auto simp: returns_def wrapE_def split: sum.split)

lemma returnsO_wrapE: "returnsO I R s m Q \<Longrightarrow> returnsO I R s (map_option (wrapE msg) m) Q"
  by (auto simp: returnsO_def returns_wrapE)

lemma returns_mono: "returns I R s m P \<Longrightarrow> (\<And>t x. I t \<Longrightarrow> R s t \<Longrightarrow> P t x \<Longrightarrow> Q t x) \<Longrightarrow> returns I R s m Q"
  unfolding returns_def by blast

text \<open>
  The contract \<open>uploadFile\<close> and \<open>uploadBlob\<close> rely on: storing a blob, or a regular file of the outputs, under the
  digest of its contents returns, keeps what was there, and on success the blob is present. The disk has no
  faults.
\<close>

locale upload_store =
  fixes W :: "'s wstore" and K :: wcodec and inv :: "'s \<Rightarrow> bool" and view :: "'s \<Rightarrow> string \<Rightarrow> bytes option"
    and okh :: "string \<Rightarrow> bool" and base :: path
  assumes digest_okh: "inv s \<Longrightarrow> okh (Hash (NewFromBlob K data))"
    and base_named: "inv s \<Longrightarrow> comps base \<noteq> []"
    and disk_law: "ws_disk W (ws_setdisk W f s) = f"
    and fault_law: "inv s \<Longrightarrow> faultless (ws_disk W s)"
    and read_law: "inv s \<Longrightarrow> inv (ws_setdisk W ((ws_disk W s)\<lparr>sysno := n\<rparr>) s) \<and>
      view (ws_setdisk W ((ws_disk W s)\<lparr>sysno := n\<rparr>) s) = view s"
    and put_law: "inv s \<Longrightarrow> \<exists>t r. ws_put W s (NewFromBlob K data) \<lparr>rd_bytes = data, rd_err = None\<rparr> = Return (t, r) \<and> inv t \<and>
      upload_step W view okh base s t \<and> (r = None \<longrightarrow> view t (Hash (NewFromBlob K data)) \<noteq> None)"
    and file_law: "inv s \<Longrightarrow> under base p \<Longrightarrow> lookup (ws_disk W s) p = Some (RegNode i) \<Longrightarrow>
      ws_local W = Some (blobPath, putFile) \<Longrightarrow> d = NewFromBlob K (file_bytes (ws_disk W s) i) \<Longrightarrow>
      \<exists>t r. putFile s d p = Return (t, r) \<and> inv t \<and>
        upload_step W view okh base s t \<and> (r = None \<longrightarrow> view t (Hash d) \<noteq> None)"
begin

abbreviation kept_by :: "'s \<Rightarrow> 's \<Rightarrow> bool" where
  "kept_by \<equiv> upload_step W view okh base"

abbreviation ups :: "'s \<Rightarrow> ('s, 'a) result \<Rightarrow> ('s \<Rightarrow> 'a \<Rightarrow> bool) \<Rightarrow> bool" where
  "ups \<equiv> returns inv kept_by"

abbreviation upsO :: "'s \<Rightarrow> ('s, 'a) result option \<Rightarrow> ('s \<Rightarrow> 'a \<Rightarrow> bool) \<Rightarrow> bool" where
  "upsO \<equiv> returnsO inv kept_by"

lemma ups_Return: "inv s \<Longrightarrow> Q s x \<Longrightarrow> ups s (Return (s, Inr x)) Q"
  by (simp add: returns_def)

lemma ups_error: "inv s \<Longrightarrow> ups s (Return (s, Inl e)) Q"
  by (simp add: returns_def)

lemma upsO_Return: "inv s \<Longrightarrow> Q s x \<Longrightarrow> upsO s (Some (Return (s, Inr x))) Q"
  by (simp add: returnsO_def ups_Return)

lemma ups_bindE:
  assumes "ups s m P" "\<And>t x. inv t \<Longrightarrow> kept_by s t \<Longrightarrow> P t x \<Longrightarrow> ups t (f t x) Q"
  shows "ups s (bindE m f) Q"
proof -
  from assms(1) obtain t r where m: "m = Return (t, r)" "inv t" "kept_by s t" "\<forall>x. r = Inr x \<longrightarrow> P t x"
    by (auto simp: returns_def)
  show ?thesis
  proof (cases r)
    case (Inl e)
    with m show ?thesis by (simp add: returns_def bindE_def)
  next
    case (Inr x)
    with m assms(2) have "ups t (f t x) Q" by blast
    with m Inr show ?thesis by (auto simp: returns_def bindE_def intro: upload_step_trans)
  qed
qed

lemma upsO_bindO:
  assumes "upsO s m P" "\<And>t x. inv t \<Longrightarrow> kept_by s t \<Longrightarrow> P t x \<Longrightarrow> upsO t (f t x) Q"
  shows "upsO s (bindO m f) Q"
proof -
  from assms(1) obtain t r where m: "m = Some (Return (t, r))" "inv t" "kept_by s t" "\<forall>x. r = Inr x \<longrightarrow> P t x"
    by (auto simp: returns_def returnsO_def)
  show ?thesis
  proof (cases r)
    case (Inl e)
    with m show ?thesis by (simp add: returns_def returnsO_def bindO_def)
  next
    case (Inr x)
    with m assms(2) have "upsO t (f t x) Q" by blast
    with m Inr show ?thesis by (auto simp: returns_def returnsO_def bindO_def intro: upload_step_trans)
  qed
qed

lemma upsO_Some: "ups s m P \<Longrightarrow> (\<And>t x. inv t \<Longrightarrow> kept_by s t \<Longrightarrow> P t x \<Longrightarrow> upsO t (f t x) Q) \<Longrightarrow> upsO s (bindO (Some m) f) Q"
  by (rule upsO_bindO [of s "Some m" P]) (simp_all add: returnsO_def)

text \<open>Calls that only read the disk.\<close>

lemma read_step:
  assumes "inv s" "f (ws_disk W s) = ((ws_disk W s)\<lparr>sysno := n\<rparr>, r)"
  shows "on_disk W s f = Return (ws_setdisk W ((ws_disk W s)\<lparr>sysno := n\<rparr>) s, r)"
    "inv (ws_setdisk W ((ws_disk W s)\<lparr>sysno := n\<rparr>) s)" "kept_by s (ws_setdisk W ((ws_disk W s)\<lparr>sysno := n\<rparr>) s)"
  using read_law [OF assms(1), of n] disk_law assms(2) by (simp_all add: upload_step_def on_disk_def)

lemma ups_read:
  assumes "inv s" "f (ws_disk W s) = ((ws_disk W s)\<lparr>sysno := n\<rparr>, r)" "\<And>x. r = Inr x \<Longrightarrow> P x"
  shows "ups s (on_disk W s f) (\<lambda>t x. P x \<and> (\<exists>n. ws_disk W t = (ws_disk W s)\<lparr>sysno := n\<rparr>))"
  using read_step [of s f n r, OF assms(1,2)] assms(3) disk_law by (auto simp: returns_def)

abbreviation stored :: "'s \<Rightarrow> Digest \<Rightarrow> bool" where
  "stored \<equiv> stored_in okh view"

lemma stored_step: "kept_by s t \<Longrightarrow> stored s d \<Longrightarrow> stored t d"
  by (auto simp: stored_in_def upload_step_def)

lemma step_lookup: "kept_by s t \<Longrightarrow> under base p \<Longrightarrow> lookup (ws_disk W t) p = lookup (ws_disk W s) p"
  by (simp add: upload_step_def)

lemma uploadBlob_ok: "inv s \<Longrightarrow> ups s (uploadBlob K W s data) stored"
  using put_law [of s data] digest_okh [of s data]
  by (auto simp: uploadBlob_def errE_def bindE_def returns_def stored_in_def Let_def split: option.split)

lemma marshal_upload_ok: "inv s \<Longrightarrow> ups s (marshal_upload r K W s) stored"
  by (cases r) (simp_all add: marshal_upload_def ups_error uploadBlob_ok)

lemma tree_step: "kept_by s t \<Longrightarrow> tree_ok k base (ws_disk W s) \<Longrightarrow> tree_ok k base (ws_disk W t)"
  by (simp add: tree_ok_def step_lookup)

lemma no_link_step: "kept_by s t \<Longrightarrow> under base p \<Longrightarrow> no_link (ws_disk W s) p \<Longrightarrow> no_link (ws_disk W t) p"
  by (simp add: no_link_def step_lookup)

lemma under_named: "inv s \<Longrightarrow> under base p \<Longrightarrow> comps p \<noteq> []"
  using base_named by (auto simp: under_def)

lemma uploadFile_reg:
  assumes "inv s" "under base p" "lookup (ws_disk W s) p = Some (RegNode i)"
  shows "ups s (uploadFile K W s p) stored"
  unfolding uploadFile_def
proof (rule ups_bindE [where P = "\<lambda>t d. d = NewFromBlob K (file_bytes (ws_disk W s) i) \<and>
      (\<exists>n. ws_disk W t = (ws_disk W s)\<lparr>sysno := n\<rparr>)"])
  note f = fault_law [OF assms(1)]
  note nf = NewFromFile_reg [OF f assms(3) under_named [OF assms(1,2)]]
  show "ups s (wrapE ''failed to compute digest'' (on_disk W s (\<lambda>t. NewFromFile K t p)))
      (\<lambda>t d. d = NewFromBlob K (file_bytes (ws_disk W s) i) \<and> (\<exists>n. ws_disk W t = (ws_disk W s)\<lparr>sysno := n\<rparr>))"
    by (rule returns_wrapE, rule ups_read [where f = "\<lambda>t. NewFromFile K t p", OF assms(1) nf]) simp
  fix t d assume t: "inv t" "kept_by s t" "d = NewFromBlob K (file_bytes (ws_disk W s) i) \<and>
      (\<exists>n. ws_disk W t = (ws_disk W s)\<lparr>sysno := n\<rparr>)"
  have reg: "lookup (ws_disk W t) p = Some (RegNode i)" using step_lookup [OF t(2) assms(2)] assms(3) by simp
  have d: "d = NewFromBlob K (file_bytes (ws_disk W t) i)" using t(3) by auto
  have okd: "okh (Hash d)" using t(3) digest_okh [OF t(1)] by simp
  show "ups t (case ws_local W of
      None \<Rightarrow> bindE (wrapE ''failed to open file'' (on_disk W t (\<lambda>x. open_reader x p))) (\<lambda>s f.
          bindE (wrapE ''failed to put blob'' (errE (ws_put W s d f))) (\<lambda>s _. Return (s, Inr d)))
    | Some (blobPath, putFile) \<Rightarrow>
        bindE (wrapE ''failed to put file'' (errE (putFile t d p))) (\<lambda>s _. Return (s, Inr d))) stored"
  proof (cases "ws_local W")
    case None
    note r = open_reader_reg [OF fault_law [OF t(1)] reg under_named [OF assms(1,2)]]
    have "ups t (bindE (wrapE ''failed to open file'' (on_disk W t (\<lambda>x. open_reader x p))) (\<lambda>s f.
          bindE (wrapE ''failed to put blob'' (errE (ws_put W s d f))) (\<lambda>s _. Return (s, Inr d)))) stored"
    proof (rule ups_bindE, rule returns_wrapE, rule ups_read [where f = "\<lambda>x. open_reader x p" and
        P = "\<lambda>f. f = \<lparr>rd_bytes = file_bytes (ws_disk W t) i, rd_err = None\<rparr>", OF t(1) r])
      fix u f assume u: "inv u" "f = \<lparr>rd_bytes = file_bytes (ws_disk W t) i, rd_err = None\<rparr> \<and>
        (\<exists>n. ws_disk W u = (ws_disk W t)\<lparr>sysno := n\<rparr>)"
      from put_law [OF u(1), of "file_bytes (ws_disk W t) i"] u(2) d okd
      show "ups u (bindE (wrapE ''failed to put blob'' (errE (ws_put W u d f))) (\<lambda>s _. Return (s, Inr d))) stored"
        by (auto simp: wrapE_def errE_def bindE_def returns_def stored_in_def split: option.split)
    qed simp
    with None show ?thesis by simp
  next
    case (Some x)
    obtain blobPath putFile where x: "x = (blobPath, putFile)" by fastforce
    from file_law [OF t(1) assms(2) reg Some [unfolded x] d] okd Some x show ?thesis
      by (auto simp: wrapE_def errE_def bindE_def returns_def stored_in_def split: option.split)
  qed
qed

lemma uploadFile_ok:
  assumes "inv s" "under base p" "no_link (ws_disk W s) p" "lookup (ws_disk W s) p \<noteq> None"
  shows "ups s (uploadFile K W s p) stored"
proof -
  from assms(3,4) consider i where "lookup (ws_disk W s) p = Some (RegNode i)" | "lookup (ws_disk W s) p = Some DirNode"
    by (cases "the (lookup (ws_disk W s) p)") (auto simp: no_link_def)
  then show ?thesis
  proof cases
    case 1
    then show ?thesis by (rule uploadFile_reg [OF assms(1,2)])
  next
    case 2
    obtain e where e: "NewFromFile K (ws_disk W s) p = ((ws_disk W s)\<lparr>sysno := Suc (Suc (sysno (ws_disk W s)))\<rparr>, Inl e)"
      using NewFromFile_dir [OF fault_law [OF assms(1)] 2 under_named [OF assms(1,2)]] by blast
    show ?thesis unfolding uploadFile_def
      by (rule ups_bindE, rule returns_wrapE, rule ups_read [where f = "\<lambda>t. NewFromFile K t p" and P = "\<lambda>_. False", OF assms(1) e]) simp_all
  qed
qed

lemma build_leaf_ok:
  assumes "inv s" "under base p" "lookup (ws_disk W s) p = Some info" "info \<noteq> DirNode" "dir_digests (stored s) dir"
  shows "ups s (build_leaf K W s p name info dir) (\<lambda>t dir. dir_digests (stored t) dir)"
proof (cases info)
  case (SymNode target a)
  note r = Readlink_faultless [OF fault_law [OF assms(1)] assms(3) [unfolded SymNode]]
  have "ups s (bindE (on_disk W s (\<lambda>t. Readlink t p)) (\<lambda>s target.
      Return (s, Inr (dir\<lparr>dir_Symlinks := dir_Symlinks dir @ [\<lparr>sn_Name = name, sn_Target = target\<rparr>]\<rparr>))))
      (\<lambda>t dir. dir_digests (stored t) dir)"
  proof (rule ups_bindE, rule ups_read [where f = "\<lambda>t. Readlink t p" and P = "\<lambda>_. True", OF assms(1) r])
    fix t x assume t: "inv t" "kept_by s t"
    have "dir_digests (stored t) dir" by (rule dir_digests_mono [OF assms(5)]) (rule stored_step [OF t(2)])
    then show "ups t (Return (t, Inr (dir\<lparr>dir_Symlinks := dir_Symlinks dir @ [\<lparr>sn_Name = name, sn_Target = x\<rparr>]\<rparr>)))
        (\<lambda>t dir. dir_digests (stored t) dir)" using t(1) by (intro ups_Return) (simp_all add: dir_digests_def)
  qed simp
  with SymNode show ?thesis by (simp add: build_leaf_def)
next
  case (RegNode i)
  have "ups s (bindE (uploadFile K W s p) (\<lambda>s d. Return (s, Inr (dir\<lparr>dir_Files := dir_Files dir @
      [\<lparr>fn_Name = name, fn_Digest = Some d, fn_IsExecutable = x\<rparr>]\<rparr>)))) (\<lambda>t dir. dir_digests (stored t) dir)" for x
  proof (rule ups_bindE, rule uploadFile_reg [OF assms(1,2) assms(3) [unfolded RegNode]])
    fix t d assume t: "inv t" "kept_by s t" "stored t d"
    have "dir_digests (stored t) dir" by (rule dir_digests_mono [OF assms(5)]) (rule stored_step [OF t(2)])
    then show "ups t (Return (t, Inr (dir\<lparr>dir_Files := dir_Files dir @
        [\<lparr>fn_Name = name, fn_Digest = Some d, fn_IsExecutable = x\<rparr>]\<rparr>))) (\<lambda>t dir. dir_digests (stored t) dir)"
      using t(1,3) by (intro ups_Return) (auto simp: dir_digests_def)
  qed
  with RegNode show ?thesis by (simp add: build_leaf_def Let_def)
qed (use assms(4) in simp)

abbreviation built :: "'s \<Rightarrow> Directory \<times> Directory list \<Rightarrow> bool" where
  "built t \<equiv> tree_digests (stored t)"

lemma built_step: "kept_by s t \<Longrightarrow> built s x \<Longrightarrow> built t x"
  by (auto simp: tree_digests_def intro: dir_digests_mono stored_step)

text \<open>The loop over the entries of a directory, given the recursive call on its subdirectories.\<close>

lemma build_entries_ok:
  assumes "tree_ok k base (ws_disk W s)" "inv s" "under base p" "list_all plain (comps p)"
    and "\<forall>(c, n) \<in> set es. lookup (ws_disk W s) (Path (rooted p) (comps p @ [c])) = Some n"
    and "built s (dir, children)"
    and rec: "\<And>t c ch. inv t \<Longrightarrow> tree_ok k base (ws_disk W t) \<Longrightarrow>
      lookup (ws_disk W t) (Path (rooted p) (comps p @ [c])) = Some DirNode \<Longrightarrow> \<forall>c \<in> set ch. dir_digests (stored t) c \<Longrightarrow>
      upsO t (rec t (Path (rooted p) (comps p @ [c])) ch) built"
  shows "upsO s (build_entries rec K W s p es dir children) built"
  using assms(1,2,5,6)
proof (induction es arbitrary: s dir children)
  case Nil
  then show ?case by (simp add: upsO_Return)
next
  case (Cons e es)
  obtain c n where e: "e = (c, n)" by fastforce
  let ?q = "Path (rooted p) (comps p @ [c])"
  have q: "lookup (ws_disk W s) ?q = Some n" "under base ?q" using Cons.prems(3) e under_child [OF assms(3)] by auto
  have "plain c" using Cons.prems(1) q by (auto simp: tree_ok_def)
  then have j: "Join p c = ?q" using clean_plain [OF assms(4), of "rooted p"] by (simp add: Join_plain)
  have rest: "upsO t (build_entries rec K W t p es dir' ch') built" if "inv t" "kept_by s t" "built t (dir', ch')" for t dir' ch'
  proof (rule Cons.IH [OF tree_step [OF that(2) Cons.prems(1)] that(1) _ that(3)])
    show "\<forall>(c, n) \<in> set es. lookup (ws_disk W t) (Path (rooted p) (comps p @ [c])) = Some n"
      using Cons.prems(3) step_lookup [OF that(2) under_child [OF assms(3)]] by auto
  qed
  note ls = Lstat_faultless [OF fault_law [OF Cons.prems(2)], of ?q]
  show ?case unfolding e build_entries.simps Let_def j
  proof (rule upsO_Some, rule ups_read [where f = "\<lambda>t. Lstat t ?q" and P = "\<lambda>x. x = n", OF Cons.prems(2) ls])
    show "x = n" if "(case lookup (ws_disk W s) ?q of None \<Rightarrow> Inl ErrNotExist | Some n \<Rightarrow> Inr n) = Inr x" for x
      using that q(1) by simp
    fix t x assume t: "inv t" "kept_by s t" "x = n \<and> (\<exists>i. ws_disk W t = (ws_disk W s)\<lparr>sysno := i\<rparr>)"
    have b: "built t (dir, children)" by (rule built_step [OF t(2) Cons.prems(4)])
    have qt: "lookup (ws_disk W t) ?q = Some n" using step_lookup [OF t(2) q(2)] q(1) by simp
    show "upsO t (if n = DirNode
           then bindO (rec t ?q children) (\<lambda>s (subdir, children).
                bindO (Some (marshal_upload (m_Directory K subdir) K W s)) (\<lambda>s d.
                  build_entries rec K W s p es (dir\<lparr>dir_Directories := dir_Directories dir @ [\<lparr>dn_Name = c, dn_Digest = Some d\<rparr>]\<rparr>)
                    (children @ [subdir])))
           else bindO (Some (build_leaf K W t ?q c x dir)) (\<lambda>s dir. build_entries rec K W s p es dir children)) built"
    proof (cases "n = DirNode")
      case True
      have "upsO t (bindO (rec t ?q children) (\<lambda>s (subdir, children).
                bindO (Some (marshal_upload (m_Directory K subdir) K W s)) (\<lambda>s d.
                  build_entries rec K W s p es (dir\<lparr>dir_Directories := dir_Directories dir @ [\<lparr>dn_Name = c, dn_Digest = Some d\<rparr>]\<rparr>)
                    (children @ [subdir])))) built"
      proof (rule upsO_bindO)
        show "upsO t (rec t ?q children) built"
          by (rule rec [OF t(1) tree_step [OF t(2) Cons.prems(1)] qt [unfolded True]]) (use b in \<open>simp add: tree_digests_def\<close>)
        fix u y assume u: "inv u" "kept_by t u" "built u y"
        obtain subdir ch where y: "y = (subdir, ch)" by fastforce
        show "upsO u (case y of (subdir, children) \<Rightarrow>
                bindO (Some (marshal_upload (m_Directory K subdir) K W u)) (\<lambda>s d.
                  build_entries rec K W s p es (dir\<lparr>dir_Directories := dir_Directories dir @ [\<lparr>dn_Name = c, dn_Digest = Some d\<rparr>]\<rparr>)
                    (children @ [subdir]))) built"
          unfolding y prod.case
        proof (rule upsO_Some [OF marshal_upload_ok [OF u(1)]])
          fix v d assume v: "inv v" "kept_by u v" "stored v d"
          have sv: "kept_by s v" using t(2) u(2) v(2) by (blast intro: upload_step_trans)
          have "built v (dir, children)" by (rule built_step [OF sv Cons.prems(4)])
          moreover have "built v (subdir, ch)" by (rule built_step [OF v(2) u(3) [unfolded y]])
          ultimately have "built v (dir\<lparr>dir_Directories := dir_Directories dir @ [\<lparr>dn_Name = c, dn_Digest = Some d\<rparr>]\<rparr>, ch @ [subdir])"
            using v(3) by (auto simp: tree_digests_def dir_digests_def)
          then show "upsO v (build_entries rec K W v p es
              (dir\<lparr>dir_Directories := dir_Directories dir @ [\<lparr>dn_Name = c, dn_Digest = Some d\<rparr>]\<rparr>) (ch @ [subdir])) built"
            by (rule rest [OF v(1) sv])
        qed
      qed
      with True show ?thesis by simp
    next
      case False
      have "upsO t (bindO (Some (build_leaf K W t ?q c x dir)) (\<lambda>s dir. build_entries rec K W s p es dir children)) built"
      proof (rule upsO_Some, rule build_leaf_ok [OF t(1) q(2)])
        show "lookup (ws_disk W t) ?q = Some x" "x \<noteq> DirNode" "dir_digests (stored t) dir"
          using qt t(3) False b by (simp_all add: tree_digests_def)
        fix u dir' assume u: "inv u" "kept_by t u" "dir_digests (stored u) dir'"
        have "built u (dir', children)" using built_step [OF u(2) b] u(3) by (simp add: tree_digests_def)
        then show "upsO u (build_entries rec K W u p es dir' children) built"
          by (rule rest [OF u(1) upload_step_trans [OF t(2) u(2)]])
      qed
      with False show ?thesis by simp
    qed
  qed
qed

lemma buildDirectoryProto_ok:
  "inv s \<Longrightarrow> tree_ok k base (ws_disk W s) \<Longrightarrow> under base p \<Longrightarrow> no_link (ws_disk W s) p \<Longrightarrow> k < n + length (comps p) \<Longrightarrow>
   lookup (ws_disk W s) p \<noteq> None \<Longrightarrow> \<forall>c \<in> set ch. dir_digests (stored s) c \<Longrightarrow> upsO s (buildDirectoryProto n K W s p ch) built"
proof (induction n arbitrary: s p ch)
  case 0
  then show ?case by (auto simp: tree_ok_def)
next
  case (Suc n)
  have pl: "list_all plain (comps p)" using Suc.prems(2,3,6) by (simp add: tree_ok_def)
  obtain r where r: "ReadDir (ws_disk W s) p = ((ws_disk W s)\<lparr>sysno := Suc (sysno (ws_disk W s))\<rparr>, r)"
    "\<And>es. r = Inr es \<Longrightarrow> (\<forall>(c, n) \<in> set es. lookup (ws_disk W s) (Path (rooted p) (comps p @ [c])) = Some n)"
    using ReadDir_faultless [OF fault_law [OF Suc.prems(1)] Suc.prems(4) under_named [OF Suc.prems(1,3)]] by blast
  show ?case unfolding buildDirectoryProto.simps
  proof (rule upsO_Some, rule ups_read [where f = "\<lambda>t. ReadDir t p" and
        P = "\<lambda>es. \<forall>(c, n) \<in> set es. lookup (ws_disk W s) (Path (rooted p) (comps p @ [c])) = Some n", OF Suc.prems(1) r(1)])
    show "\<forall>(c, n) \<in> set es. lookup (ws_disk W s) (Path (rooted p) (comps p @ [c])) = Some n" if "r = Inr es" for es
      by (rule r(2) [OF that])
    fix t es assume t: "inv t" "kept_by s t"
      "(\<forall>(c, n) \<in> set es. lookup (ws_disk W s) (Path (rooted p) (comps p @ [c])) = Some n) \<and>
       (\<exists>i. ws_disk W t = (ws_disk W s)\<lparr>sysno := i\<rparr>)"
    show "upsO t (build_entries (buildDirectoryProto n K W) K W t p es
        \<lparr>dir_Files = [], dir_Directories = [], dir_Symlinks = []\<rparr> ch) built"
    proof (rule build_entries_ok [OF tree_step [OF t(2) Suc.prems(2)] t(1) Suc.prems(3) pl])
      show "\<forall>(c, n) \<in> set es. lookup (ws_disk W t) (Path (rooted p) (comps p @ [c])) = Some n" using t(3) by auto
      have "\<forall>c \<in> set ch. dir_digests (stored t) c"
        using Suc.prems(7) stored_step [OF t(2)] by (blast intro: dir_digests_mono)
      then show "built t (\<lparr>dir_Files = [], dir_Directories = [], dir_Symlinks = []\<rparr>, ch)"
        by (simp add: tree_digests_def dir_digests_def)
      fix u c ch' assume u: "inv u" "tree_ok k base (ws_disk W u)"
        "lookup (ws_disk W u) (Path (rooted p) (comps p @ [c])) = Some DirNode" "\<forall>c \<in> set ch'. dir_digests (stored u) c"
      show "upsO u (buildDirectoryProto n K W u (Path (rooted p) (comps p @ [c])) ch') built"
        by (rule Suc.IH [OF u(1,2) under_child [OF Suc.prems(3)]]) (use u(3,4) Suc.prems(5) in \<open>simp_all add: no_link_def\<close>)
    qed
  qed
qed

abbreviation good_result :: "int \<Rightarrow> 's \<Rightarrow> ActionResult \<Rightarrow> bool" where
  "good_result c t res \<equiv> result_digests (stored t) res \<and> ExitCode res = c"

lemma good_result_step: "kept_by s t \<Longrightarrow> good_result c s res \<Longrightarrow> good_result c t res"
  using result_digests_mono [of "stored s" res "stored t"] stored_step by blast

lemma add_directory_ok:
  assumes "inv s" "tree_ok k base (ws_disk W s)" "under base p" "no_link (ws_disk W s) p" "k < n" "lookup (ws_disk W s) p \<noteq> None"
    and "good_result c s res"
  shows "upsO s (add_directory n K W s p out res) (good_result c)"
proof -
  have bt: "upsO s (buildTree n K W s p) (\<lambda>t (tree, d). stored t d)"
    unfolding buildTree_def
  proof (rule upsO_bindO, rule buildDirectoryProto_ok [OF assms(1-4) _ assms(6)])
    fix t x assume t: "inv t" "kept_by s t" "built t x"
    obtain dir ch where x: "x = (dir, ch)" by fastforce
    show "upsO t (case x of (dr, children) \<Rightarrow> bindO (Some (marshal_upload (m_Directory K dr) K W t)) (\<lambda>s rootDigest.
       Some (Return (s, Inr (\<lparr>tree_Root = dr, tree_Children = children\<rparr>, rootDigest))))) (\<lambda>t (tree, d). stored t d)"
      unfolding x prod.case by (rule upsO_Some [OF marshal_upload_ok [OF t(1)]]) (simp add: upsO_Return)
  qed (use assms(5) in simp_all)
  show ?thesis unfolding add_directory_def
  proof (rule upsO_bindO, rule returnsO_wrapE [OF bt])
    fix t and x :: "Tree \<times> Digest" assume t: "inv t" "kept_by s t" "case x of (tree, d) \<Rightarrow> stored t d"
    obtain tree rd where x: "x = (tree, rd)" by fastforce
    have up: "ups t (case m_Tree K tree of Inl e \<Rightarrow> Return (t, Inl e)
        | Inr treeData \<Rightarrow> wrapE ''failed to upload tree'' (uploadBlob K W t treeData)) stored"
      using t(1) by (auto simp: ups_error returns_wrapE uploadBlob_ok split: sum.split)
    show "upsO t (case x of (tree, rootDigest) \<Rightarrow>
       bindO (Some (case m_Tree K tree of
                    Inl e \<Rightarrow> Return (t, Inl e)
                  | Inr treeData \<Rightarrow> wrapE ''failed to upload tree'' (uploadBlob K W t treeData))) (\<lambda>s treeDigest.
       Some (Return (s, Inr (res\<lparr>OutputDirectories := OutputDirectories res @
         [\<lparr>od_Path = out, od_TreeDigest = treeDigest, od_RootDirectoryDigest = rootDigest\<rparr>]\<rparr>)))))
       (good_result c)"
      unfolding x prod.case
    proof (rule upsO_Some [OF up])
      fix u td assume u: "inv u" "kept_by t u" "stored u td"
      have "good_result c u res" by (rule good_result_step [OF upload_step_trans [OF t(2) u(2)] assms(7)])
      moreover have "stored u rd" using stored_step [OF u(2)] t(3) x by simp
      ultimately show "upsO u (Some (Return (u, Inr (res\<lparr>OutputDirectories := OutputDirectories res @
         [\<lparr>od_Path = out, od_TreeDigest = td, od_RootDirectoryDigest = rd\<rparr>]\<rparr>))))
         (good_result c)"
        using u(1,3) by (intro upsO_Return) (auto simp: result_digests_def)
    qed
  qed
qed

lemma add_file_ok:
  assumes "inv s" "under base p" "no_link (ws_disk W s) p" "lookup (ws_disk W s) p \<noteq> None" "good_result c s res"
  shows "ups s (add_file K W s p out m res) (good_result c)"
  unfolding add_file_def
proof (rule ups_bindE, rule returns_wrapE, rule uploadFile_ok [OF assms(1-4)])
  fix t d assume t: "inv t" "kept_by s t" "stored t d"
  have "good_result c t res" by (rule good_result_step [OF t(2) assms(5)])
  then show "ups t (Return (t, Inr (res\<lparr>OutputFiles := OutputFiles res @
      [\<lparr>of_Path = out, of_Digest = d, of_IsExecutable = and m exec_bits \<noteq> 0\<rparr>]\<rparr>)))
      (good_result c)"
    using t(1,3) by (intro ups_Return) (auto simp: result_digests_def)
qed

text \<open>What is known of a declared output before it is looked at, and after \<open>os.Stat\<close>.\<close>

abbreviation good_out :: "'s \<Rightarrow> path \<Rightarrow> string \<Rightarrow> bool" where
  "good_out s dir out \<equiv> under base (Join dir out) \<and> no_link (ws_disk W s) (Join dir out)"

lemma good_out_step: "kept_by s t \<Longrightarrow> good_out s dir out \<Longrightarrow> good_out t dir out"
  by (simp add: no_link_step)

lemma stat_output:
  assumes "inv s" "good_out s dir out"
  obtains t r where "on_disk W s (\<lambda>t. Stat t (Join dir out)) = Return (t, r)" "inv t" "kept_by s t"
    "case r of Inl e \<Rightarrow> e = ErrNotExist | Inr info \<Rightarrow> lookup (ws_disk W t) (Join dir out) \<noteq> None"
proof -
  have u: "under base (Join dir out)" using assms(2) by simp
  define r where "r = snd (Stat (ws_disk W s) (Join dir out))"
  have st: "Stat (ws_disk W s) (Join dir out) = ((ws_disk W s)\<lparr>sysno := Suc (sysno (ws_disk W s))\<rparr>, r)"
    "case r of Inl e \<Rightarrow> e = ErrNotExist | Inr info \<Rightarrow> lookup (ws_disk W s) (Join dir out) \<noteq> None"
    using Stat_no_link [OF fault_law [OF assms(1)] _ under_named [OF assms(1) u]] assms(2)
    by (auto simp: r_def split: option.split node.split)
  note rs = read_step [of s "\<lambda>t. Stat t (Join dir out)", OF assms(1) st(1)]
  show ?thesis by (rule that [OF rs]) (use st(2) step_lookup [OF rs(3) u] in \<open>auto split: sum.split\<close>)
qed

lemma ups_after: "kept_by s t \<Longrightarrow> ups t m Q \<Longrightarrow> ups s m Q"
  unfolding returns_def by (blast intro: upload_step_trans)

lemma upsO_after: "kept_by s t \<Longrightarrow> upsO t m Q \<Longrightarrow> upsO s m Q"
  unfolding returnsO_def by (blast intro: ups_after)

lemma upload_files_ok:
  "inv s \<Longrightarrow> \<forall>out \<in> set outs. good_out s dir out \<Longrightarrow> good_result c s res \<Longrightarrow> ups s (upload_files K W s dir outs res) (good_result c)"
proof (induction outs arbitrary: s res)
  case Nil
  then show ?case by (simp add: ups_Return)
next
  case (Cons out outs)
  from Cons.prems(1,2) obtain t r where t: "on_disk W s (\<lambda>t. Stat t (Join dir out)) = Return (t, r)" "inv t" "kept_by s t"
    "case r of Inl e \<Rightarrow> e = ErrNotExist | Inr info \<Rightarrow> lookup (ws_disk W t) (Join dir out) \<noteq> None"
    by (auto elim: stat_output)
  have rest: "ups u (upload_files K W u dir outs res') (good_result c)" if "inv u" "kept_by s u" "good_result c u res'" for u res'
    by (rule Cons.IH [OF that(1) _ that(3)]) (use good_out_step [OF that(2)] Cons.prems(2) in auto)
  have gt: "good_result c t res" "good_out t dir out"
    using good_result_step [OF t(3)] good_out_step [OF t(3)] Cons.prems(2,3) by auto
  have "ups t (case r of
         Inl e \<Rightarrow> if IsNotExist e then upload_files K W t dir outs res else Return (t, Inl (Wrap ''failed to stat output'' e))
       | Inr info \<Rightarrow> bindE (add_file K W t (Join dir out) out (info_mode info) res) (\<lambda>s res. upload_files K W s dir outs res))
       (good_result c)"
  proof (cases r)
    case (Inl e)
    with t(4) rest [OF t(2,3) gt(1)] show ?thesis by simp
  next
    case (Inr info)
    have "ups t (bindE (add_file K W t (Join dir out) out (info_mode info) res) (\<lambda>s res. upload_files K W s dir outs res)) (good_result c)"
      by (rule ups_bindE, rule add_file_ok [OF t(2) _ _ _ gt(1)])
        (use t(4) gt(2) Inr in \<open>simp_all add: rest [OF _ upload_step_trans [OF t(3)]]\<close>)
    with Inr show ?thesis by simp
  qed
  with t(1) show ?case by (simp add: ups_after [OF t(3)])
qed

lemma upload_directories_ok:
  "inv s \<Longrightarrow> tree_ok k base (ws_disk W s) \<Longrightarrow> k < n \<Longrightarrow> \<forall>out \<in> set outs. good_out s dir out \<Longrightarrow> good_result c s res \<Longrightarrow>
   upsO s (upload_directories n K W s dir outs res) (good_result c)"
proof (induction outs arbitrary: s res)
  case Nil
  then show ?case by (simp add: upsO_Return)
next
  case (Cons out outs)
  from Cons.prems(1,4) obtain t r where t: "on_disk W s (\<lambda>t. Stat t (Join dir out)) = Return (t, r)" "inv t" "kept_by s t"
    "case r of Inl e \<Rightarrow> e = ErrNotExist | Inr info \<Rightarrow> lookup (ws_disk W t) (Join dir out) \<noteq> None"
    by (auto elim: stat_output)
  have rest: "upsO u (upload_directories n K W u dir outs res') (good_result c)" if "inv u" "kept_by s u" "good_result c u res'" for u res'
    by (rule Cons.IH [OF that(1) tree_step [OF that(2) Cons.prems(2)] Cons.prems(3) _ that(3)])
      (use good_out_step [OF that(2)] Cons.prems(4) in auto)
  have gt: "good_result c t res" "good_out t dir out"
    using good_result_step [OF t(3)] good_out_step [OF t(3)] Cons.prems(4,5) by auto
  show ?case
  proof (cases r)
    case (Inl e)
    with t rest [OF t(2,3) gt(1)] show ?thesis by (simp add: upsO_after [OF t(3)])
  next
    case (Inr info)
    have "upsO t (bindO (add_directory n K W t (Join dir out) out res) (\<lambda>s res. upload_directories n K W s dir outs res)) (good_result c)"
      by (rule upsO_bindO, rule add_directory_ok [OF t(2) tree_step [OF t(3) Cons.prems(2)] _ _ Cons.prems(3) _ gt(1)])
        (use t(4) gt(2) Inr in \<open>simp_all add: rest [OF _ upload_step_trans [OF t(3)]]\<close>)
    with Inr t(1) show ?thesis by (simp add: upsO_after [OF t(3)])
  qed
qed

lemma upload_paths_ok:
  "inv s \<Longrightarrow> tree_ok k base (ws_disk W s) \<Longrightarrow> k < n \<Longrightarrow> \<forall>out \<in> set outs. good_out s dir out \<Longrightarrow> good_result c s res \<Longrightarrow>
   upsO s (upload_paths n K W s dir outs res) (good_result c)"
proof (induction outs arbitrary: s res)
  case Nil
  then show ?case by (simp add: upsO_Return)
next
  case (Cons out outs)
  from Cons.prems(1,4) obtain t r where t: "on_disk W s (\<lambda>t. Stat t (Join dir out)) = Return (t, r)" "inv t" "kept_by s t"
    "case r of Inl e \<Rightarrow> e = ErrNotExist | Inr info \<Rightarrow> lookup (ws_disk W t) (Join dir out) \<noteq> None"
    by (auto elim: stat_output)
  have rest: "upsO u (upload_paths n K W u dir outs res') (good_result c)" if "inv u" "kept_by s u" "good_result c u res'" for u res'
    by (rule Cons.IH [OF that(1) tree_step [OF that(2) Cons.prems(2)] Cons.prems(3) _ that(3)])
      (use good_out_step [OF that(2)] Cons.prems(4) in auto)
  have gt: "good_result c t res" "good_out t dir out"
    using good_result_step [OF t(3)] good_out_step [OF t(3)] Cons.prems(4,5) by auto
  show ?case
  proof (cases r)
    case (Inl e)
    with t rest [OF t(2,3) gt(1)] show ?thesis by (simp add: upsO_after [OF t(3)])
  next
    case (Inr info)
    have add: "upsO t (if info = IsDirectory then add_directory n K W t (Join dir out) out res
        else Some (add_file K W t (Join dir out) out (info_mode info) res)) (good_result c)"
      using add_directory_ok [OF t(2) tree_step [OF t(3) Cons.prems(2)] _ _ Cons.prems(3) _ gt(1)]
        add_file_ok [OF t(2) _ _ _ gt(1)] t(4) gt(2) Inr
      by (simp add: returnsO_def)
    have "upsO t (bindO (if info = IsDirectory then add_directory n K W t (Join dir out) out res
        else Some (add_file K W t (Join dir out) out (info_mode info) res)) (\<lambda>s res. upload_paths n K W s dir outs res)) (good_result c)"
      by (rule upsO_bindO [OF add]) (simp add: rest [OF _ upload_step_trans [OF t(3)]])
    with Inr t(1) show ?thesis by (simp add: upsO_after [OF t(3)])
  qed
qed

lemma upload_stream_ok: "inv s \<Longrightarrow> ups s (upload_stream msg K W s data) (\<lambda>t out. \<forall>d. out = Some d \<longrightarrow> stored t d)"
  unfolding upload_stream_def
  by (auto simp: ups_Return intro!: ups_bindE [OF returns_wrapE [OF uploadBlob_ok]] ups_Return)

lemma uploadOutputs_ok:
  assumes "inv s" "tree_ok k base (ws_disk W s)" "k < n"
    and "\<forall>out \<in> set (cmd_OutputFiles cmd) \<union> set (cmd_OutputDirectories cmd) \<union> set (cmd_OutputPaths cmd).
      good_out s (Join dir (cmd_WorkingDirectory cmd)) out"
  shows "upsO s (uploadOutputs n K W now s dir cmd x) (good_result (int32 (xr_exitCode x)))"
  unfolding uploadOutputs_def Let_def
proof (rule upsO_Some [OF upload_stream_ok [OF assms(1)]])
  fix t out assume t: "inv t" "kept_by s t" "\<forall>d. out = Some d \<longrightarrow> stored t d"
  let ?d = "Join dir (cmd_WorkingDirectory cmd)"
  let ?res = "\<lparr>ExitCode = int32 (xr_exitCode x), StdoutDigest = None, StderrDigest = None, OutputFiles = [],
                    OutputDirectories = [], ExecutionCompletedTimestamp = now\<rparr>"
  show "upsO t (bindO (Some (upload_stream ''failed to upload stderr'' K W t (xr_stderr x))) (\<lambda>s err.
         bindO (Some (upload_files K W s ?d (cmd_OutputFiles cmd) (?res\<lparr>StdoutDigest := out, StderrDigest := err\<rparr>))) (\<lambda>s result.
         bindO (upload_directories n K W s ?d (cmd_OutputDirectories cmd) result) (\<lambda>s result.
           upload_paths n K W s ?d (cmd_OutputPaths cmd) result)))) (good_result (int32 (xr_exitCode x)))"
  proof (rule upsO_Some [OF upload_stream_ok [OF t(1)]])
    fix u err assume u: "inv u" "kept_by t u" "\<forall>d. err = Some d \<longrightarrow> stored u d"
    have su: "kept_by s u" by (rule upload_step_trans [OF t(2) u(2)])
    have outs: "\<forall>out \<in> set (cmd_OutputFiles cmd) \<union> set (cmd_OutputDirectories cmd) \<union> set (cmd_OutputPaths cmd). good_out v ?d out"
      if "kept_by s v" for v using assms(4) good_out_step [OF that] by blast
    have res: "good_result (int32 (xr_exitCode x)) u (?res\<lparr>StdoutDigest := out, StderrDigest := err\<rparr>)"
      using t(3) u(3) stored_step [OF u(2)] by (auto simp: result_digests_def)
    show "upsO u (bindO (Some (upload_files K W u ?d (cmd_OutputFiles cmd) (?res\<lparr>StdoutDigest := out, StderrDigest := err\<rparr>))) (\<lambda>s result.
         bindO (upload_directories n K W s ?d (cmd_OutputDirectories cmd) result) (\<lambda>s result.
           upload_paths n K W s ?d (cmd_OutputPaths cmd) result))) (good_result (int32 (xr_exitCode x)))"
    proof (rule upsO_Some, rule upload_files_ok [OF u(1) _ res])
      show "\<forall>out \<in> set (cmd_OutputFiles cmd). good_out u ?d out" using outs [OF su] by blast
      fix v r1 assume v: "inv v" "kept_by u v" "good_result (int32 (xr_exitCode x)) v r1"
      have sv: "kept_by s v" by (rule upload_step_trans [OF su v(2)])
      show "upsO v (bindO (upload_directories n K W v ?d (cmd_OutputDirectories cmd) r1) (\<lambda>s result.
           upload_paths n K W s ?d (cmd_OutputPaths cmd) result)) (good_result (int32 (xr_exitCode x)))"
      proof (rule upsO_bindO, rule upload_directories_ok [OF v(1) tree_step [OF sv assms(2)] assms(3) _ v(3)])
        show "\<forall>out \<in> set (cmd_OutputDirectories cmd). good_out v ?d out" using outs [OF sv] by blast
        fix w r2 assume w: "inv w" "kept_by v w" "good_result (int32 (xr_exitCode x)) w r2"
        have sw: "kept_by s w" by (rule upload_step_trans [OF sv w(2)])
        show "upsO w (upload_paths n K W w ?d (cmd_OutputPaths cmd) r2) (good_result (int32 (xr_exitCode x)))"
          by (rule upload_paths_ok [OF w(1) tree_step [OF sw assms(2)] assms(3) _ w(3)]) (use outs [OF sw] in blast)
      qed
    qed
  qed
qed

end

end
