(* ===== verification/Upload_Stores.thy ===== *)
theory Upload_Stores
  imports Upload_Props
begin

text \<open>
The local store and the proxy store as stores to upload to: \<open>Put\<close> and \<open>PutFile\<close> keep the contents of the store
  true to their hashes, and do not touch the files beside the store.
\<close>

section \<open>A store that can be uploaded to\<close>

text \<open>
  \<open>clean_store\<close>: no disk faults, hashes are hexadecimal, every blob has the contents its hash names, no temporary link of \<open>PutFile\<close> is left over,
  and the store and the files to upload are not inside one another.
\<close>

definition apart :: "path \<Rightarrow> path \<Rightarrow> bool" where
  "apart p q \<longleftrightarrow> \<not> under p q \<and> \<not> under q p"

definition clean_store :: "wcodec \<Rightarrow> path \<Rightarrow> LocalStore \<Rightarrow> bool" where
  "clean_store K base l \<longleftrightarrow> sound l \<and> comps base \<noteq> [] \<and> apart base (rootDir l) \<and> (\<forall>data. hexhash (Hash (NewFromBlob K data))) \<and>
     (\<forall>h x. hexhash h \<longrightarrow> entry ''cas'' l h = Some x \<longrightarrow> Hash (NewFromBlob K x) = h) \<and>
     (\<forall>h n. hexhash h \<longrightarrow> lookup (disk l) (link_temp l h n) = None)"

definition store_step :: "path \<Rightarrow> LocalStore \<Rightarrow> LocalStore \<Rightarrow> bool" where
  "store_step base l t \<longleftrightarrow>
     (\<forall>h. hexhash h \<longrightarrow> entry ''cas'' l h \<noteq> None \<longrightarrow> entry ''cas'' t h \<noteq> None) \<and>
     (\<forall>p. under base p \<longrightarrow> lookup (disk t) p = lookup (disk l) p)"

lemma store_step_trans: "store_step base s t \<Longrightarrow> store_step base t u \<Longrightarrow> store_step base s u"
  by (simp add: store_step_def)

lemma under_prefix: "under rt p \<longleftrightarrow> rooted p = rooted rt \<and> (\<exists>cs. comps p = comps rt @ cs)"
  unfolding under_def by (metis append_eq_conv_conj append_take_drop_id)

lemma apart_not_under:
  assumes "apart base rt" "under base p"
  shows "\<not> under rt p"
proof
  assume "under rt p"
  with assms obtain xs ys where "comps p = comps base @ xs" "comps p = comps rt @ ys" "rooted base = rooted rt"
    by (auto simp: under_prefix)
  then obtain us where "comps base = comps rt @ us \<or> comps rt = comps base @ us" "rooted base = rooted rt"
    by (metis append_eq_append_conv2)
  then have "under rt base \<or> under base rt" by (auto simp: under_prefix)
  then show False using assms(1) by (simp add: apart_def)
qed

lemma comps_parent_entry: "comps (parent (entry_at k rt h)) = comps rt @ [k, take 2 h, take 2 (drop 2 h)]"
  by (simp add: entry_at_def parent_def butlast_append)

lemma apart_not_below:
  assumes "apart base rt" "under base p" "below (rooted rt) [] (comps (parent (entry_at k rt h))) p"
  shows False
proof -
  from assms(3) obtain j where j: "rooted p = rooted rt" "comps p = take j (comps rt @ [k, take 2 h, take 2 (drop 2 h)])"
    by (auto simp: below_def comps_parent_entry)
  show False
  proof (cases "j \<le> length (comps rt)")
    case True
    then have "comps rt = comps p @ drop j (comps rt)" using j by simp
    then have "under base rt" using assms(2) j(1) by (auto simp: under_prefix)
    then show False using assms(1) by (simp add: apart_def)
  next
    case False
    then have "under rt p" using j by (simp add: under_prefix)
    then show False using apart_not_under [OF assms(1,2)] by simp
  qed
qed

lemma under_entry [simp]: "under rt (entry_at k rt h)"
  by (simp add: under_prefix entry_at_def)

text \<open>The names that writing a blob may change are not those of temporary links, nor below \<open>base\<close>.\<close>

lemma link_temp_names:
  assumes "store_inv l" "hexhash h" "hexhash h'"
  shows "\<not> below r [] (comps (parent (entry_at k (rootDir l) h'))) (link_temp l h n)"
    "link_temp l h n \<noteq> Join (parent (entry_at ''cas'' (rootDir l) h')) (''cas-tmp-'' @ show_nat m)"
proof -
  note c = link_temp_comps [OF assms(1,2), of n]
  show "\<not> below r [] (comps (parent (entry_at k (rootDir l) h'))) (link_temp l h n)"
    using c by (auto simp: below_def comps_parent_entry dest!: arg_cong [where f = length])
  have "CHR ''p'' \<notin> set (show_nat m)"
  proof
    assume "CHR ''p'' \<in> set (show_nat m)"
    then obtain i :: nat where i: "i < 10" "CHR ''p'' = char_of (48 + i)" using show_nat_digits by blast
    from i(2) have "of_char (CHR ''p'') = (48 + i) mod 256" by simp
    with i(1) show False by simp
  qed
  then have "''putfile-'' @ show_int n @ ''-'' @ h \<noteq> show_nat m" by (metis append_Cons list.set_intros(1))
  moreover have "comps (Join (parent (entry_at ''cas'' (rootDir l) h')) (''cas-tmp-'' @ show_nat m)) =
      comps (parent (entry_at ''cas'' (rootDir l) h')) @ [''cas-tmp-'' @ show_nat m]"
    by (rule temp_not_below) (use assms in \<open>simp_all add: store_inv_def\<close>)
  ultimately show "link_temp l h n \<noteq> Join (parent (entry_at ''cas'' (rootDir l) h')) (''cas-tmp-'' @ show_nat m)"
    using c by (auto simp: comps_parent_entry dest!: arg_cong [where f = comps])
qed

lemma under_temp:
  assumes "store_inv l" "hexhash h"
  shows "under (rootDir l) (Join (parent (entry_at ''cas'' (rootDir l) h)) (''cas-tmp-'' @ show_nat m))"
proof -
  have "comps (Join (parent (entry_at ''cas'' (rootDir l) h)) (''cas-tmp-'' @ show_nat m)) =
      comps (parent (entry_at ''cas'' (rootDir l) h)) @ [''cas-tmp-'' @ show_nat m]"
    by (rule temp_not_below) (use assms in \<open>simp_all add: store_inv_def\<close>)
  then show ?thesis by (simp add: under_prefix comps_parent_entry Join_def)
qed

text \<open>Changing only such names, and the blob of one hash to contents with that hash, keeps the store clean.\<close>

lemma clean_store_step:
  assumes "clean_store K base l" "sound t" "rootDir t = rootDir l" "hexhash (Hash d)"
    and "\<And>h. hexhash h \<Longrightarrow> h \<noteq> Hash d \<Longrightarrow> entry ''cas'' t h = entry ''cas'' l h"
    and "entry ''cas'' t (Hash d) = entry ''cas'' l (Hash d) \<or> entry ''cas'' t (Hash d) = Some x \<and> Hash (NewFromBlob K x) = Hash d"
    and "\<And>p. lookup (disk t) p = lookup (disk l) p \<or> p = entry_at ''cas'' (rootDir l) (Hash d) \<or>
      below (rooted (rootDir l)) [] (comps (parent (entry_at ''cas'' (rootDir l) (Hash d)))) p \<or>
      (\<exists>m. p = Join (parent (entry_at ''cas'' (rootDir l) (Hash d))) (''cas-tmp-'' @ show_nat m))"
  shows "clean_store K base t \<and> store_step base l t"
proof -
  have inv: "store_inv l" "apart base (rootDir l)" using assms(1) by (simp_all add: clean_store_def sound_def)
  have "lookup (disk t) (link_temp t h n) = None" if h: "hexhash h" for h n
  proof -
    have "link_temp t h n = link_temp l h n" using assms(3) by (simp add: link_temp_def)
    moreover have "lookup (disk t) (link_temp l h n) = lookup (disk l) (link_temp l h n)"
      using assms(7) [of "link_temp l h n"] link_temp_not_entry [OF inv(1) h assms(4), of n "''cas''"]
        link_temp_names [OF inv(1) h assms(4)] by blast
    ultimately show ?thesis using assms(1) h by (simp add: clean_store_def)
  qed
  moreover have "Hash (NewFromBlob K y) = h" if "hexhash h" "entry ''cas'' t h = Some y" for h y
    using that assms(1,5,6) by (cases "h = Hash d") (auto simp: clean_store_def)
  moreover have "lookup (disk t) p = lookup (disk l) p" if p: "under base p" for p
    using assms(7) [of p] apart_not_under [OF inv(2) p] apart_not_below [OF inv(2) p] under_entry under_temp [OF inv(1) assms(4)] by metis
  moreover have "entry ''cas'' t h \<noteq> None" if "hexhash h" "entry ''cas'' l h \<noteq> None" for h
    using that assms(5,6) by (cases "h = Hash d") auto
  ultimately show ?thesis using assms(1-3) inv(2) by (simp add: clean_store_def store_step_def)
qed

lemma clean_store_steady:
  assumes "clean_store K base l" "sound t" "steady l t"
  shows "clean_store K base t \<and> store_step base l t"
  using assms by (simp add: clean_store_def store_step_def steady_entry) (simp add: steady_def link_temp_def)

lemma Has_clean:
  assumes "clean_store K base l" "hexhash (Hash d)"
  shows "\<exists>t. Has l d = Return (t, Inr (entry ''cas'' l (Hash d) \<noteq> None)) \<and> clean_store K base t \<and> store_step base l t \<and>
    (\<forall>h. entry ''cas'' t h = entry ''cas'' l h)"
proof -
  have s: "sound l" using assms(1) by (simp add: clean_store_def)
  then have inv: "store_inv l" "faultless (disk l)" by (simp_all add: sound_def)
  obtain t where t: "Has l d = Return (t, Inr (entry ''cas'' l (Hash d) \<noteq> None))" "sound t" using sound_Has [OF s assms(2)] by blast
  have "steady l t"
  proof (cases "entry ''cas'' l (Hash d)")
    case None
    then have "file_at (disk l) (entry_at ''cas'' (rootDir l) (Hash d)) = None" by (simp add: entry_def)
    then have "t = l\<lparr>disk := (disk l)\<lparr>sysno := Suc (sysno (disk l))\<rparr>\<rparr>"
      using t(1) inv Stat_entry [OF inv(1) plain_kinds(1) assms(2)] store_path [OF inv(1) assms(2) plain_kinds(1)]
      by (simp add: Has_def BlobPath_def faultless_def)
    then show ?thesis by (simp add: steady_def)
  next
    case (Some x)
    then show ?thesis using present(1) [OF inv(1) assms(2) inv(2) Some] t(1) by auto
  qed
  with t clean_store_steady [OF assms(1) t(2)] show ?thesis by (auto simp: steady_entry)
qed

lemma Put_clean:
  assumes "clean_store K base l" "hexhash (Hash d)" "Hash (NewFromBlob K (rd_bytes rd)) = Hash d"
  shows "\<exists>t r. Put l d rd = Return (t, r) \<and> clean_store K base t \<and> store_step base l t \<and>
    (r = None \<longrightarrow> entry ''cas'' t (Hash d) \<noteq> None)"
proof -
  have s: "sound l" using assms(1) by (simp add: clean_store_def)
  then have inv: "store_inv l" by (simp add: sound_def)
  obtain t r where t: "Put l d rd = Return (t, r)" "sound t"
     "\<forall>h. hexhash h \<longrightarrow> h \<noteq> Hash d \<longrightarrow> entry ''cas'' t h = entry ''cas'' l h"
     "entry ''cas'' t (Hash d) = entry ''cas'' l (Hash d) \<or> entry ''cas'' t (Hash d) = Some (rd_bytes rd)"
     "r = None \<longrightarrow> entry ''cas'' t (Hash d) = Some (rd_bytes rd)"
    using sound_Put [OF s assms(2), of rd] by blast
  have w: "entry_written (disk l) (disk t) (entry_at ''cas'' (rootDir l) (Hash d)) ''cas-tmp-'' (rd_bytes rd) \<and> rootDir t = rootDir l"
    by (rule Put_cases [OF inv assms(2), of rd]) (use t(1) in auto)
  let ?path = "entry_at ''cas'' (rootDir l) (Hash d)"
  have names: "lookup (disk t) p = lookup (disk l) p \<or> p = ?path \<or> below (rooted (rootDir l)) [] (comps (parent ?path)) p \<or>
      (\<exists>m. p = Join (parent ?path) (''cas-tmp-'' @ show_nat m))" for p
    using writtenD [OF conjunct1 [OF w], of p] by (simp only: rooted_entry_at) blast
  have "clean_store K base t \<and> store_step base l t"
    by (rule clean_store_step [OF assms(1) t(2) conjunct2 [OF w] assms(2) _ _ names]) (use t(3,4) assms(3) in auto)
  then show ?thesis using t(1,5) by auto
qed

lemma PutFile_clean:
  assumes "clean_store K base l" "under base p" "lookup (disk l) p = Some (RegNode i)"
    and "d = NewFromBlob K (file_bytes (disk l) i)"
  shows "\<exists>t r. PutFile l d p = Return (t, r) \<and> clean_store K base t \<and> store_step base l t \<and>
    (r = None \<longrightarrow> entry ''cas'' t (Hash d) \<noteq> None)"
proof -
  have inv: "store_inv l" "faultless (disk l)" using assms(1) by (simp_all add: clean_store_def sound_def)
  then obtain ino where ino: "inodes (disk l) i = Some ino" using fs_wfD [OF _ assms(3)] by (auto simp: store_inv_def)
  have p: "comps p \<noteq> []" "hexhash (Hash d)" using assms(1,2,4) by (auto simp: under_prefix clean_store_def)
  have "\<forall>n. lookup (disk l) (link_temp l (Hash d) n) = None" using assms(1) p(2) by (simp add: clean_store_def)
  from PutFile_entries [OF inv(1) p(2) assms(3) ino p(1) this] inv(2) obtain t r where t: "PutFile l d p = Return (t, r)" "store_inv t"
    "\<forall>k h'. plain k \<longrightarrow> hexhash h' \<longrightarrow> (k, h') \<noteq> (''cas'', Hash d) \<longrightarrow> entry k t h' = entry k l h'"
    "entry ''cas'' t (Hash d) \<in> {entry ''cas'' l (Hash d), Some (content ino)}"
    "r = None \<longrightarrow> entry ''cas'' t (Hash d) \<noteq> None" "rootDir t = rootDir l" "fault (disk t) = fault (disk l)"
    "\<forall>p. lookup (disk t) p = lookup (disk l) p \<or> p = entry_at ''cas'' (rootDir l) (Hash d) \<or>
       below (rooted (rootDir l)) [] (comps (parent (entry_at ''cas'' (rootDir l) (Hash d)))) p" by blast
  have "sound t" using t(2,7) inv(2) by (simp add: sound_def faultless_def)
  then have "clean_store K base t \<and> store_step base l t"
    by (rule clean_store_step [OF assms(1) _ t(6) p(2)]) (use t(3,4,8) assms(4) ino in \<open>auto simp: file_bytes_def\<close>)
  then show ?thesis using t(1,5) by auto
qed

section \<open>The stores of the program\<close>

lemma steady_sysno: "steady l (l\<lparr>disk := (disk l)\<lparr>sysno := n\<rparr>\<rparr>)"
  by (simp add: steady_def)

lemma sound_sysno: "sound l \<Longrightarrow> sound (l\<lparr>disk := (disk l)\<lparr>sysno := n\<rparr>\<rparr>)"
  by (simp add: sound_def faultless_def)

lemma clean_store_read: "clean_store K base l \<Longrightarrow> clean_store K base (l\<lparr>disk := (disk l)\<lparr>sysno := n\<rparr>\<rparr>)"
  by (rule conjunct1 [OF clean_store_steady [OF _ sound_sysno steady_sysno]]) (simp_all add: clean_store_def)

lemma clean_store_hex: "clean_store K base l \<Longrightarrow> hexhash (Hash (NewFromBlob K data))"
  by (simp add: clean_store_def)

interpretation local_upload: upload_store "local_wstore P" K "clean_store K base" "entry ''cas''" hexhash base for P K base
proof unfold_locales
  fix l and data assume l: "clean_store K base l"
  show "\<exists>t r. ws_put (local_wstore P) l (NewFromBlob K data) \<lparr>rd_bytes = data, rd_err = None\<rparr> = Return (t, r) \<and> clean_store K base t \<and>
      upload_step (local_wstore P) (entry ''cas'') hexhash base l t \<and> (r = None \<longrightarrow> entry ''cas'' t (Hash (NewFromBlob K data)) \<noteq> None)"
    using Put_clean [OF l clean_store_hex [OF l], of "\<lparr>rd_bytes = data, rd_err = None\<rparr>" data]
    by (auto simp: local_wstore_def upload_step_def store_step_def)
next
  fix l p i blobPath putFile d
  assume "clean_store K base l" "under base p" "lookup (ws_disk (local_wstore P) l) p = Some (RegNode i)"
    "ws_local (local_wstore P) = Some (blobPath, putFile)" "d = NewFromBlob K (file_bytes (ws_disk (local_wstore P) l) i)"
  then show "\<exists>t r. putFile l d p = Return (t, r) \<and> clean_store K base t \<and>
      upload_step (local_wstore P) (entry ''cas'') hexhash base l t \<and> (r = None \<longrightarrow> entry ''cas'' t (Hash d) \<noteq> None)"
    using PutFile_clean [of K base l p i d] by (auto simp: local_wstore_def upload_step_def store_step_def)
qed (auto simp: local_wstore_def clean_store_read clean_store_hex fun_eq_iff, auto simp: clean_store_def sound_def)

text \<open>The retries against the remote tier end.\<close>

lemma put_retry_returns:
  assumes "\<And>rm f. rinv rm \<Longrightarrow> \<exists>rm' e. rput rm d f = Return (rm', e) \<and> rinv rm'"
  shows "rinv rm \<Longrightarrow> \<exists>rm' e. put_retry rput files ctxErr n i e0 rm d = Return (rm', e) \<and> rinv rm'"
proof (induction n arbitrary: i e0 rm)
  case (Suc n)
  show ?case
  proof (cases "files i")
    case (Inr f)
    obtain rm' e where "rput rm d f = Return (rm', e)" "rinv rm'" using assms [OF Suc.prems] by blast
    with Inr Suc.IH show ?thesis by (cases e) auto
  qed (use Suc.prems in auto)
qed simp

lemma proxy_upload_store:
  assumes rs: "blob_store rhas rget rinv rview rokh rput" and hash: "\<And>l data. clean_store K base l \<Longrightarrow> rokh (Hash (NewFromBlob K data))"
  shows "upload_store (proxy_wstore rget (px_Put rput None None seen) (px_PutFile rput None files ctxErr) upd) K
    (\<lambda>p. clean_store K base (px_local p) \<and> rinv (px_remote p)) (\<lambda>p. entry ''cas'' (px_local p)) hexhash base"
    (is "upload_store ?W K ?inv ?view _ _")
proof unfold_locales
  have rput: "\<exists>rm' e. rput rm d f = Return (rm', e) \<and> rinv rm'" if "rinv rm" "rokh (Hash d)" for rm d f
    using blob_store.put_law [OF rs that, of f] by blast
  fix p :: "'a ProxyStore" and data assume p: "?inv p"
  let ?d = "NewFromBlob K data" and ?rd = "\<lparr>rd_bytes = data, rd_err = None\<rparr>"
  note hex = clean_store_hex [OF conjunct1 [OF p]]
  obtain l where l: "Has (px_local p) ?d = Return (l, Inr (entry ''cas'' (px_local p) (Hash ?d) \<noteq> None))" "clean_store K base l"
    "store_step base (px_local p) l" "\<forall>h. entry ''cas'' l h = entry ''cas'' (px_local p) h"
    using Has_clean [OF conjunct1 [OF p] hex [of data]] by blast
  obtain l' r where l': "Put l ?d ?rd = Return (l', r)" "clean_store K base l'" "store_step base l l'"
    "r = None \<longrightarrow> entry ''cas'' l' (Hash ?d) \<noteq> None"
    using Put_clean [OF l(2) hex [of data], of ?rd] by auto
  define rd where "rd = (case r of None \<Rightarrow> \<lparr>rd_bytes = rd_bytes ?rd, rd_err = None\<rparr>
    | Some e \<Rightarrow> \<lparr>rd_bytes = take seen (rd_bytes ?rd), rd_err = Some e\<rparr>)"
  obtain rm e where rm: "rput (px_remote p) ?d rd = Return (rm, e)" "rinv rm"
    using rput [OF conjunct2 [OF p] hash [OF l(2)]] by blast
  show "\<exists>t r. ws_put ?W p ?d ?rd = Return (t, r) \<and> ?inv t \<and> upload_step ?W ?view hexhash base p t \<and>
      (r = None \<longrightarrow> entry ''cas'' (px_local t) (Hash ?d) \<noteq> None)"
    using l l' rm [unfolded rd_def] p store_step_trans [OF l(3) l'(3)]
    by (cases "entry ''cas'' (px_local p) (Hash ?d)")
      (auto simp: proxy_wstore_def px_Put_def putImpl_def upload_step_def store_step_def)
next
  have rput: "\<exists>rm' e. rput rm d f = Return (rm', e) \<and> rinv rm'" if "rinv rm" "rokh (Hash d)" for rm d f
    using blob_store.put_law [OF rs that, of f] by blast
  fix p :: "'a ProxyStore" and q i blobPath putFile d
  assume a: "?inv p" "under base q" "lookup (ws_disk ?W p) q = Some (RegNode i)"
    "ws_local ?W = Some (blobPath, putFile)" "d = NewFromBlob K (file_bytes (ws_disk ?W p) i)"
  then have a': "clean_store K base (px_local p)" "lookup (disk (px_local p)) q = Some (RegNode i)"
    "d = NewFromBlob K (file_bytes (disk (px_local p)) i)" "rinv (px_remote p)" by (simp_all add: proxy_wstore_def)
  obtain l r where l: "PutFile (px_local p) d q = Return (l, r)" "clean_store K base l" "store_step base (px_local p) l"
    "r = None \<longrightarrow> entry ''cas'' l (Hash d) \<noteq> None"
    using PutFile_clean [OF a'(1) a(2) a'(2,3)] by blast
  obtain rm e where rm: "put_retry rput files ctxErr (nat (putRetryCount (p\<lparr>px_local := l\<rparr>))) 0 None (px_remote p) d = Return (rm, e)" "rinv rm"
    using put_retry_returns [of rinv rput d "px_remote p"] rput hash [OF a'(1)] a'(3,4) by metis
  show "\<exists>t r. putFile p d q = Return (t, r) \<and> ?inv t \<and> upload_step ?W ?view hexhash base p t \<and>
      (r = None \<longrightarrow> entry ''cas'' (px_local t) (Hash d) \<noteq> None)"
    using a(4) l rm a'(4) by (cases r) (auto simp: proxy_wstore_def px_PutFile_def putFileImpl_def upload_step_def store_step_def)
qed (auto simp: proxy_wstore_def clean_store_read clean_store_hex fun_eq_iff, auto simp: clean_store_def sound_def)

interpretation proxy_upload: upload_store
  "proxy_wstore Get (px_Put Put None None seen) (px_PutFile Put None files ctxErr) upd" K
  "\<lambda>p. clean_store K base (px_local p) \<and> store_inv (px_remote p)" "\<lambda>p. entry ''cas'' (px_local p)" hexhash base
  for seen files ctxErr upd K base
  by (rule proxy_upload_store [OF local.blob_store_axioms clean_store_hex])

end
