(* ===== verification/Worker_Props.thy ===== *)
theory Worker_Props
  imports Upload_Stores
begin

text \<open>
The properties of running a task (\<^verbatim>\<open>pkg/execution/worker.go\<close>): where its outputs end, what reaches the action
  cache, how its operation ends, and what becomes of an output that is a symbolic link.
\<close>

section \<open>Outputs\<close>


text \<open>An empty store beside a build directory with one output file, and hashes that spell the contents.\<close>

definition hex_byte :: "8 word \<Rightarrow> string" where
  "hex_byte b = [''0123456789abcdef'' ! (unat b div 16), ''0123456789abcdef'' ! (unat b mod 16)]"

definition hexcodec :: wcodec where
  "hexcodec = wcodec0\<lparr>NewFromBlob := (\<lambda>b. \<lparr>Hash = ''0000'' @ concat (map hex_byte b), Size = int (length b)\<rparr>)\<rparr>"

definition store_out :: LocalStore where
  "store_out = store0\<lparr>disk := disk0\<lparr>nodes := [(Path True [''b''], DirNode), (Path True [''b'', ''out''], RegNode 0)], next_ino := 1,
     inodes := [0 \<mapsto> \<lparr>content = [9], mode = 493, atime = 0\<rparr>], clock := int\<rparr>\<rparr>"

definition command_out :: Command where
  "command_out = \<lparr>cmd_Arguments = [''cc''], cmd_EnvironmentVariables = [], cmd_OutputFiles = [''out''], cmd_OutputDirectories = [],
     cmd_OutputPaths = [], cmd_WorkingDirectory = ''''\<rparr>"

lemma hexcodec_hex: "hexhash (Hash (NewFromBlob hexcodec data))"
proof -
  have "hexdigit (''0123456789abcdef'' ! i)" if "i < 16" for i
    using nth_mem [of i "''0123456789abcdef''"] that by (auto simp: hexdigit_def)
  moreover have "unat b div 16 < 16" for b :: "8 word"
  proof -
    have "unat b < 2 ^ LENGTH(8)" by (rule unsigned_less)
    then show ?thesis by simp
  qed
  ultimately have "list_all hexdigit (hex_byte b)" for b by (simp add: hex_byte_def)
  then show ?thesis by (simp add: hexcodec_def hexhash_def list_all_iff hexdigit_def)
qed

lemma store_out_lookup:
  "lookup (disk store_out) p =
     (if p = Path True [''b''] then Some DirNode else if p = Path True [''b'', ''out''] then Some (RegNode 0) else None)"
  by (simp add: store_out_def lookup_def)

lemma store_out_inv: "store_inv store_out"
  using store0_inv by (auto simp: store_inv_def fs_wf_def store_out_lookup entry_at_def) (auto simp: store_out_def store0_def disk0_def entry_at_def)

lemma store_out_clean: "clean_store hexcodec (Path True [''b'']) store_out"
proof -
  have "rootDir store_out = Path True [''data'']" by (simp add: store_out_def store0_def)
  moreover have "lookup (disk store_out) (link_temp store_out h n) = None" if "hexhash h" for h n
    using link_temp_comps [OF store_out_inv that, of n]
    by (auto simp: store_out_lookup comps_parent_entry dest: arg_cong [where f = comps])
  moreover have "faultless (disk store_out)" by (simp add: store_out_def disk0_def faultless_def)
  moreover have "entry ''cas'' store_out h = None" for h
    by (simp add: entry_def file_at_def store_out_lookup entry_at_def)
  ultimately show ?thesis using store_out_inv hexcodec_hex
    by (simp add: clean_store_def sound_def apart_def under_def)
qed

definition proxy_out :: "LocalStore ProxyStore" where
  "proxy_out = NewProxyStore store_out (store0\<lparr>disk := disk0\<lparr>clock := int\<rparr>\<rparr>) 3"

definition wstore_out :: "LocalStore ProxyStore wstore" where
  "wstore_out = proxy_wstore Get (px_Put Put None None 0) (px_PutFile Put None (\<lambda>_. Inr \<lparr>rd_bytes = [9], rd_err = None\<rparr>) (\<lambda>_. False))
     (\<lambda>s d a. Return (s, None))"

definition failed_run :: execResult where
  "failed_run = \<lparr>xr_exitCode = 1, xr_stdout = [], xr_stderr = [], xr_duration = 0\<rparr>"

lemma upload_out:
  "case uploadOutputs 3 hexcodec wstore_out 7 proxy_out (Path True [''b'']) command_out failed_run of
     Some (Return (t, Inr r)) \<Rightarrow> map (\<lambda>f. Hash (of_Digest f)) (OutputFiles r) = [''000009''] | _ \<Rightarrow> False"
  by code_simp


section \<open>The action cache\<close>

text \<open>Only \<open>execute\<close> itself calls \<open>UpdateActionResult\<close>: the steps before it do not depend on it.\<close>

lemma update_fields:
  "ws_get (W\<lparr>ws_update := f\<rparr>) = ws_get W" "ws_put (W\<lparr>ws_update := f\<rparr>) = ws_put W" "ws_local (W\<lparr>ws_update := f\<rparr>) = ws_local W"
  "on_disk (W\<lparr>ws_update := f\<rparr>) = on_disk W" "ws_disk (W\<lparr>ws_update := f\<rparr>) = ws_disk W"
  by (simp_all add: fun_eq_iff on_disk_def)

lemma update_write_out: "write_out (W\<lparr>ws_update := f\<rparr>) = write_out W"
  unfolding write_out_def update_fields by (rule refl)

lemma update_steps:
  "fetch um (W\<lparr>ws_update := f\<rparr>) = fetch um W" "stageFile (W\<lparr>ws_update := f\<rparr>) = stageFile W"
  "uploadFile K (W\<lparr>ws_update := f\<rparr>) = uploadFile K W" "uploadBlob K (W\<lparr>ws_update := f\<rparr>) = uploadBlob K W"
  unfolding fetch_def stageFile_def uploadFile_def uploadBlob_def update_write_out update_fields by (rule refl)+

lemma update_messages:
  "fetchDirectory K (W\<lparr>ws_update := f\<rparr>) = fetchDirectory K W" "fetch_task K (W\<lparr>ws_update := f\<rparr>) = fetch_task K W"
  unfolding fetchAction_def fetchCommand_def fetchDirectory_def fetch_task_def update_steps by (rule refl)+

lemma update_stage_files: "stage_files K (W\<lparr>ws_update := f\<rparr>) s dir fs = stage_files K W s dir fs"
  by (induction fs arbitrary: s) (simp_all add: update_steps split: sum.split)

lemma update_stage_symlinks: "stage_symlinks (W\<lparr>ws_update := f\<rparr>) s dir ls = stage_symlinks W s dir ls"
  by (induction ls arbitrary: s) (simp_all add: update_fields)

lemma update_stageDirectory: "stageDirectory n K (W\<lparr>ws_update := f\<rparr>) = stageDirectory n K W"
proof (induction n)
  case (Suc n)
  have "stage_entries K (W\<lparr>ws_update := f\<rparr>) = stage_entries K W"
    unfolding stage_entries_def update_fields update_messages update_stage_files update_stage_symlinks by (rule refl)
  with Suc show ?case by (intro ext) simp
qed (simp add: fun_eq_iff)

lemma update_build:
  "build_leaf K (W\<lparr>ws_update := f\<rparr>) = build_leaf K W" "marshal_upload r K (W\<lparr>ws_update := f\<rparr>) = marshal_upload r K W"
  unfolding build_leaf_def marshal_upload_def update_steps update_fields by (rule refl)+

lemma bindO_cong: "m = m' \<Longrightarrow> (\<And>s x. g s x = g' s x) \<Longrightarrow> bindO m g = bindO m' g'"
  by (simp add: bindO_def split: option.split outcome.split sum.split)

lemma update_build_entries:
  "build_entries r K (W\<lparr>ws_update := f\<rparr>) s p es dir ch = build_entries r K W s p es dir ch"
proof (induction es arbitrary: s dir ch)
  case (Cons e es)
  then show ?case by (cases e) (auto simp: Let_def update_build update_fields intro!: bindO_cong)
qed simp

lemma update_buildDirectoryProto: "buildDirectoryProto n K (W\<lparr>ws_update := f\<rparr>) = buildDirectoryProto n K W"
  by (induction n) (intro ext, simp add: update_fields update_build_entries)+

lemma update_add:
  "add_file K (W\<lparr>ws_update := f\<rparr>) = add_file K W" "add_directory n K (W\<lparr>ws_update := f\<rparr>) = add_directory n K W"
  "upload_stream m K (W\<lparr>ws_update := f\<rparr>) = upload_stream m K W"
  unfolding add_file_def add_directory_def buildTree_def upload_stream_def update_buildDirectoryProto update_build update_steps by (rule refl)+

lemma update_upload_files: "upload_files K (W\<lparr>ws_update := f\<rparr>) s dir outs res = upload_files K W s dir outs res"
proof (induction outs arbitrary: s res)
  case (Cons out outs)
  show ?case unfolding upload_files.simps update_add update_fields Cons.IH by (rule refl)
qed simp

lemma update_upload_directories:
  "upload_directories n K (W\<lparr>ws_update := f\<rparr>) s dir outs res = upload_directories n K W s dir outs res"
proof (induction outs arbitrary: s res)
  case (Cons out outs)
  show ?case unfolding upload_directories.simps update_add update_fields Cons.IH by (rule refl)
qed simp

lemma update_upload_paths: "upload_paths n K (W\<lparr>ws_update := f\<rparr>) s dir outs res = upload_paths n K W s dir outs res"
proof (induction outs arbitrary: s res)
  case (Cons out outs)
  show ?case unfolding upload_paths.simps update_add update_fields Cons.IH by (rule refl)
qed simp

lemma update_uploadOutputs: "uploadOutputs n K (W\<lparr>ws_update := f\<rparr>) = uploadOutputs n K W"
  unfolding uploadOutputs_def update_add update_upload_files update_upload_directories update_upload_paths by (rule refl)

lemma bindO_Some_iff:
  "bindO m g = Some (Return (t, r)) \<longleftrightarrow>
     (\<exists>e. m = Some (Return (t, Inl e)) \<and> r = Inl e) \<or> (\<exists>u x. m = Some (Return (u, Inr x)) \<and> g u x = Some (Return (t, r)))"
  by (auto simp: bindO_def split: option.split outcome.split sum.split)

lemma bindO_later:
  "bindO m g = Some (Return (t, r)) \<Longrightarrow> (\<And>u x. g u x = Some (Return (t, r)) \<Longrightarrow> g' u x = Some (Return (t, r))) \<Longrightarrow>
   bindO m g' = Some (Return (t, r))"
  by (auto simp: bindO_Some_iff)


text \<open>A command that exits with 1, on an empty disk, with an action cache that cannot be updated.\<close>

definition wcodec1 :: wcodec where
  "wcodec1 = wcodec0\<lparr>um_Action := (\<lambda>_. Inr \<lparr>act_CommandDigest = Some digest0, act_InputRootDigest = Some digest0, act_Timeout = None\<rparr>),
     um_Command := (\<lambda>_. Inr (command_out\<lparr>cmd_OutputFiles := []\<rparr>)),
     um_Directory := (\<lambda>_. Inr \<lparr>dir_Files = [], dir_Directories = [], dir_Symlinks = []\<rparr>)\<rparr>"

definition env1 :: run_env where
  "env1 = \<lparr>re_environ = [], re_rd = (\<lambda>x. x), re_symlinks = (\<lambda>x. x), re_files = (\<lambda>x. x),
     re_run = (\<lambda>s _ _ _ _. (s, \<lparr>xp_stdout = [], xp_stderr = [], xp_err = Some (ExitError 1), xp_deadline = False, xp_duration = 0\<rparr>))\<rparr>"

definition task1 :: Task where
  "task1 = \<lparr>OperationID = ''n:u1'', task_ActionDigest = digest0, SkipCache = False, QueuedAt = 0\<rparr>"

lemma execute1:
  "case execute 2 wcodec1 (wstore0\<lparr>ws_update := (\<lambda>_ _ _. Panic)\<rparr>) env1 None now (Path True [''w'']) (disk store0) task1 of
     Some (Return (t, Inr result)) \<Rightarrow> ExitCode result = 1 | _ \<Rightarrow> False"
  by code_simp


section \<open>Tasks\<close>

text \<open>C35: When \<open>execute\<close> returns, \<open>executeTask\<close> does not panic and hands its result to the scheduler: the operation, if it is
  still tracked, ends completed with the result of the action or with its error, its subscribers can see it, and the count of
  executing operations is as far from the number of executing operations as before.\<close>

theorem task_completes:
  assumes "sched_inv (wp_scheduler w)"
    and "execute n K W en (wp_sandbox w) (now 1) (wp_buildRoot w) (wp_store w) task = Some (Return (s, r))"
  shows "\<exists>w'. executeTask n K W en now w task = Some (Return w') \<and> wp_store w' = s \<and> sched_inv (wp_scheduler w') \<and>
    drift (wp_scheduler w') = drift (wp_scheduler w) \<and> taskQueue (wp_scheduler w') = taskQueue (wp_scheduler w) \<and>
    (\<forall>obj opr. lookup_op (wp_scheduler w) (op_name (OperationID task)) = Some (obj, opr) \<longrightarrow>
       (\<exists>opr'. lookup_op (wp_scheduler w') (op_name (OperationID task)) = Some (obj, opr') \<and> State opr' = StateCompleted \<and>
          Metadata opr' = Some \<lparr>Stage = COMPLETED, ActionDigest = task_ActionDigest task\<rparr> \<and>
          (case r of Inl err \<Rightarrow> Error opr' = Some err \<and> Result opr' = Result opr
           | Inr result \<Rightarrow> Error opr' = Error opr \<and>
               Result opr' = Some \<lparr>resp_Result = result, resp_CachedResult = False\<rparr>)))"
proof -
  let ?s = "wp_scheduler w" and ?name = "op_name (OperationID task)"
  let ?md = "Some \<lparr>Stage = EXECUTING, ActionDigest = task_ActionDigest task\<rparr>"
  obtain s1 where s1: "UpdateState (now 0) ?s ?name StateExecuting ?md = Some s1" "sched_inv s1" "drift s1 = drift ?s"
    using sched_step_inv [OF assms(1), of "EvUpdateState (now 0) ?name StateExecuting ?md" codec0] by auto
  define fin where "fin = (case r of Inl err \<Rightarrow> Fail (now 2) s1 ?name err
    | Inr result \<Rightarrow> Complete (now 2) s1 ?name \<lparr>resp_Result = result, resp_CachedResult = False\<rparr>)"
  obtain s2 where s2: "fin = Some s2" "sched_inv s2" "drift s2 = drift s1"
    using sched_step_inv [OF s1(2), of "case r of Inl err \<Rightarrow> EvFail (now 2) ?name err
      | Inr result \<Rightarrow> EvComplete (now 2) ?name \<lparr>resp_Result = result, resp_CachedResult = False\<rparr>" codec0]
    by (cases r) (auto simp: fin_def)
  have e: "executeTask n K W en now w task = Some (Return (w\<lparr>wp_scheduler := s2, wp_store := s\<rparr>))"
    using s1(1) s2(1) assms(2) by (simp add: executeTask_def fin_def Let_def)
  note s1_eq = s1(1) [unfolded UpdateState_inv [OF assms(1)]] and fi = Fail_inv [OF s1(2)] Complete_inv [OF s1(2)]
  show ?thesis
  proof (cases "lookup_op ?s ?name")
    case None
    with s1_eq have "s1 = ?s" by simp
    with None s2(1) fi have "s2 = ?s" by (cases r) (auto simp: fin_def)
    with e None assms(1) show ?thesis by simp
  next
    case (Some x)
    then obtain obj opr where x: "lookup_op ?s ?name = Some (obj, opr)" by (cases x) simp
    have l1: "lookup_op s1 ?name = Some (obj, opr\<lparr>State := StateExecuting, Metadata := ?md, UpdatedAt := now 0\<rparr>)"
      "taskQueue s1 = taskQueue ?s" using s1_eq x by auto
    have "taskQueue s2 = taskQueue s1 \<and> (\<exists>opr'. lookup_op s2 ?name = Some (obj, opr') \<and> State opr' = StateCompleted \<and>
          Metadata opr' = Some \<lparr>Stage = COMPLETED, ActionDigest = task_ActionDigest task\<rparr> \<and>
          (case r of Inl err \<Rightarrow> Error opr' = Some err \<and> Result opr' = Result opr
           | Inr result \<Rightarrow> Error opr' = Error opr \<and> Result opr' = Some \<lparr>resp_Result = result, resp_CachedResult = False\<rparr>))"
      using s2(1) fi l1(1) by (cases r) (auto simp: fin_def set_completed_stage_def)
    with e s2(2,3) s1(3) l1(2) x show ?thesis by auto
  qed
qed

theorem task_completes_witness:
  "\<exists>w' opr result. executeTask 2 wcodec1 (wstore0\<lparr>ws_update := (\<lambda>_ _ _. Panic)\<rparr>) env1 int
       \<lparr>wp_scheduler = sched1, wp_store = disk store0, wp_buildRoot = Path True [''w''], wp_concurrency = 1, wp_sandbox = None\<rparr> task1 =
       Some (Return w') \<and>
     lookup_op (wp_scheduler w') ''operations/n:u1'' = Some (0, opr) \<and> State opr = StateCompleted \<and>
     Result opr = Some \<lparr>resp_Result = result, resp_CachedResult = False\<rparr> \<and> ExitCode result = 1"
proof -
  let ?w = "\<lparr>wp_scheduler = sched1, wp_store = disk store0, wp_buildRoot = Path True [''w''], wp_concurrency = 1, wp_sandbox = None\<rparr>"
  obtain t result where e: "execute 2 wcodec1 (wstore0\<lparr>ws_update := (\<lambda>_ _ _. Panic)\<rparr>) env1 None 1 (Path True [''w'']) (disk store0) task1 =
      Some (Return (t, Inr result))" "ExitCode result = 1"
    using execute1 [of 1] by (auto split: option.split_asm outcome.split_asm prod.split_asm sum.split_asm)
  have n: "op_name (OperationID task1) = ''operations/n:u1''" by (simp add: op_name_def task1_def)
  from task_completes [of ?w 2 wcodec1 "wstore0\<lparr>ws_update := (\<lambda>_ _ _. Panic)\<rparr>" env1 int task1 t "Inr result"] e sched1_inv sched1_lookup n
  show ?thesis by auto
qed

section \<open>Outputs that are symbolic links\<close>

lemma Link_symlink:
  assumes "faultless s" "lookup s old = Some (SymNode target a)" "lookup s new = None" "is_dir s (parent new)"
  shows "Link s old new = (set_node (s\<lparr>sysno := Suc (sysno s)\<rparr>) new (SymNode target a), Inr ())"
  using assms by (simp add: Link_def syscall_faultless is_dir_def)

lemma Chmod_lookup: "Chmod m s p = (t, r) \<Longrightarrow> lookup t = lookup s \<and> fault t = fault s"
  by (auto simp: Chmod_def on_file_def syscall_def Let_def split: option.splits sum.splits node.splits if_splits)

lemma map_of_filter_key: "map_of (filter (\<lambda>(k, v). P k) xs) k = (if P k then map_of xs k else None)"
  by (induction xs) auto

lemma RemoveAll_lookup: "faultless s \<Longrightarrow> lookup (RemoveAll s p) q = (if under p q then None else lookup s q)"
  by (simp add: RemoveAll_def faultless_def lookup_def map_of_filter_key)

text \<open>C37: \<open>PutFile\<close> of a symbolic link (\<open>uploadFile\<close> of an output that is one) stores the link and not the file: the hard
  link is one to the link itself, so the entry of the blob becomes a symbolic link, which breaks the invariant of the store. Once
  the file the link names is gone, as it is when the directory of the task is removed, the store does not have the blob.\<close>

theorem symlink_output_lost:
  assumes "store_inv s" "faultless (disk s)" "hexhash (Hash d)" "lookup (disk s) (entry_at ''cas'' (rootDir s) (Hash d)) = None"
    and "lookup (disk s) src = Some (SymNode target a)" "\<forall>n. lookup (disk s) (link_temp s (Hash d) n) = None"
    and "PutFile s d src = Return (t, None)"
  defines "path \<equiv> entry_at ''cas'' (rootDir s) (Hash d)"
  shows "lookup (disk t) path = Some (SymNode target a) \<and> faultless (disk t) \<and> \<not> store_inv t \<and>
    (\<forall>u. faultless u \<longrightarrow> lookup u path = Some (SymNode target a) \<longrightarrow>
       lookup u (link_target path target) = None \<longrightarrow> comps (link_target path target) \<noteq> [] \<longrightarrow>
       (\<exists>v. Has (t\<lparr>disk := u\<rparr>) d = Return (v, Inr False)))"
proof -
  have bp: "BlobPath s d = Return path" unfolding BlobPath_def path_def using assms(1,3) by (simp add: store_path)
  define s0 where "s0 = (disk s)\<lparr>sysno := Suc (sysno (disk s))\<rparr>"
  have st: "Stat (disk s) path = (s0, Inl ErrNotExist)"
    using Stat_entry [OF assms(1) plain_kinds(1) assms(3)] assms(2,4) by (simp add: path_def s0_def faultless_def file_at_def)
  obtain s1 r1 where mk: "MkdirAll s0 (parent path) = (s1, r1)" by fastforce
  with assms(7) bp st have "r1 = Inr ()" by (cases r1) (auto simp: PutFile_def)
  note m = MkdirAll_frame [OF mk]
  have keep: "lookup s1 p = lookup (disk s) p" if "\<not> below (rooted path) [] (comps (parent path)) p" for p
    using m(4) [of p] that by (auto simp: s0_def)
  have fl: "faultless s1" using m(3) assms(2) by (simp add: s0_def faultless_def)
  define tmp where "tmp = link_temp s (Hash d) (Now s1)"
  have tmp: "lookup s1 tmp = None" "tmp \<noteq> path"
    using keep [of tmp] link_temp_not_below [OF assms(1,3)] link_temp_not_entry [OF assms(1,3,3)] assms(6)
    by (auto simp: tmp_def path_def)
  have "parent tmp = parent path" using link_temp_comps [OF assms(1,3)] by (simp add: tmp_def path_def parent_def link_temp_def Join_def)
  with m(5) \<open>r1 = Inr ()\<close> have dir: "is_dir s1 (parent tmp)" by simp
  have "lookup s1 src = Some (SymNode target a)" using m(4) [of src] assms(5) by (simp add: s0_def)
  note ln = Link_symlink [OF fl this tmp(1) dir]
  define s2 where "s2 = set_node (s1\<lparr>sysno := Suc (sysno s1)\<rparr>) tmp (SymNode target a)"
  obtain s3 r3 where ch: "Chmod 292 s2 tmp = (s3, r3)" by fastforce
  obtain s4 r4 where rn: "Rename s3 tmp path = (s4, r4)" by fastforce
  have t: "t = fire (s\<lparr>disk := cleanup_link s4 tmp\<rparr>)" "r4 = Inr ()"
    using assms(7) bp st mk \<open>r1 = Inr ()\<close> ln ch rn
    by (auto simp: PutFile_def Let_def link_or_copy_def s2_def tmp_def path_def link_temp_def split: sum.splits)
  have l3: "lookup s3 = (lookup s1)(tmp \<mapsto> SymNode target a)" "faultless s3"
    using Chmod_lookup [OF ch] fl by (auto simp: s2_def faultless_def)
  have "\<not> below (rooted path) [] (comps (parent path)) path" unfolding path_def using below_not_entry by blast
  then have "lookup s3 path = None" using keep [of path] tmp(2) assms(4) l3(1) by (simp add: path_def)
  with rn t(2) l3 have "lookup s4 path = Some (SymNode target a)"
    by (auto simp: Rename_def syscall_faultless split: if_splits)
  with tmp(2) have l: "lookup (disk t) path = Some (SymNode target a)" using t(1) cleanup_link_same [of s4 tmp] by auto
  have rt: "rootDir t = rootDir s" using t(1) by simp
  have "fault s4 = fault s3" using rn by (auto simp: Rename_def syscall_def Let_def split: option.splits if_splits)
  then have "faultless (disk t)" using t(1) l3(2) cleanup_link_same(3) [of s4 tmp] by (simp add: faultless_def)
  have "\<not> store_inv t"
  proof
    assume "store_inv t"
    then have "lookup (disk t) (entry_at ''cas'' (rootDir t) (Hash d)) = None \<or>
      (\<exists>i. lookup (disk t) (entry_at ''cas'' (rootDir t) (Hash d)) = Some (RegNode i))"
      unfolding store_inv_def using assms(3) plain_kinds(1) by blast
    then show False using l rt by (simp add: path_def)
  qed
  moreover note \<open>faultless (disk t)\<close>
  moreover have "\<exists>v. Has (t\<lparr>disk := u\<rparr>) d = Return (v, Inr False)"
    if u: "faultless u" "lookup u path = Some (SymNode target a)" "lookup u (link_target path target) = None" "comps (link_target path target) \<noteq> []" for u
  proof -
    let ?q = "link_target path target" and ?u = "u\<lparr>sysno := Suc (sysno u)\<rparr>"
    have n: "(40::nat) = Suc (Suc 38)" by simp
    have "follow 40 ?u path = Inr ?q" unfolding n follow.simps using u by simp
    then have "Stat u path = (?u, Inl ErrNotExist)" using u by (simp add: Stat_def syscall_faultless is_dir_def file_at_def)
    moreover have "BlobPath (t\<lparr>disk := u\<rparr>) d = Return path" using bp rt by (simp add: BlobPath_def entryPath_def split: if_splits)
    ultimately show ?thesis by (simp add: Has_def)
  qed
  ultimately show ?thesis using l by blast
qed

text \<open>An output that is a link to a file beside it.\<close>

definition store_link :: LocalStore where
  "store_link = store0\<lparr>disk := disk0\<lparr>nodes := [(Path True [''out''], SymNode ''/lib'' 0), (Path True [''lib''], RegNode 0)], next_ino := 1,
     inodes := [0 \<mapsto> \<lparr>content = [9], mode = 420, atime = 0\<rparr>], clock := int\<rparr>\<rparr>"

lemma store_link_lookup:
  "lookup (disk store_link) p =
     (if p = Path True [''out''] then Some (SymNode ''/lib'' 0) else if p = Path True [''lib''] then Some (RegNode 0) else None)"
  by (simp add: store_link_def lookup_def)

lemma store_link_inv: "store_inv store_link"
  using store0_inv by (auto simp: store_inv_def fs_wf_def store_link_lookup entry_at_def) (auto simp: store_link_def store0_def disk0_def entry_at_def)

lemma store_link_put: "case PutFile store_link digest1 (Path True [''out'']) of Return (t, None) \<Rightarrow> True | _ \<Rightarrow> False"
  by code_simp

theorem symlink_output_lost_witness:
  "\<exists>t v. PutFile store_link digest1 (Path True [''out'']) = Return (t, None) \<and> \<not> store_inv t \<and>
     Has (t\<lparr>disk := RemoveAll (disk t) (Path True [''lib''])\<rparr>) digest1 = Return (v, Inr False)"
proof -
  obtain t where t: "PutFile store_link digest1 (Path True [''out'']) = Return (t, None)"
    using store_link_put by (auto split: outcome.split_asm prod.split_asm option.split_asm)
  let ?path = "entry_at ''cas'' (rootDir store_link) (Hash digest1)" and ?u = "RemoveAll (disk t) (Path True [''lib''])"
  have rt: "rootDir store_link = Path True [''data'']" by (simp add: store_link_def store0_def)
  have "lookup (disk store_link) (link_temp store_link (Hash digest1) n) = None" for n
    using link_temp_comps [OF store_link_inv digest1_hex, of n]
    by (auto simp: store_link_lookup comps_parent_entry rt dest: arg_cong [where f = comps])
  moreover have "faultless (disk store_link)" by (simp add: store_link_def disk0_def faultless_def)
  moreover have "lookup (disk store_link) ?path = None" "lookup (disk store_link) (Path True [''out'']) = Some (SymNode ''/lib'' 0)"
    by (simp_all add: store_link_lookup entry_at_def rt)
  ultimately have l: "lookup (disk t) ?path = Some (SymNode ''/lib'' 0)" "faultless (disk t)" "\<not> store_inv t"
    "\<And>u. faultless u \<Longrightarrow> lookup u ?path = Some (SymNode ''/lib'' 0) \<Longrightarrow> lookup u (link_target ?path ''/lib'') = None \<Longrightarrow>
       comps (link_target ?path ''/lib'') \<noteq> [] \<Longrightarrow> \<exists>v. Has (t\<lparr>disk := u\<rparr>) digest1 = Return (v, Inr False)"
    using symlink_output_lost [OF store_link_inv _ digest1_hex _ _ _ t] by blast+
  have q: "link_target ?path ''/lib'' = Path True [''lib'']" by (simp add: link_target_def Clean_def)
  have "lookup ?u ?path = Some (SymNode ''/lib'' 0)" "lookup ?u (Path True [''lib'']) = None"
    using l(1,2) by (simp_all add: RemoveAll_lookup under_def entry_at_def rt)
  moreover have "faultless ?u" using l(2) by (simp add: RemoveAll_def faultless_def)
  ultimately show ?thesis using l(3) l(4) [of ?u] q t by auto
qed

end
