(* ===== verification/Config.thy ===== *)
theory Config
  imports Worker RemoteStore PutFile_Props Janitor Cluster
begin

text \<open>
The configuration (\<^verbatim>\<open>pkg/config/config.go\<close>) and what is made of it at the start: log levels and the TLS of the server
  (\<^verbatim>\<open>cmd/gorego/main.go\<close>), and the connection to the backing cache (\<^verbatim>\<open>pkg/storage/remote.go\<close>). The viper library,
  the TLS library and the SDK client are parameters.
\<close>

section \<open>The configuration\<close>

record TLSConfig =
  tls_Enabled :: bool
  CertFile :: string
  KeyFile :: string
  CAFile :: string
  ClientAuth :: string

record LocalCacheConfig =
  lc_Enabled :: bool
  lc_Dir :: string
  MaxSizeGB :: int

record BackingCacheConfig =
  Target :: string
  Compression :: string
  PutRetryCount :: int
  bc_TLS :: TLSConfig

record TelemetryConfig =
  MetricsAddr :: string
  TracingEndpoint :: string

record Config =
  ListenAddr :: string
  cf_TLS :: TLSConfig
  LocalCache :: LocalCacheConfig
  ForceUpdateATime :: bool
  LogLevel :: string
  BackingCache :: BackingCacheConfig
  Telemetry :: TelemetryConfig
  cf_Execution :: ExecutionConfig
  cf_Cluster :: ClusterConfig

section \<open>Loading it\<close>

text \<open>Values of settings, and the state of a \<open>viper\<close> instance as \<open>LoadConfig\<close> sets it up.\<close>

datatype cfgval = CStr string | CBool bool | CInt int | CList "string list"

record viper =
  vp_defaults :: "(string \<times> cfgval) list"
  vp_envPrefix :: string
  vp_envReplacer :: "string \<times> string"
  vp_automaticEnv :: bool
  vp_configFile :: "string option"
  vp_configName :: string
  vp_configType :: string
  vp_configPaths :: "string list"

text \<open>
  The library: reading the configuration file, with whether the error is a \<open>ConfigFileNotFoundError\<close>; the value of a
  key, from the environment, the file or the defaults; and the conversions to the types of the fields.
\<close>

record viper_lib =
  ReadInConfig :: "viper \<Rightarrow> (bool \<times> goerr) + (string \<Rightarrow> cfgval option)"
  setting :: "viper \<Rightarrow> (string \<Rightarrow> cfgval option) \<Rightarrow> string \<Rightarrow> cfgval option"
  to_str :: "cfgval option \<Rightarrow> goerr + string"
  to_bool :: "cfgval option \<Rightarrow> goerr + bool"
  to_int :: "cfgval option \<Rightarrow> goerr + int"
  to_list :: "cfgval option \<Rightarrow> goerr + string list"
  to_duration :: "cfgval option \<Rightarrow> goerr + duration"

definition config_defaults :: "(string \<times> cfgval) list" where
  "config_defaults =
     [(''listen_addr'', CStr '':50051''),
      (''local_cache.enabled'', CBool True),
      (''local_cache.dir'', CStr ''/tmp/gorego/cache''),
      (''local_cache.max_size_gb'', CInt 10),
      (''cluster.enabled'', CBool False),
      (''cluster.bind_port'', CInt 7946),
      (''cluster.discovery_mode'', CStr ''list''),
      (''cluster.broadcast_period'', CStr ''500ms''),
      (''cluster.node_id'', CStr ''''),
      (''cluster.advertise_addr'', CStr ''''),
      (''cluster.dns_service_name'', CStr ''''),
      (''force_update_atime'', CBool False),
      (''log_level'', CStr ''warn''),
      (''telemetry.metrics_addr'', CStr '':9090''),
      (''execution.enabled'', CBool True),
      (''execution.concurrency'', CInt 0),
      (''execution.build_root'', CStr ''/tmp/gorego/builds''),
      (''execution.queue_size'', CInt 1000),
      (''execution.sandbox.enabled'', CBool False),
      (''execution.sandbox.binary_path'', CStr ''/usr/bin/linux-sandbox''),
      (''execution.sandbox.network_isolation'', CBool True),
      (''execution.sandbox.writable_paths'', CList []),
      (''execution.sandbox.kill_delay'', CInt 5),
      (''execution.sandbox.debug'', CBool False),
      (''backing_cache.put_retry_count'', CInt 3),
      (''backing_cache.tls.enabled'', CBool False),
      (''backing_cache.tls.cert_file'', CStr ''''),
      (''backing_cache.tls.key_file'', CStr ''''),
      (''backing_cache.tls.ca_file'', CStr ''''),
      (''backing_cache.tls.client_auth'', CStr ''none'')]"

text \<open>The fields by their \<open>mapstructure\<close> tags; the first conversion that fails gives the error.\<close>

fun bindr :: "goerr + 'a \<Rightarrow> ('a \<Rightarrow> goerr + 'b) \<Rightarrow> goerr + 'b" where
  "bindr (Inl e) f = Inl e"
| "bindr (Inr x) f = f x"

definition decode_TLS :: "viper_lib \<Rightarrow> (string \<Rightarrow> cfgval option) \<Rightarrow> string \<Rightarrow> goerr + TLSConfig" where
  "decode_TLS L get pre =
     bindr (to_bool L (get (pre @ ''enabled''))) (\<lambda>en.
     bindr (to_str L (get (pre @ ''cert_file''))) (\<lambda>cert.
     bindr (to_str L (get (pre @ ''key_file''))) (\<lambda>key.
     bindr (to_str L (get (pre @ ''ca_file''))) (\<lambda>ca.
     bindr (to_str L (get (pre @ ''client_auth''))) (\<lambda>auth.
       Inr \<lparr>tls_Enabled = en, CertFile = cert, KeyFile = key, CAFile = ca, ClientAuth = auth\<rparr>)))))"

definition decode_LocalCache :: "viper_lib \<Rightarrow> (string \<Rightarrow> cfgval option) \<Rightarrow> goerr + LocalCacheConfig" where
  "decode_LocalCache L get =
     bindr (to_bool L (get ''local_cache.enabled'')) (\<lambda>en.
     bindr (to_str L (get ''local_cache.dir'')) (\<lambda>dir.
     bindr (to_int L (get ''local_cache.max_size_gb'')) (\<lambda>size.
       Inr \<lparr>lc_Enabled = en, lc_Dir = dir, MaxSizeGB = size\<rparr>)))"

definition decode_Sandbox :: "viper_lib \<Rightarrow> (string \<Rightarrow> cfgval option) \<Rightarrow> goerr + SandboxConfig" where
  "decode_Sandbox L get =
     bindr (to_bool L (get ''execution.sandbox.enabled'')) (\<lambda>en.
     bindr (to_str L (get ''execution.sandbox.binary_path'')) (\<lambda>bin.
     bindr (to_bool L (get ''execution.sandbox.network_isolation'')) (\<lambda>net.
     bindr (to_list L (get ''execution.sandbox.writable_paths'')) (\<lambda>paths.
     bindr (to_int L (get ''execution.sandbox.kill_delay'')) (\<lambda>delay.
     bindr (to_bool L (get ''execution.sandbox.debug'')) (\<lambda>debug.
       Inr \<lparr>sc_Enabled = en, sc_BinaryPath = bin, sc_NetworkIsolation = net, sc_WritablePaths = paths,
            sc_KillDelay = delay, sc_Debug = debug\<rparr>))))))"

definition decode_Execution :: "viper_lib \<Rightarrow> (string \<Rightarrow> cfgval option) \<Rightarrow> goerr + ExecutionConfig" where
  "decode_Execution L get =
     bindr (to_bool L (get ''execution.enabled'')) (\<lambda>en.
     bindr (to_int L (get ''execution.concurrency'')) (\<lambda>conc.
     bindr (to_str L (get ''execution.build_root'')) (\<lambda>build.
     bindr (to_int L (get ''execution.queue_size'')) (\<lambda>queue.
     bindr (decode_Sandbox L get) (\<lambda>sandbox.
       Inr \<lparr>ec_Enabled = en, ec_Concurrency = conc, ec_BuildRoot = build, ec_QueueSize = queue, ec_Sandbox = sandbox\<rparr>)))))"

definition decode_BackingCache :: "viper_lib \<Rightarrow> (string \<Rightarrow> cfgval option) \<Rightarrow> goerr + BackingCacheConfig" where
  "decode_BackingCache L get =
     bindr (to_str L (get ''backing_cache.target'')) (\<lambda>target.
     bindr (to_str L (get ''backing_cache.compression'')) (\<lambda>compression.
     bindr (to_int L (get ''backing_cache.put_retry_count'')) (\<lambda>retries.
     bindr (decode_TLS L get ''backing_cache.tls.'') (\<lambda>tls.
       Inr \<lparr>Target = target, Compression = compression, PutRetryCount = retries, bc_TLS = tls\<rparr>))))"

definition decode_Telemetry :: "viper_lib \<Rightarrow> (string \<Rightarrow> cfgval option) \<Rightarrow> goerr + TelemetryConfig" where
  "decode_Telemetry L get =
     bindr (to_str L (get ''telemetry.metrics_addr'')) (\<lambda>metrics.
     bindr (to_str L (get ''telemetry.tracing_endpoint'')) (\<lambda>tracing.
       Inr \<lparr>MetricsAddr = metrics, TracingEndpoint = tracing\<rparr>))"

text \<open>Ports are natural numbers: a negative one is read as 0.\<close>

definition decode_Cluster :: "viper_lib \<Rightarrow> (string \<Rightarrow> cfgval option) \<Rightarrow> goerr + ClusterConfig" where
  "decode_Cluster L get =
     bindr (to_bool L (get ''cluster.enabled'')) (\<lambda>en.
     bindr (to_str L (get ''cluster.node_id'')) (\<lambda>node.
     bindr (to_int L (get ''cluster.bind_port'')) (\<lambda>port.
     bindr (to_str L (get ''cluster.advertise_addr'')) (\<lambda>addr.
     bindr (to_str L (get ''cluster.discovery_mode'')) (\<lambda>mode'.
     bindr (to_list L (get ''cluster.join_peers'')) (\<lambda>ps.
     bindr (to_str L (get ''cluster.dns_service_name'')) (\<lambda>dns.
     bindr (to_duration L (get ''cluster.broadcast_period'')) (\<lambda>period.
       Inr \<lparr>cc_Enabled = en, cc_NodeID = node, BindPort = nat port, AdvertiseAddr = addr, DiscoveryMode = mode',
            JoinPeers = ps, DNSServiceName = dns, BroadcastPeriod = period\<rparr>))))))))"

definition decode_Config :: "viper_lib \<Rightarrow> (string \<Rightarrow> cfgval option) \<Rightarrow> goerr + Config" where
  "decode_Config L get =
     bindr (to_str L (get ''listen_addr'')) (\<lambda>addr.
     bindr (decode_TLS L get ''tls.'') (\<lambda>tls.
     bindr (decode_LocalCache L get) (\<lambda>lc.
     bindr (to_bool L (get ''force_update_atime'')) (\<lambda>force.
     bindr (to_str L (get ''log_level'')) (\<lambda>level.
     bindr (decode_BackingCache L get) (\<lambda>bc.
     bindr (decode_Telemetry L get) (\<lambda>tel.
     bindr (decode_Execution L get) (\<lambda>ex.
     bindr (decode_Cluster L get) (\<lambda>cl.
       Inr \<lparr>ListenAddr = addr, cf_TLS = tls, LocalCache = lc, ForceUpdateATime = force, LogLevel = level,
            BackingCache = bc, Telemetry = tel, cf_Execution = ex, cf_Cluster = cl\<rparr>)))))))))"

text \<open>\<open>viper.New\<close> and the calls on it up to \<open>ReadInConfig\<close>.\<close>

definition configured :: "string \<Rightarrow> viper" where
  "configured configPath =
     \<lparr>vp_defaults = config_defaults, vp_envPrefix = ''GOREGO'', vp_envReplacer = (''.'', ''_''), vp_automaticEnv = True,
      vp_configFile = (if configPath \<noteq> '''' then Some configPath else None),
      vp_configName = (if configPath \<noteq> '''' then '''' else ''config''),
      vp_configType = (if configPath \<noteq> '''' then '''' else ''yaml''),
      vp_configPaths = (if configPath \<noteq> '''' then [] else [''.'', ''./config''])\<rparr>"

definition LoadConfig :: "viper_lib \<Rightarrow> string \<Rightarrow> goerr + Config" where
  "LoadConfig L configPath =
     (let v = configured configPath
      in case ReadInConfig L v of
           Inl (notFound, err) \<Rightarrow> if notFound then decode_Config L (setting L v Map.empty) else Inl err
         | Inr file \<Rightarrow> decode_Config L (setting L v file))"

section \<open>Log levels\<close>

datatype Level = LevelDebug | LevelInfo | LevelWarn | LevelError

definition ToLower :: "string \<Rightarrow> string" where
  "ToLower = map (\<lambda>c. if of_char c \<in> {65..90::nat} then char_of (of_char c + 32 :: nat) else c)"

definition parseLogLevel :: "string \<Rightarrow> Level" where
  "parseLogLevel level =
     (let l = ToLower level
      in if l = ''debug'' then LevelDebug
         else if l = ''info'' then LevelInfo
         else if l = ''warn'' \<or> l = ''warning'' then LevelWarn
         else if l = ''error'' then LevelError
         else LevelWarn)"

section \<open>TLS\<close>

text \<open>The TLS library: loading a key pair, and whether a file has certificates in it.\<close>

record tls_lib =
  LoadX509KeyPair :: "fsys \<Rightarrow> string \<Rightarrow> string \<Rightarrow> goerr + bytes"
  AppendCertsFromPEM :: "bytes \<Rightarrow> bool"

datatype ClientAuthType = NoClientCert | RequestClientCert | RequireAnyClientCert | VerifyClientCertIfGiven | RequireAndVerifyClientCert

record tlsConfig =
  Certificates :: "bytes list"
  tc_ClientAuth :: ClientAuthType
  ClientCAs :: "bytes option"
  RootCAs :: "bytes option"

text \<open>\<open>os.ReadFile\<close> of the file, as a pool of certificates.\<close>

definition cert_pool :: "tls_lib \<Rightarrow> fsys \<Rightarrow> string \<Rightarrow> fsys \<times> (goerr + bytes)" where
  "cert_pool T s file =
     (case ReadFile s (to_path file) of
        (s, Inl err) \<Rightarrow> (s, Inl (Wrap ''failed to read CA file'' err))
      | (s, Inr caCert) \<Rightarrow>
          (s, if AppendCertsFromPEM T caCert then Inr caCert else Inl (Errorf ''failed to append CA cert'')))"

definition client_auth_mode :: "string \<Rightarrow> ClientAuthType option" where
  "client_auth_mode m =
     (if m = ''request'' then Some RequestClientCert
      else if m = ''require'' then Some RequireAnyClientCert
      else if m = ''verify_if_given'' then Some VerifyClientCertIfGiven
      else if m = ''require_and_verify'' then Some RequireAndVerifyClientCert
      else None)"

definition loadServerTLS :: "tls_lib \<Rightarrow> fsys \<Rightarrow> TLSConfig \<Rightarrow> fsys \<times> (goerr + tlsConfig option)" where
  "loadServerTLS T s cfg =
     (if \<not> tls_Enabled cfg then (s, Inr None)
      else case LoadX509KeyPair T s (CertFile cfg) (KeyFile cfg) of
        Inl err \<Rightarrow> (s, Inl (Wrap ''failed to load server cert/key'' err))
      | Inr certificate \<Rightarrow>
          (let tc = \<lparr>Certificates = [certificate], tc_ClientAuth = NoClientCert, ClientCAs = None, RootCAs = None\<rparr>
           in if ClientAuth cfg \<noteq> ''none'' \<and> ClientAuth cfg \<noteq> ''''
              then if CAFile cfg = '''' then (s, Inl (Errorf ''client_auth enabled but no ca_file provided''))
                   else (case cert_pool T s (CAFile cfg) of
                           (s, Inl err) \<Rightarrow> (s, Inl err)
                         | (s, Inr pool) \<Rightarrow>
                             (case client_auth_mode (ClientAuth cfg) of
                                None \<Rightarrow> (s, Inl (Errorf ''unknown client_auth mode''))
                              | Some m \<Rightarrow> (s, Inr (Some (tc\<lparr>ClientCAs := Some pool, tc_ClientAuth := m\<rparr>)))))
              else (s, Inr (Some tc))))"

section \<open>Connecting to the backing cache\<close>

record DialParams =
  Service :: string
  DialCreds :: "tlsConfig option"
  NoSecurity :: bool
  MaxCallRecvMsgSize :: int

record 'c RemoteClient =
  rc_c :: 'c
  rc_compression :: string

definition TrimPrefix :: "string \<Rightarrow> string \<Rightarrow> string" where
  "TrimPrefix s pre = (if take (length pre) s = pre then drop (length pre) s else s)"

text \<open>The TLS configuration of the client.\<close>

definition client_tls :: "tls_lib \<Rightarrow> fsys \<Rightarrow> TLSConfig \<Rightarrow> fsys \<times> (goerr + tlsConfig)" where
  "client_tls T s cfg =
     (case (if CertFile cfg \<noteq> '''' \<and> KeyFile cfg \<noteq> ''''
            then (case LoadX509KeyPair T s (CertFile cfg) (KeyFile cfg) of
                    Inl err \<Rightarrow> Inl (Wrap ''failed to load client cert/key'' err)
                  | Inr cert \<Rightarrow> Inr [cert])
            else Inr []) of
        Inl err \<Rightarrow> (s, Inl err)
      | Inr certs \<Rightarrow>
          (let tc = \<lparr>Certificates = certs, tc_ClientAuth = NoClientCert, ClientCAs = None, RootCAs = None\<rparr>
           in if CAFile cfg \<noteq> ''''
              then (case cert_pool T s (CAFile cfg) of
                      (s, Inl err) \<Rightarrow> (s, Inl err)
                    | (s, Inr pool) \<Rightarrow> (s, Inr (tc\<lparr>RootCAs := Some pool\<rparr>)))
              else (s, Inr tc)))"

definition NewRemoteStore ::
  "tls_lib \<Rightarrow> (DialParams \<Rightarrow> goerr + 'c) \<Rightarrow> fsys \<Rightarrow> BackingCacheConfig \<Rightarrow> fsys \<times> (goerr + 'c RemoteClient)" where
  "NewRemoteStore T newClient s cfg =
     (let dialAddr = TrimPrefix (TrimPrefix (Target cfg) ''grpc://'') ''grpcs://'';
          recv = 100 * 1024 * 1024;
          dial = (\<lambda>s params.
            case newClient params of
              Inl err \<Rightarrow> (s, Inl err)
            | Inr c \<Rightarrow> (s, Inr \<lparr>rc_c = c, rc_compression = Compression cfg\<rparr>))
      in if tls_Enabled (bc_TLS cfg)
         then (case client_tls T s (bc_TLS cfg) of
                 (s, Inl err) \<Rightarrow> (s, Inl err)
               | (s, Inr tc) \<Rightarrow>
                   dial s \<lparr>Service = dialAddr, DialCreds = Some tc, NoSecurity = False, MaxCallRecvMsgSize = recv\<rparr>)
         else dial s \<lparr>Service = dialAddr, DialCreds = None, NoSecurity = True, MaxCallRecvMsgSize = recv\<rparr>)"

section \<open>Properties\<close>

lemma cert_pool_ok: "cert_pool T s f = (t, Inr pool) \<Longrightarrow> snd (ReadFile s (to_path f)) = Inr pool \<and> AppendCertsFromPEM T pool"
  by (auto simp: cert_pool_def split: prod.split_asm sum.split_asm if_split_asm)

text \<open>C38: Where \<open>loadServerTLS\<close> succeeds, the server has credentials exactly if TLS is enabled, with the certificate of the
  configured files. A mode of client authentication other than none is one of the four known modes and is never
  dropped: the credentials ask for a client certificate in that mode, with the certificates of the configured CA file.\<close>

theorem server_tls:
  assumes "loadServerTLS T s cfg = (t, Inr creds)"
  shows "(creds = None \<longleftrightarrow> \<not> tls_Enabled cfg) \<and>
    (\<forall>tc. creds = Some tc \<longrightarrow>
       (\<exists>cert. LoadX509KeyPair T s (CertFile cfg) (KeyFile cfg) = Inr cert \<and> Certificates tc = [cert]) \<and>
       (if ClientAuth cfg \<in> {''none'', []} then tc_ClientAuth tc = NoClientCert \<and> ClientCAs tc = None
        else client_auth_mode (ClientAuth cfg) = Some (tc_ClientAuth tc) \<and> tc_ClientAuth tc \<noteq> NoClientCert \<and>
          (\<exists>pool. ClientCAs tc = Some pool \<and> snd (ReadFile s (to_path (CAFile cfg))) = Inr pool \<and> AppendCertsFromPEM T pool)))"
proof -
  have "client_auth_mode m \<noteq> Some NoClientCert" for m by (simp add: client_auth_mode_def)
  then show ?thesis using assms
    by (auto simp: loadServerTLS_def Let_def dest: cert_pool_ok split: if_splits sum.split_asm prod.split_asm option.split_asm)
qed

definition tls_lib0 :: tls_lib where
  "tls_lib0 = \<lparr>LoadX509KeyPair = (\<lambda>_ _ _. Inr [1]), AppendCertsFromPEM = (\<lambda>b. b \<noteq> [])\<rparr>"

definition tls_cfg0 :: TLSConfig where
  "tls_cfg0 = \<lparr>tls_Enabled = True, CertFile = ''/c'', KeyFile = ''/k'', CAFile = ''/out'', ClientAuth = ''require_and_verify''\<rparr>"

lemma load_tls0: "case loadServerTLS tls_lib0 (disk store1) tls_cfg0 of (t, Inr (Some tc)) \<Rightarrow> True | _ \<Rightarrow> False"
  by code_simp

theorem server_tls_witness:
  "\<exists>t tc. loadServerTLS tls_lib0 (disk store1) tls_cfg0 = (t, Inr (Some tc)) \<and> tc_ClientAuth tc = RequireAndVerifyClientCert \<and>
     ClientCAs tc \<noteq> None"
proof -
  obtain t tc where l: "loadServerTLS tls_lib0 (disk store1) tls_cfg0 = (t, Inr (Some tc))"
    using load_tls0 by (auto split: prod.split_asm sum.split_asm option.split_asm)
  from server_tls [OF l] l show ?thesis by (auto simp: tls_cfg0_def client_auth_mode_def)
qed

text \<open>The scheme of the target does not matter: a target with the scheme \<open>grpcs\<close> is dialled without security unless TLS is enabled
  on its own.\<close>

theorem grpcs_target_plaintext:
  assumes "Target cfg = ''grpcs://'' @ addr" "\<not> tls_Enabled (bc_TLS cfg)"
    and "newClient \<lparr>Service = addr, DialCreds = None, NoSecurity = True, MaxCallRecvMsgSize = 100 * 1024 * 1024\<rparr> = Inr c"
  shows "NewRemoteStore T newClient s cfg = (s, Inr \<lparr>rc_c = c, rc_compression = Compression cfg\<rparr>)"
  using assms by (simp add: NewRemoteStore_def TrimPrefix_def Let_def)

text \<open>The documented behaviour of the library where no variable of the environment is set.\<close>

definition viper_plain :: "viper_lib \<Rightarrow> bool" where
  "viper_plain L \<longleftrightarrow>
     (\<forall>v k. setting L v Map.empty k = map_of (vp_defaults v) k) \<and>
     (\<forall>s. to_str L (Some (CStr s)) = Inr s) \<and> to_str L None = Inr '''' \<and>
     (\<forall>b. to_bool L (Some (CBool b)) = Inr b) \<and> to_bool L None = Inr False \<and>
     (\<forall>i. to_int L (Some (CInt i)) = Inr i) \<and>
     (\<forall>xs. to_list L (Some (CList xs)) = Inr xs) \<and> to_list L None = Inr [] \<and>
     to_duration L (Some (CStr ''500ms'')) = Inr (second div 2)"

definition default_config :: Config where
  "default_config =
     (let off = \<lparr>tls_Enabled = False, CertFile = '''', KeyFile = '''', CAFile = '''', ClientAuth = ''''\<rparr>
      in \<lparr>ListenAddr = '':50051'', cf_TLS = off,
          LocalCache = \<lparr>lc_Enabled = True, lc_Dir = ''/tmp/gorego/cache'', MaxSizeGB = 10\<rparr>,
          ForceUpdateATime = False, LogLevel = ''warn'',
          BackingCache = \<lparr>Target = '''', Compression = '''', PutRetryCount = 3, bc_TLS = off\<lparr>ClientAuth := ''none''\<rparr>\<rparr>,
          Telemetry = \<lparr>MetricsAddr = '':9090'', TracingEndpoint = ''''\<rparr>,
          cf_Execution = \<lparr>ec_Enabled = True, ec_Concurrency = 0, ec_BuildRoot = ''/tmp/gorego/builds'', ec_QueueSize = 1000,
            ec_Sandbox = \<lparr>sc_Enabled = False, sc_BinaryPath = ''/usr/bin/linux-sandbox'', sc_NetworkIsolation = True,
              sc_WritablePaths = [], sc_KillDelay = 5, sc_Debug = False\<rparr>\<rparr>,
          cf_Cluster = \<lparr>cc_Enabled = False, cc_NodeID = '''', BindPort = 7946, AdvertiseAddr = '''', DiscoveryMode = ''list'',
            JoinPeers = [], DNSServiceName = '''', BroadcastPeriod = second div 2\<rparr>\<rparr>)"

lemma default_values:
  "map_of config_defaults ''listen_addr'' = Some (CStr '':50051'')"
  "map_of config_defaults ''local_cache.enabled'' = Some (CBool True)"
  "map_of config_defaults ''local_cache.dir'' = Some (CStr ''/tmp/gorego/cache'')"
  "map_of config_defaults ''local_cache.max_size_gb'' = Some (CInt 10)"
  "map_of config_defaults ''cluster.enabled'' = Some (CBool False)"
  "map_of config_defaults ''cluster.bind_port'' = Some (CInt 7946)"
  "map_of config_defaults ''cluster.discovery_mode'' = Some (CStr ''list'')"
  "map_of config_defaults ''cluster.broadcast_period'' = Some (CStr ''500ms'')"
  "map_of config_defaults ''cluster.node_id'' = Some (CStr '''')"
  "map_of config_defaults ''cluster.advertise_addr'' = Some (CStr '''')"
  "map_of config_defaults ''cluster.dns_service_name'' = Some (CStr '''')"
  "map_of config_defaults ''force_update_atime'' = Some (CBool False)"
  "map_of config_defaults ''log_level'' = Some (CStr ''warn'')"
  "map_of config_defaults ''telemetry.metrics_addr'' = Some (CStr '':9090'')"
  "map_of config_defaults ''execution.enabled'' = Some (CBool True)"
  "map_of config_defaults ''execution.concurrency'' = Some (CInt 0)"
  "map_of config_defaults ''execution.build_root'' = Some (CStr ''/tmp/gorego/builds'')"
  "map_of config_defaults ''execution.queue_size'' = Some (CInt 1000)"
  "map_of config_defaults ''execution.sandbox.enabled'' = Some (CBool False)"
  "map_of config_defaults ''execution.sandbox.binary_path'' = Some (CStr ''/usr/bin/linux-sandbox'')"
  "map_of config_defaults ''execution.sandbox.network_isolation'' = Some (CBool True)"
  "map_of config_defaults ''execution.sandbox.writable_paths'' = Some (CList [])"
  "map_of config_defaults ''execution.sandbox.kill_delay'' = Some (CInt 5)"
  "map_of config_defaults ''execution.sandbox.debug'' = Some (CBool False)"
  "map_of config_defaults ''backing_cache.put_retry_count'' = Some (CInt 3)"
  "map_of config_defaults ''backing_cache.tls.enabled'' = Some (CBool False)"
  "map_of config_defaults ''backing_cache.tls.cert_file'' = Some (CStr '''')"
  "map_of config_defaults ''backing_cache.tls.key_file'' = Some (CStr '''')"
  "map_of config_defaults ''backing_cache.tls.ca_file'' = Some (CStr '''')"
  "map_of config_defaults ''backing_cache.tls.client_auth'' = Some (CStr ''none'')"
  "map_of config_defaults ''tls.enabled'' = None"
  "map_of config_defaults ''tls.cert_file'' = None"
  "map_of config_defaults ''tls.key_file'' = None"
  "map_of config_defaults ''tls.ca_file'' = None"
  "map_of config_defaults ''tls.client_auth'' = None"
  "map_of config_defaults ''backing_cache.target'' = None"
  "map_of config_defaults ''backing_cache.compression'' = None"
  "map_of config_defaults ''telemetry.tracing_endpoint'' = None"
  "map_of config_defaults ''cluster.join_peers'' = None"
  by code_simp+

lemma LoadConfig_default:
  assumes "viper_plain L" "ReadInConfig L (configured path) = Inl (True, e)"
  shows "LoadConfig L path = Inr default_config"
  using assms
  by (simp add: LoadConfig_def viper_plain_def decode_Config_def decode_TLS_def decode_LocalCache_def decode_BackingCache_def
      decode_Telemetry_def decode_Execution_def decode_Sandbox_def decode_Cluster_def configured_def default_values default_config_def Let_def)

end
