(* ===== verification/Startup.thy ===== *)
theory Startup
  imports Config Proxy Execution
begin

text \<open>
\<open>main\<close> (\<^verbatim>\<open>cmd/gorego/main.go\<close>): how the server is put together from its configuration, and how it stops.
\<close>

section \<open>The parts of the server\<close>

text \<open>The remote tier behind the local cache, and the store the services work on.\<close>

datatype 'c tier = NullTier | RemoteTier "'c RemoteClient"

datatype 'c app_store =
    Proxied "'c tier ProxyStore"
  | Stateless "'c RemoteClient" fsys

fun app_disk :: "'c app_store \<Rightarrow> fsys" where
  "app_disk (Proxied p) = disk (px_local p)"
| "app_disk (Stateless c s) = s"

fun set_app_disk :: "fsys \<Rightarrow> 'c app_store \<Rightarrow> 'c app_store" where
  "set_app_disk s (Proxied p) = Proxied (p\<lparr>px_local := (px_local p)\<lparr>disk := s\<rparr>\<rparr>)"
| "set_app_disk s (Stateless c _) = Stateless c s"

text \<open>
  What the process finds when it starts. \<open>se_ops\<close> are the operations of the store, whose disk is that of the process.
\<close>

record 'c start_env =
  se_viper :: viper_lib
  se_telemetry :: "goerr option"
  se_tls :: tls_lib
  se_newClient :: "DialParams \<Rightarrow> goerr + 'c"
  se_ops :: "'c app_store wstore"
  se_numCPU :: int
  se_hostname :: "goerr + string"
  se_uuid :: string
  se_now :: gotime
  se_memberlist :: "goerr + Node list"
  se_resolver :: resolver
  se_listen :: "goerr option"

text \<open>The background tasks of the error group, and the services of the gRPC server.\<close>

datatype bg_task = MetricsServer | MetricsShutdown | JanitorRun | ClusterRun | SchedulerRun | WorkersRun | GrpcServe

datatype service = CAS | Capabilities bool | ByteStreams | ActionCache | ExecutionService | OperationsService | Health | Reflection

record 'c App =
  ap_logLevel :: Level
  ap_store :: "'c app_store"
  ap_janitor :: "Janitor option"
  ap_cluster :: "Manager option"
  ap_joined :: "string list"
  ap_sched :: "Scheduler option"
  ap_pool :: "'c app_store WorkerPool option"
  ap_creds :: "tlsConfig option"
  ap_tasks :: "bg_task list"
  ap_services :: "service list"

section \<open>Starting\<close>

text \<open>\<open>os.Exit(1)\<close> after a message is \<open>Inl\<close> of the message; a panic is \<open>Panic\<close>.\<close>

type_synonym 'a started = "(string + 'a) outcome"

fun bindx :: "'a started \<Rightarrow> ('a \<Rightarrow> 'b started) \<Rightarrow> 'b started" where
  "bindx Panic f = Panic"
| "bindx (Return (Inl e)) f = Return (Inl e)"
| "bindx (Return (Inr x)) f = f x"

definition or_exit :: "string \<Rightarrow> goerr + 'a \<Rightarrow> 'a started" where
  "or_exit msg r = (case r of Inl _ \<Rightarrow> Return (Inl msg) | Inr x \<Rightarrow> Return (Inr x))"

definition start_store :: "'c start_env \<Rightarrow> fsys \<Rightarrow> Config \<Rightarrow> ('c app_store \<times> Janitor option) started" where
  "start_store E s cfg =
     (let connect = (\<lambda>s. NewRemoteStore (se_tls E) (se_newClient E) s (BackingCache cfg))
      in if lc_Enabled (LocalCache cfg)
         then (case NewLocalStore s (to_path (lc_Dir (LocalCache cfg))) (ForceUpdateATime cfg) of
                 (s, Inl err) \<Rightarrow> Return (Inl ''failed to initialize local store'')
               | (s, Inr l) \<Rightarrow>
                   (let jan = NewJanitor (to_path (lc_Dir (LocalCache cfg))) (MaxSizeGB (LocalCache cfg));
                        l = SetOnPutCallback l;
                        done = (\<lambda>s remote. Return (Inr (Proxied (NewProxyStore (l\<lparr>disk := s\<rparr>) remote (PutRetryCount (BackingCache cfg))), Some jan)))
                    in if Target (BackingCache cfg) = '''' then done s NullTier
                       else (case connect s of
                               (s, Inl err) \<Rightarrow> Return (Inl ''failed to connect to backing cache'')
                             | (s, Inr c) \<Rightarrow> done s (RemoteTier c))))
         else if Target (BackingCache cfg) = '''' then Return (Inl ''Local cache disabled but no backing cache configured'')
         else (case connect s of
                 (s, Inl err) \<Rightarrow> Return (Inl ''failed to connect to backing cache'')
               | (s, Inr c) \<Rightarrow> Return (Inr (Stateless c s, None))))"

definition start_cluster :: "'c start_env \<Rightarrow> Config \<Rightarrow> (Manager option \<times> string list) started" where
  "start_cluster E cfg =
     (if \<not> cc_Enabled (cf_Cluster cfg) then Return (Inr (None, []))
      else (let conc = (if ec_Concurrency (cf_Execution cfg) = 0 then se_numCPU E else ec_Concurrency (cf_Execution cfg));
                m = NewManager (cf_Cluster cfg) (ListenAddr cfg) conc False (se_hostname E) (se_uuid E) (se_now E)
            in case Start (se_memberlist E) (se_resolver E) m of
                 (m, joined, Some err) \<Rightarrow> Return (Inl ''failed to start cluster'')
               | (m, joined, None) \<Rightarrow> Return (Inr (Some m, joined))))"

text \<open>\<open>make(chan *Task, queueSize)\<close> panics on a negative size.\<close>

definition start_execution ::
  "'c start_env \<Rightarrow> Config \<Rightarrow> Manager option \<Rightarrow> 'c app_store \<Rightarrow>
   (Manager option \<times> 'c app_store \<times> (Scheduler \<times> 'c app_store WorkerPool) option) started" where
  "start_execution E cfg cm store =
     (if \<not> ec_Enabled (cf_Execution cfg) then Return (Inr (cm, store, None))
      else if ec_QueueSize (cf_Execution cfg) < 0 then Panic
      else (let nid = (case cm of None \<Rightarrow> '''' | Some m \<Rightarrow> cm_NodeID m);
                sched = NewScheduler (nat (ec_QueueSize (cf_Execution cfg))) nid;
                cm = map_option SetLoadProvider cm;
                W = (se_ops E)\<lparr>ws_disk := app_disk, ws_setdisk := set_app_disk\<rparr>
            in case NewWorkerPool (se_numCPU E) W (cf_Execution cfg) sched store of
                 (store, Inl err) \<Rightarrow> Return (Inl ''failed to initialize worker pool'')
               | (store, Inr pool) \<Rightarrow> Return (Inr (cm, store, Some (sched, pool)))))"

definition start_services :: "bool \<Rightarrow> bool \<Rightarrow> service list" where
  "start_services execEnabled hasSched =
     [CAS, Capabilities execEnabled, ByteStreams, ActionCache] @
     (if execEnabled \<and> hasSched then [ExecutionService, OperationsService] else []) @
     [Health, Reflection]"

definition start_tls :: "'c start_env \<Rightarrow> Config \<Rightarrow> 'c app_store \<Rightarrow> ('c app_store \<times> tlsConfig option) started" where
  "start_tls E cfg store =
     (case loadServerTLS (se_tls E) (app_disk store) (cf_TLS cfg) of
        (t, Inl err) \<Rightarrow> Return (Inl ''failed to load TLS config'')
      | (t, Inr creds) \<Rightarrow> Return (Inr (set_app_disk t store, creds)))"

text \<open>The error of a call that returns only an error.\<close>

definition checked :: "goerr option \<Rightarrow> goerr + unit" where
  "checked err = (case err of None \<Rightarrow> Inr () | Some e \<Rightarrow> Inl e)"

definition start_tasks :: "Janitor option \<Rightarrow> Manager option \<Rightarrow> (Scheduler \<times> 'c app_store WorkerPool) option \<Rightarrow> bg_task list" where
  "start_tasks jan cm ex =
     [MetricsServer, MetricsShutdown] @ (if jan = None then [] else [JanitorRun]) @
     (if cm = None then [] else [ClusterRun]) @ (if ex = None then [] else [SchedulerRun, WorkersRun]) @ [GrpcServe]"

definition startup :: "'c start_env \<Rightarrow> fsys \<Rightarrow> string \<Rightarrow> 'c App started" where
  "startup E s configPath =
     bindx (or_exit ''failed to load config'' (LoadConfig (se_viper E) configPath)) (\<lambda>cfg.
     bindx (or_exit ''failed to setup telemetry'' (checked (se_telemetry E))) (\<lambda>_.
     bindx (start_store E s cfg) (\<lambda>(store, jan).
     bindx (start_cluster E cfg) (\<lambda>(cm, joined).
     bindx (start_execution E cfg cm store) (\<lambda>(cm, store, ex).
     bindx (or_exit ''failed to listen'' (checked (se_listen E))) (\<lambda>_.
     bindx (start_tls E cfg store) (\<lambda>(store, creds).
       Return (Inr
         \<lparr>ap_logLevel = parseLogLevel (LogLevel cfg), ap_store = store, ap_janitor = jan,
          ap_cluster = cm, ap_joined = joined, ap_sched = map_option fst ex, ap_pool = map_option snd ex,
          ap_creds = creds, ap_tasks = start_tasks jan cm ex,
          ap_services = start_services (ec_Enabled (cf_Execution cfg)) (ex \<noteq> None)\<rparr>))))))))"

section \<open>The log of the member list\<close>

text \<open>\<open>logAdapter.Write\<close> in \<^verbatim>\<open>pkg/cluster/cluster.go\<close>: the level and the message it logs, and its result.\<close>

definition is_space :: "char \<Rightarrow> bool" where
  "is_space c \<longleftrightarrow> of_char c \<in> {9::nat, 10, 11, 12, 13, 32}"

definition TrimSpace :: "string \<Rightarrow> string" where
  "TrimSpace s = rev (dropWhile is_space (rev (dropWhile is_space s)))"

fun Replace1 :: "string \<Rightarrow> string \<Rightarrow> string \<Rightarrow> string" where
  "Replace1 [] old new = []"
| "Replace1 (c # s) old new =
     (if take (length old) (c # s) = old then new @ drop (length old) (c # s) else c # Replace1 s old new)"

fun Contains :: "string \<Rightarrow> string \<Rightarrow> bool" where
  "Contains [] sub = (sub = [])"
| "Contains (c # s) sub = (take (length sub) (c # s) = sub \<or> Contains s sub)"

definition log_level :: "string \<Rightarrow> Level \<times> string" where
  "log_level msg =
     (if Contains msg ''[DEBUG]'' then (LevelDebug, Replace1 msg ''[DEBUG]'' [])
      else if Contains msg ''[WARN]'' then (LevelWarn, Replace1 msg ''[WARN]'' [])
      else if Contains msg ''[ERR]'' \<or> Contains msg ''[ERROR]''
      then (LevelError, Replace1 (Replace1 msg ''[ERR]'' []) ''[ERROR]'' [])
      else if Contains msg ''[INFO]'' then (LevelInfo, Replace1 msg ''[INFO]'' [])
      else (LevelInfo, msg))"

definition log_write :: "string \<Rightarrow> (Level \<times> string) \<times> nat" where
  "log_write p =
     (case log_level (TrimSpace p) of
        (level, msg) \<Rightarrow> ((level, TrimSpace (TrimPrefix (TrimSpace msg) ''memberlist:'')), length p))"

lemma log_write_example: "log_write ''2024 [ERR] memberlist: down'' = ((LevelError, ''2024  memberlist: down''), 27)"
  by code_simp

section \<open>Stopping\<close>

datatype stop_step = NotServing | LeaveCluster | GracefulStop | CancelContext

text \<open>The select at the end of \<open>main\<close>: on a signal the server is stopped in order; when a task has failed nothing is left to do.\<close>

definition stop_steps :: "bool \<Rightarrow> 'c App \<Rightarrow> stop_step list" where
  "stop_steps signalled a =
     (if signalled
      then [NotServing] @ (if ap_cluster a = None then [] else [LeaveCluster]) @ [GracefulStop, CancelContext]
      else [])"

text \<open>The error of a task that runs until the context ends.\<close>

definition task_error :: "goerr option \<Rightarrow> goerr option" where
  "task_error err = (if err = Some CtxErr then None else err)"

section \<open>What starts\<close>

lemma bindx_Inr_iff: "bindx m f = Return (Inr x) \<longleftrightarrow> (\<exists>y. m = Return (Inr y) \<and> f y = Return (Inr x))"
  by (cases "(m, f)" rule: bindx.cases) auto

lemma or_exit_Inr [simp]: "or_exit msg r = Return (Inr x) \<longleftrightarrow> r = Inr x"
  by (cases r) (simp_all add: or_exit_def)

lemma app_disk_set [simp]: "app_disk (set_app_disk s a) = s"
  by (cases a) simp_all

text \<open>A store that fits the configuration.\<close>

fun store_fits :: "Config \<Rightarrow> 'c app_store \<Rightarrow> Janitor option \<Rightarrow> bool" where
  "store_fits cfg (Proxied p) jan \<longleftrightarrow>
     lc_Enabled (LocalCache cfg) \<and> rootDir (px_local p) = to_path (lc_Dir (LocalCache cfg)) \<and>
     forceUpdateATime (px_local p) = ForceUpdateATime cfg \<and> onPutCallback (px_local p) \<and> 1 \<le> putRetryCount p \<and>
     (px_remote p = NullTier \<longleftrightarrow> Target (BackingCache cfg) = '''') \<and>
     jan = Some (NewJanitor (rootDir (px_local p)) (MaxSizeGB (LocalCache cfg)))"
| "store_fits cfg (Stateless c s) jan \<longleftrightarrow> \<not> lc_Enabled (LocalCache cfg) \<and> Target (BackingCache cfg) \<noteq> '''' \<and> jan = None"

lemma store_fits_disk [simp]: "store_fits cfg (set_app_disk s a) jan = store_fits cfg a jan"
  by (cases a) simp_all

lemma start_store_fits: "start_store E s cfg = Return (Inr (store, jan)) \<Longrightarrow> store_fits cfg store jan"
  by (auto simp: start_store_def Let_def NewLocalStore_def SetOnPutCallback_def NewProxyStore_def
      split: if_splits prod.split_asm sum.split_asm)

lemma start_cluster_manager:
  assumes "start_cluster E cfg = Return (Inr (cm, joined))"
  shows "cm \<noteq> None \<longleftrightarrow> cc_Enabled (cf_Cluster cfg)"
    "cm = Some m \<Longrightarrow> \<not> loadProvider m \<and> PendingTasks (localState m) = 0 \<and>
       MaxConcurrency (localState m) = word_of_int (if ec_Concurrency (cf_Execution cfg) = 0 then se_numCPU E else ec_Concurrency (cf_Execution cfg))"
  using assms by (auto simp: start_cluster_def Start_def NewManager_def Let_def split: if_splits sum.split_asm option.split_asm prod.split_asm)

lemma start_execution_store:
  assumes "start_execution E cfg cm store = Return (Inr (cm', store', ex))"
  obtains t where "store' = set_app_disk t store \<or> store' = store"
    "ec_Enabled (cf_Execution cfg) \<Longrightarrow> cm' = map_option SetLoadProvider cm \<and>
       (\<exists>pool. ex = Some (NewScheduler (nat (ec_QueueSize (cf_Execution cfg))) (case cm of None \<Rightarrow> '''' | Some m \<Rightarrow> cm_NodeID m), pool) \<and>
          wp_concurrency pool = (if ec_Concurrency (cf_Execution cfg) \<le> 0 then se_numCPU E else ec_Concurrency (cf_Execution cfg)))"
    "\<not> ec_Enabled (cf_Execution cfg) \<Longrightarrow> cm' = cm \<and> ex = None"
proof (rule that [of "app_disk store'"])
  show "store' = set_app_disk (app_disk store') store \<or> store' = store"
    using assms by (auto simp: start_execution_def NewWorkerPool_def Let_def split: if_splits prod.split_asm sum.split_asm)
qed (use assms in \<open>auto simp: start_execution_def NewWorkerPool_def Let_def split: if_splits prod.split_asm sum.split_asm\<close>)

text \<open>The phases of a start that succeeds.\<close>

lemma startup_phases:
  assumes "startup E s path = Return (Inr a)" "LoadConfig (se_viper E) path = Inr cfg"
  obtains store jan cm joined cm' store' ex store'' creds where
    "start_store E s cfg = Return (Inr (store, jan))" "start_cluster E cfg = Return (Inr (cm, joined))"
    "start_execution E cfg cm store = Return (Inr (cm', store', ex))" "start_tls E cfg store' = Return (Inr (store'', creds))"
    "ap_store a = store''" "ap_janitor a = jan" "ap_cluster a = cm'" "ap_sched a = map_option fst ex"
    "ap_pool a = map_option snd ex" "ap_creds a = creds" "ap_services a = start_services (ec_Enabled (cf_Execution cfg)) (ex \<noteq> None)"
  using assms by (auto simp: startup_def bindx_Inr_iff simp del: not_None_eq)

text \<open>C39: A server that starts is put together as its configuration says. With a local cache the store is the proxy store
  over it, with the janitor of the same directory notified of every put, and with the null store behind it exactly if
  no backing cache is configured; without one it is the backing cache, which then must be configured. The
  scheduler, the execution services and the announced capability exist together, exactly if execution is
  enabled; the scheduler is well formed and names operations after the node identifier of the cluster; and the cluster
  reports the load of the scheduler exactly if there is one.\<close>

theorem startup_wf:
  assumes "startup E s path = Return (Inr a)" "LoadConfig (se_viper E) path = Inr cfg"
  shows "store_fits cfg (ap_store a) (ap_janitor a) \<and>
    (ap_sched a \<noteq> None \<longleftrightarrow> ec_Enabled (cf_Execution cfg)) \<and> (ap_pool a \<noteq> None \<longleftrightarrow> ap_sched a \<noteq> None) \<and>
    (ExecutionService \<in> set (ap_services a) \<longleftrightarrow> ap_sched a \<noteq> None) \<and>
    (\<forall>b. Capabilities b \<in> set (ap_services a) \<longleftrightarrow> b = (ap_sched a \<noteq> None)) \<and>
    (ap_cluster a \<noteq> None \<longleftrightarrow> cc_Enabled (cf_Cluster cfg)) \<and>
    (\<forall>sched. ap_sched a = Some sched \<longrightarrow> sched_inv sched \<and>
       nodeID sched = (case ap_cluster a of None \<Rightarrow> '''' | Some m \<Rightarrow> cm_NodeID m)) \<and>
    (\<forall>m. ap_cluster a = Some m \<longrightarrow> loadProvider m = (ap_sched a \<noteq> None)) \<and>
    (ap_creds a \<noteq> None \<longleftrightarrow> tls_Enabled (cf_TLS cfg))"
proof -
  from assms obtain store jan cm joined cm' store' ex store'' creds where
    p: "start_store E s cfg = Return (Inr (store, jan))" "start_cluster E cfg = Return (Inr (cm, joined))"
      "start_execution E cfg cm store = Return (Inr (cm', store', ex))" "start_tls E cfg store' = Return (Inr (store'', creds))"
    and a: "ap_store a = store''" "ap_janitor a = jan" "ap_cluster a = cm'" "ap_sched a = map_option fst ex"
      "ap_pool a = map_option snd ex" "ap_creds a = creds" "ap_services a = start_services (ec_Enabled (cf_Execution cfg)) (ex \<noteq> None)"
    by (rule startup_phases)
  obtain u where x: "store' = set_app_disk u store \<or> store' = store"
    "ec_Enabled (cf_Execution cfg) \<Longrightarrow> cm' = map_option SetLoadProvider cm \<and>
       (\<exists>pool. ex = Some (NewScheduler (nat (ec_QueueSize (cf_Execution cfg))) (case cm of None \<Rightarrow> [] | Some m \<Rightarrow> cm_NodeID m), pool))"
    "\<not> ec_Enabled (cf_Execution cfg) \<Longrightarrow> cm' = cm \<and> ex = None"
    by (rule start_execution_store [OF p(3)]) blast
  have tls: "(\<exists>t. store'' = set_app_disk t store') \<and> (creds \<noteq> None \<longleftrightarrow> tls_Enabled (cf_TLS cfg))"
    using p(4) by (auto simp: start_tls_def loadServerTLS_def Let_def split: if_splits sum.split_asm prod.split_asm option.split_asm)
  then have "store_fits cfg (ap_store a) (ap_janitor a)" using start_store_fits [OF p(1)] x(1) a(1,2) by auto
  moreover note conjunct2 [OF tls] start_cluster_manager [OF p(2)]
  ultimately show ?thesis using a(3-) x(2,3) sched_inv_New
    by (cases "ec_Enabled (cf_Execution cfg)"; cases cm)
      (auto simp: start_services_def NewScheduler_def SetLoadProvider_def cm_NodeID_def simp del: not_None_eq)
qed


text \<open>A library and an environment without settings.\<close>

definition viper0 :: viper_lib where
  "viper0 = \<lparr>ReadInConfig = (\<lambda>_. Inl (True, ErrNotExist)), setting = (\<lambda>v _ k. map_of (vp_defaults v) k),
     to_str = (\<lambda>v. case v of Some (CStr s) \<Rightarrow> Inr s | None \<Rightarrow> Inr [] | _ \<Rightarrow> Inl ErrEOF),
     to_bool = (\<lambda>v. case v of Some (CBool b) \<Rightarrow> Inr b | None \<Rightarrow> Inr False | _ \<Rightarrow> Inl ErrEOF),
     to_int = (\<lambda>v. case v of Some (CInt i) \<Rightarrow> Inr i | None \<Rightarrow> Inr 0 | _ \<Rightarrow> Inl ErrEOF),
     to_list = (\<lambda>v. case v of Some (CList xs) \<Rightarrow> Inr xs | None \<Rightarrow> Inr [] | _ \<Rightarrow> Inl ErrEOF),
     to_duration = (\<lambda>v. Inr (second div 2))\<rparr>"

definition env0 :: "unit start_env" where
  "env0 = \<lparr>se_viper = viper0, se_telemetry = None, se_tls = tls_lib0, se_newClient = (\<lambda>_. Inr ()),
     se_ops = \<lparr>ws_get = (\<lambda>s _. Return (s, Inl ErrNotExist)), ws_put = (\<lambda>s _ _. Return (s, None)), ws_local = None,
       ws_update = (\<lambda>s _ _. Return (s, None)), ws_disk = app_disk, ws_setdisk = set_app_disk\<rparr>,
     se_numCPU = 4, se_hostname = Inr ''host'', se_uuid = ''u'', se_now = 0, se_memberlist = Inr [],
     se_resolver = \<lparr>dns_lookup = (\<lambda>_. Inr []), dns_ctxErr = (\<lambda>_. False), dns_ctxDone = (\<lambda>_. False)\<rparr>, se_listen = None\<rparr>"

lemma viper0_plain: "viper_plain viper0"
  by (simp add: viper_plain_def viper0_def)

lemma new_cache0: "\<exists>t l. NewLocalStore disk0 (Path True [''tmp'', ''gorego'', ''cache'']) False = (t, Inr l)"
proof -
  have "case NewLocalStore disk0 (Path True [''tmp'', ''gorego'', ''cache'']) False of (t, Inr l) \<Rightarrow> True | _ \<Rightarrow> False"
    by code_simp
  then show ?thesis by (auto split: prod.split_asm sum.split_asm)
qed


text \<open>A node of the cluster with execution disabled announces a free slot per CPU, whatever happens: no load is ever
  reported for it. A peer with any work then forwards executions to it, although it does not serve them.\<close>

theorem disabled_node_attracts:
  assumes "startup E s path = Return (Inr a)" "LoadConfig (se_viper E) path = Inr cfg"
    and "cc_Enabled (cf_Cluster cfg)" "\<not> ec_Enabled (cf_Execution cfg)" "ec_Concurrency (cf_Execution cfg) = 0"
    and "0 < se_numCPU E" "se_numCPU E < 2 ^ 31"
    and "loadProvider m" "0 < load" "rd 0 = 0" "rd (of_int (concurrency m)) \<noteq> 0"
    and "0 < rd (rd (of_int load) / rd (of_int (concurrency m)))" "rd (of_int (se_numCPU E)) \<noteq> 0"
  shows "\<exists>c. ap_cluster a = Some c \<and> ExecutionService \<notin> set (ap_services a) \<and>
    (\<forall>l now. SelectBestPeer rd m load [GetLocalState c l now] = Some (GetLocalState c l now))"
proof -
  from assms(1,2) obtain store jan cm joined cm' store' ex store'' creds where
    p: "start_cluster E cfg = Return (Inr (cm, joined))" "start_execution E cfg cm store = Return (Inr (cm', store', ex))"
      "ap_cluster a = cm'" "ap_services a = start_services (ec_Enabled (cf_Execution cfg)) (ex \<noteq> None)"
    by (rule startup_phases)
  have "cm' = cm" using p(2) assms(4) by (simp add: start_execution_def)
  moreover obtain c where c: "cm = Some c" using start_cluster_manager(1) [OF p(1)] assms(3) by auto
  note sc = start_cluster_manager(2) [OF p(1) c]
  have "sint (word_of_int (se_numCPU E) :: 32 word) = se_numCPU E"
    using assms(6,7) by (simp add: signed_of_int signed_take_bit_int_eq_self)
  then have "PendingTasks (GetLocalState c l now) = 0" "sint (MaxConcurrency (GetLocalState c l now)) = se_numCPU E" for l now
    using sc assms(5) by (simp_all add: GetLocalState_def Let_def)
  then have "SelectBestPeer rd m load [GetLocalState c l now] = Some (GetLocalState c l now)" for l now
    using assms(6,8-) by (simp add: SelectBestPeer_def has_capacity_def peer_ratio_def ratio_def Let_def)
  ultimately show ?thesis using c p(3,4) assms(4) by (auto simp: start_services_def)
qed

text \<open>The node of a cluster that only caches.\<close>

definition viper1 :: viper_lib where
  "viper1 = viper0\<lparr>setting := (\<lambda>v _ k. if k = ''cluster.enabled'' then Some (CBool True)
     else if k = ''execution.enabled'' then Some (CBool False) else map_of (vp_defaults v) k)\<rparr>"

definition cfg1 :: Config where
  "cfg1 = default_config\<lparr>cf_Cluster := (cf_Cluster default_config)\<lparr>cc_Enabled := True\<rparr>,
     cf_Execution := (cf_Execution default_config)\<lparr>ec_Enabled := False\<rparr>\<rparr>"

lemma cfg1_loaded: "LoadConfig viper1 [] = Inr cfg1"
  by (simp add: LoadConfig_def viper1_def viper0_def decode_Config_def decode_TLS_def decode_LocalCache_def decode_BackingCache_def
      decode_Telemetry_def decode_Execution_def decode_Sandbox_def decode_Cluster_def configured_def default_values
      default_config_def cfg1_def Let_def)

lemma startup1_ok:
  obtains a where "startup (env0\<lparr>se_viper := viper1\<rparr>) disk0 [] = Return (Inr a)"
    "cc_Enabled (cf_Cluster cfg1)" "\<not> ec_Enabled (cf_Execution cfg1)" "ec_Concurrency (cf_Execution cfg1) = 0"
proof -
  obtain t l where l: "NewLocalStore disk0 (Path True [''tmp'', ''gorego'', ''cache'']) False = (t, Inr l)" using new_cache0 by blast
  have p: "to_path ''/tmp/gorego/cache'' = Path True [''tmp'', ''gorego'', ''cache'']" by code_simp
  have "\<exists>a. startup (env0\<lparr>se_viper := viper1\<rparr>) disk0 [] = Return (Inr a)"
    by (simp add: startup_def env0_def cfg1_loaded or_exit_def checked_def l p start_store_def start_cluster_def start_execution_def
        start_tls_def loadServerTLS_def Start_def discoverPeers_def NewManager_def cfg1_def default_config_def Let_def)
  then show ?thesis using that by (auto simp: cfg1_def default_config_def Let_def)
qed

theorem disabled_node_attracts_witness:
  "\<exists>a c. startup (env0\<lparr>se_viper := viper1\<rparr>) disk0 [] = Return (Inr a) \<and> ap_cluster a = Some c \<and>
     ExecutionService \<notin> set (ap_services a) \<and>
     SelectBestPeer id manager0 1 [GetLocalState c 0 5] = Some (GetLocalState c 0 5)"
proof -
  obtain a where a: "startup (env0\<lparr>se_viper := viper1\<rparr>) disk0 [] = Return (Inr a)"
    "cc_Enabled (cf_Cluster cfg1)" "\<not> ec_Enabled (cf_Execution cfg1)" "ec_Concurrency (cf_Execution cfg1) = 0" by (rule startup1_ok)
  have "se_numCPU (env0\<lparr>se_viper := viper1\<rparr>) = 4" "se_viper (env0\<lparr>se_viper := viper1\<rparr>) = viper1" by (simp_all add: env0_def)
  with disabled_node_attracts [OF a(1) _ a(2-4), of manager0 1 id] a(1) cfg1_loaded show ?thesis by auto
qed

theorem startup_wf_witness:
  "\<exists>a m. startup (env0\<lparr>se_viper := viper1\<rparr>) disk0 [] = Return (Inr a) \<and> ap_sched a = None \<and> ap_cluster a = Some m \<and>
     \<not> loadProvider m \<and> ExecutionService \<notin> set (ap_services a) \<and> Capabilities False \<in> set (ap_services a)"
proof -
  obtain a where a: "startup (env0\<lparr>se_viper := viper1\<rparr>) disk0 [] = Return (Inr a)"
    "cc_Enabled (cf_Cluster cfg1)" "\<not> ec_Enabled (cf_Execution cfg1)" by (rule startup1_ok)
  have "LoadConfig (se_viper (env0\<lparr>se_viper := viper1\<rparr>)) [] = Inr cfg1" using cfg1_loaded by simp
  from startup_wf [OF a(1) this] a show ?thesis by auto
qed

text \<open>The worker pool and the cluster do not agree on a negative concurrency: the pool has a worker per CPU, and the cluster
  announces the negative number, with which the node never has capacity.\<close>

theorem negative_concurrency:
  assumes "startup E s path = Return (Inr a)" "LoadConfig (se_viper E) path = Inr cfg"
    and "cc_Enabled (cf_Cluster cfg)" "ec_Enabled (cf_Execution cfg)"
    and "ec_Concurrency (cf_Execution cfg) < 0" "- (2 ^ 31) \<le> ec_Concurrency (cf_Execution cfg)"
  shows "\<exists>c pool. ap_cluster a = Some c \<and> ap_pool a = Some pool \<and> wp_concurrency pool = se_numCPU E \<and>
    (\<forall>now l. 0 \<le> sint (word_of_int l :: 32 word) \<longrightarrow> \<not> has_capacity (GetLocalState c l now))"
proof -
  from assms(1,2) obtain store jan cm joined cm' store' ex store'' creds where
    p: "start_cluster E cfg = Return (Inr (cm, joined))" "start_execution E cfg cm store = Return (Inr (cm', store', ex))"
      "ap_cluster a = cm'" "ap_pool a = map_option snd ex"
    by (rule startup_phases)
  obtain c where c: "cm = Some c" using start_cluster_manager(1) [OF p(1)] assms(3) by auto
  note sc = start_cluster_manager(2) [OF p(1) c]
  obtain pool where x: "cm' = map_option SetLoadProvider cm" "map_option snd ex = Some pool" "wp_concurrency pool = se_numCPU E"
    by (rule start_execution_store [OF p(2)]) (use assms(4,5) in auto)
  have "sint (word_of_int (ec_Concurrency (cf_Execution cfg)) :: 32 word) = ec_Concurrency (cf_Execution cfg)"
    using assms(5,6) by (simp add: signed_of_int signed_take_bit_int_eq_self)
  then have "sint (MaxConcurrency (GetLocalState (SetLoadProvider c) l now)) < 0" for l now
    using sc assms(5) by (simp add: GetLocalState_def SetLoadProvider_def Let_def)
  then have "\<not> has_capacity (GetLocalState (SetLoadProvider c) l now)" if "0 \<le> sint (word_of_int l :: 32 word)" for l now
    using that by (simp add: has_capacity_def GetLocalState_def SetLoadProvider_def Let_def not_less order.trans [OF less_imp_le])
  with c x p(3,4) show ?thesis by auto
qed

end
