(* ===== verification/Spec2Isabelle.thy ===== *)
theory Spec2Isabelle
  imports Prelude Scheduler OS LocalStore LocalStore_Props PutFile_Props Janitor Cluster Cluster_Props
    ResourceName ByteStream RemoteStore Servers Execution Proxy Sandbox Persistent Staging
    Staging_Props Worker Upload_Props Upload_Stores Worker_Props Config Startup
begin

text \<open>
  goREgo, a server for remote execution and caching of build actions: a verification library.

  \<^bold>\<open>The program.\<close> Clients talk to gRPC services (\<^verbatim>\<open>pkg/server\<close>). The storage services read and write blobs and action
  results in a store, which is a local disk cache (\<^verbatim>\<open>pkg/storage/local.go\<close>) in front of a remote or null tier
  (\<^verbatim>\<open>remote.go\<close>, \<^verbatim>\<open>null.go\<close>), joined by the proxy store (\<^verbatim>\<open>pkg/proxy\<close>); the janitor (\<^verbatim>\<open>pkg/janitor\<close>) keeps the disk
  cache to its size. The execution service answers from the action cache, forwards to a less loaded peer chosen by the
  cluster manager (\<^verbatim>\<open>pkg/cluster\<close>), or enqueues a task in the scheduler (\<^verbatim>\<open>pkg/scheduler\<close>) and streams its operation.
  Workers (\<^verbatim>\<open>pkg/execution/worker.go\<close>) take tasks, stage the inputs from the store, run the command, perhaps in a
  sandbox (\<^verbatim>\<open>pkg/sandbox\<close>), and upload the outputs. \<^verbatim>\<open>pkg/execution/persistent.go\<close> keeps persistent worker processes.
  \<^verbatim>\<open>cmd/gorego/main.go\<close> puts the parts together from the configuration (\<^verbatim>\<open>pkg/config\<close>).

  \<^bold>\<open>Conventions.\<close> A struct is a record, with a prefix on a field whose name is taken; an error is a value of \<^typ>\<open>goerr\<close>, a
  result with an error a sum with the error on the left; a panic is \<open>Panic\<close> of \<open>outcome\<close>. Objects that the code
  shares through pointers live in a heap of addresses (operations of the scheduler, inodes of the disk, worker processes).
  A critical section is one step. Integers that can wrap are words (sizes of the janitor, counters in gossip messages,
  frame lengths); \<open>int\<close> of Go is unbounded elsewhere. Code outside the repository is a parameter: protobuf (\<open>pbcodec\<close>, \<open>arcodec\<close>,
  \<open>nscodec\<close>, \<open>wcodec\<close>, \<open>wpcodec\<close>), zstd, the client of the SDK (\<open>rclient\<close>), the resolver, viper (\<open>viper_lib\<close>), the TLS
  library (\<open>tls_lib\<close>), and what a started process does.

  \<^bold>\<open>Theories.\<close>
  \<^item> \<open>Prelude\<close>: errors, outcomes, messages, and the locale \<open>machine\<close> for invariants of runs.
  \<^item> \<open>Scheduler\<close>: \<^verbatim>\<open>scheduler.go\<close>, one definition per method. No run panics; the invariant; the queue is first in
    first out; the executing counter is exact up to deleted operations; completion is reported and reaches
    subscribers; names parse back; a cancelled task still runs.
  \<^item> \<open>OS\<close>: paths, inodes, hard links and the system calls, each of which may fail as an oracle says.
  \<^item> \<open>LocalStore\<close>, \<open>LocalStore_Props\<close>, \<open>PutFile_Props\<close>: \<^verbatim>\<open>local.go\<close> and \<^verbatim>\<open>null.go\<close>. Writes are atomic whatever call fails,
    succeed on a disk without faults, and are read back. The locales \<open>blob_reader\<close> and \<open>blob_store\<close> are the interface
    \<open>BlobStore\<close>, interpreted on the local store and, for reading, on the null store and the proxy store.
  \<^item> \<open>Janitor\<close>: \<open>Cleanup\<close> over the interface \<open>fileSystem\<close> (locale \<open>janitor_fs\<close>, interpreted on the modelled disk), and the
    debounced loop. Least recently used files go first, no more than needed; a notification leads to a cleanup.
  \<^item> \<open>Cluster\<close>, \<open>Cluster_Props\<close>: \<^verbatim>\<open>cluster.go\<close>. The chosen peer is a least loaded one in every order of the peer map;
    the advertised load is that of the scheduler (locale \<open>load_provider\<close>).
  \<^item> \<open>ResourceName\<close>, \<open>ByteStream\<close>: \<^verbatim>\<open>bytestream.go\<close>. The regular expressions accept exactly the documented names; \<open>Read\<close>
    sends the requested range; when \<open>Write\<close> blocks.
  \<^item> \<open>RemoteStore\<close>: \<^verbatim>\<open>remote.go\<close> as a client of that service; the round trip through both.
  \<^item> \<open>Servers\<close>: \<^verbatim>\<open>server.go\<close>, \<^verbatim>\<open>actioncache.go\<close>, \<^verbatim>\<open>operations.go\<close>. Uploaded blobs are not missing.
  \<^item> \<open>Execution\<close>: \<^verbatim>\<open>execution.go\<close>. A request is forwarded once at most; a completed operation ends its stream; an operation
    made by forwarding is lost to \<open>WaitExecution\<close>.
  \<^item> \<open>Proxy\<close>: \<^verbatim>\<open>proxy.go\<close>. Two tiers read as one store; a successful \<open>Put\<close> of a new blob is in both.
  \<^item> \<open>Sandbox\<close>, \<open>Persistent\<close>: the command line parses back to its specification; no process is lost or left running; requests
    get their own responses unless one was cancelled; frames are read back.
  \<^item> \<open>Staging\<close>, \<open>Staging_Props\<close>, \<open>Worker\<close>, \<open>Upload_Props\<close>, \<open>Upload_Stores\<close>, \<open>Worker_Props\<close>: \<^verbatim>\<open>worker.go\<close>. The locales \<open>linkable_store\<close> and
    \<open>upload_store\<close> are what the worker needs of a store, interpreted on the local store and the proxy store. Staged files
    hold their blobs; uploaded outputs are stored under their hashes; only successes are cached; every task completes
    its operation.
  \<^item> \<open>Config\<close>, \<open>Startup\<close>: \<^verbatim>\<open>config.go\<close>, \<^verbatim>\<open>main.go\<close> and \<open>NewRemoteStore\<close>. What a configuration starts, the defaults, and the TLS
    of the server.
  \<^item> This theory: \<open>execute_end_to_end\<close> composes the execution service, the scheduler and a worker, from a request to the
    completed operation in the stream of its client.

  \<^bold>\<open>Bounds.\<close> \<open>stageDirectory\<close> and \<open>buildDirectoryProto\<close> with the functions that call them take a bound on the depth of the
  recursion and return \<open>None\<close> when it is too small. \<open>staging_returns\<close> shows that every bound above the rank of the
  root in a store without a directory that contains itself gives the same result, and \<open>outputs_stored\<close> that every bound above the
  depth of the tree on disk returns. All other loops are structural over the data they consume: the bytes of a reader, the
  messages of a stream, the entries of a directory, the retries left.

  \<^bold>\<open>Idealisations.\<close> A reader is its remaining bytes and the error at its end, and \<open>Get\<close> is read at once. Calls that join another in
  flight take its result as an argument, and the order of a range over a map is one too. Rounding of \<open>float64\<close>
  is an argument in the cluster and the sandbox. Concurrency is interleaving of whole critical sections.

  \<^bold>\<open>Not modelled.\<close> \<^verbatim>\<open>pkg/telemetry\<close>, tracing, metrics and profiling only call libraries, and logging is left out except
  where a log call dereferences a message that may be nil and for the adapter of the member list. The inside of
  memberlist, of gRPC and of the processes that run is not in the repository. The loops of \<open>executeLocally\<close>, \<open>WaitExecution\<close> and
  \<open>forwardWaitExecution\<close> repeat those of \<open>Execute\<close> and \<open>forwardExecute\<close> and share their definitions \<open>stream_step\<close> and
  \<open>proxy_stream\<close>.
\<close>

section \<open>From a request to its answer\<close>

lemma push_head: "buf ch = obj # rest \<Longrightarrow> \<exists>rest'. buf (push x ch) = obj # rest'"
  by (simp add: push_def)

text \<open>What \<open>executeTask\<close> leaves for a handler that streams the operation.\<close>

lemma executeTask_streamed:
  assumes inv: "sched_inv (wp_scheduler w)" and l: "lookup_op (wp_scheduler w) name = Some (obj, opr)" "State opr = StateQueued"
    and ch: "updates \<in> set (subscribers (wp_scheduler w) name)" "chans (wp_scheduler w) updates = Some ch" "buf ch = obj # rest"
    and n: "name = op_name (OperationID task)"
    and ex: "execute n K W en (wp_sandbox w) (now 1) (wp_buildRoot w) (wp_store w) task = Some (Return (s, r))"
  shows "\<exists>w' ch' rest'. executeTask n K W en now w task = Some (Return w') \<and> wp_store w' = s \<and> sched_inv (wp_scheduler w') \<and>
    updates \<in> set (subscribers (wp_scheduler w') name) \<and> chans (wp_scheduler w') updates = Some ch' \<and> buf ch' = obj # rest' \<and>
    GetPendingTaskCount (wp_scheduler w') = GetPendingTaskCount (wp_scheduler w) \<and>
    lookup_op (wp_scheduler w') name = Some (obj, opr\<lparr>State := StateCompleted,
      Metadata := Some \<lparr>Stage = COMPLETED, ActionDigest = task_ActionDigest task\<rparr>, UpdatedAt := now 2,
      Error := (case r of Inl err \<Rightarrow> Some err | Inr _ \<Rightarrow> Error opr),
      Result := (case r of Inl _ \<Rightarrow> Result opr | Inr result \<Rightarrow> Some \<lparr>resp_Result = result, resp_CachedResult = False\<rparr>)\<rparr>)"
proof -
  let ?s = "wp_scheduler w" and ?md = "Some \<lparr>Stage = EXECUTING, ActionDigest = task_ActionDigest task\<rparr>"
  let ?o1 = "opr\<lparr>State := StateExecuting, Metadata := ?md, UpdatedAt := now 0\<rparr>"
  define s1 where "s1 = write_notify ?s (executingCount ?s + 1) name obj ?o1"
  have u: "UpdateState (now 0) ?s name StateExecuting ?md = Some s1" using l by (simp add: UpdateState_inv [OF inv] s1_def)
  have inv1: "sched_inv s1" unfolding s1_def by (rule sched_inv_write [OF inv l(1)]) simp_all
  have l1: "lookup_op s1 name = Some (obj, ?o1)" using l(1) by (simp add: s1_def)
  have sub1: "subscribers s1 = subscribers ?s" "taskQueue s1 = taskQueue ?s" "executingCount s1 = executingCount ?s + 1"
    by (simp_all add: s1_def write_notify_def)
  have c1: "chans s1 updates = Some (push obj ch)" using ch by (simp add: s1_def chans_write)
  define o2 where "o2 = opr\<lparr>State := StateCompleted,
      Metadata := Some \<lparr>Stage = COMPLETED, ActionDigest = task_ActionDigest task\<rparr>, UpdatedAt := now 2,
      Error := (case r of Inl err \<Rightarrow> Some err | Inr _ \<Rightarrow> Error opr),
      Result := (case r of Inl _ \<Rightarrow> Result opr | Inr result \<Rightarrow> Some \<lparr>resp_Result = result, resp_CachedResult = False\<rparr>)\<rparr>"
  define s2 where "s2 = write_notify s1 (executingCount ?s) name obj o2"
  have f: "(case r of Inl err \<Rightarrow> Fail (now 2) s1 name err
      | Inr result \<Rightarrow> Complete (now 2) s1 name \<lparr>resp_Result = result, resp_CachedResult = False\<rparr>) = Some s2"
    using l1 sub1(3) by (cases r; cases opr) (simp_all add: Fail_inv [OF inv1] Complete_inv [OF inv1] s2_def o2_def set_completed_stage_def)
  have "executeTask n K W en now w task = Some (Return (w\<lparr>wp_scheduler := s2, wp_store := s\<rparr>))"
    using u [unfolded n] f [unfolded n] ex by (simp add: executeTask_def Let_def)
  moreover have "sched_inv s2" unfolding s2_def by (rule sched_inv_write [OF inv1 l1]) (simp_all add: o2_def)
  moreover have "subscribers s2 = subscribers ?s" "GetPendingTaskCount s2 = GetPendingTaskCount ?s"
    using sub1 by (simp_all add: s2_def write_notify_def GetPendingTaskCount_def)
  moreover have "chans s2 updates = Some (push obj (push obj ch))" using c1 ch(1) sub1(1) by (simp add: s2_def chans_write)
  moreover obtain rest' where "buf (push obj (push obj ch)) = obj # rest'" using push_head push_head [OF ch(3)] by blast
  moreover have "lookup_op s2 name = Some (obj, o2)" using l1 by (simp add: s2_def)
  ultimately show ?thesis using ch(1) unfolding o2_def by auto
qed

definition runs_here :: "exec_env \<Rightarrow> 'c ExecutionServer \<Rightarrow> bool" where
  "runs_here e S \<longleftrightarrow> forwardedFrom e \<noteq> None \<or>
     (case es_cluster S of None \<Rightarrow> True | Some m \<Rightarrow> SelectBestPeer (ev_rd e) m (GetPendingTaskCount (es_sched S)) (ev_order e) = None)"

lemma dispatch_here: "runs_here e S \<Longrightarrow> dispatch P e S d skip = executeLocally P e S d skip"
  by (auto simp: runs_here_def dispatch_def Let_def split: option.splits)

text \<open>\<open>Execute\<close> of an action that is not cached, on the node it stays on: the handler streams a queued operation whose task is the
  only one of the queue.\<close>

lemma Execute_queues:
  fixes S :: "'c ExecutionServer"
  assumes inv: "sched_inv (es_sched S)" and q: "taskQueue (es_sched S) = []" "0 < queueSize (es_sched S)"
    and req: "er_ActionDigest req = Some d" "lookup_cached getAR fp (es_ac S) d (SkipCacheLookup req) = Return (c, None)"
    and here: "runs_here e S" "ev_sendErr e = None"
    and codec: "any_metadata P (Some \<lparr>Stage = QUEUED, ActionDigest = d\<rparr>) = Inr m"
    and t: "task = \<lparr>OperationID = op_id (es_sched S) (ev_uuid e) (case forwardedFrom e of None \<Rightarrow> [] | Some v \<Rightarrow> v),
      task_ActionDigest = d, SkipCache = SkipCacheLookup req, QueuedAt = ev_now e\<rparr>"
    and fresh: "operations (es_sched S) (op_name (OperationID task)) = None"
  obtains S' ch obj opr where "Execute P getAR fp e S req =
      Return (S', [\<lparr>pb_Name = op_name (OperationID task), pb_Metadata = m, pb_Done = False, pb_Result = None\<rparr>],
        Streaming (op_name (OperationID task)) ch)"
    "sched_inv (es_sched S')" "lookup_op (es_sched S') (op_name (OperationID task)) = Some (obj, opr)" "State opr = StateQueued"
    "Error opr = None" "Result opr = None" "Name opr = op_name (OperationID task)"
    "ch \<in> set (subscribers (es_sched S') (op_name (OperationID task)))" "chans (es_sched S') ch = Some \<lparr>buf = [obj], closed = False\<rparr>"
    "taskQueue (es_sched S') = [task]" "executingCount (es_sched S') = executingCount (es_sched S)"
proof -
  let ?node = "case forwardedFrom e of None \<Rightarrow> [] | Some v \<Rightarrow> v" and ?name = "op_name (OperationID task)"
  obtain s0 p where e0: "Enqueue P (ev_uuid e) (ev_now e) (es_sched S) d (SkipCacheLookup req) ?node = (s0, p)" by fastforce
  have room: "length (taskQueue (es_sched S)) < queueSize (es_sched S)" using q by simp
  note enq = Enqueue_ok [OF room codec, of "ev_uuid e" "ev_now e" "SkipCacheLookup req" ?node, unfolded e0 fst_conv snd_conv]
  have inv0: "sched_inv s0"
    using Enqueue_inv(1) [OF inv, of "ev_uuid e" ?node P "ev_now e" d "SkipCacheLookup req"] fresh e0 t by simp
  have ex0: "executingCount s0 = executingCount (es_sched S)" using e0 by (auto simp: Enqueue_def Let_def split: if_splits)
  obtain s1 ch where sub: "Subscribe s0 ?name = (s1, ch)" by fastforce
  obtain obj opr where l0: "lookup_op s0 ?name = Some (obj, opr)" "State opr = StateQueued" "Error opr = None" "Result opr = None" "Name opr = ?name"
    using enq(2) t by simp
  have s1: "sched_inv s1" "lookup_op s1 ?name = Some (obj, opr)" "ch \<in> set (subscribers s1 ?name)"
    "chans s1 ch = Some \<lparr>buf = [obj], closed = False\<rparr>" "taskQueue s1 = [task]" "executingCount s1 = executingCount (es_sched S)"
    using Subscribe_inv(1) [OF inv0, of ?name] sub l0(1) enq(3) q(1) t ex0 by (auto simp: Subscribe_def Let_def lookup_op_heap)
  have "runs_here e (S\<lparr>es_ac := c\<rparr>)" using here(1) by (cases "es_cluster S") (simp_all add: runs_here_def)
  note dp = dispatch_here [OF this, of P d "SkipCacheLookup req"]
  let ?S = "S\<lparr>es_ac := c, es_sched := s1\<rparr>"
  have "Execute P getAR fp e S req =
      Return (?S, [\<lparr>pb_Name = ?name, pb_Metadata = m, pb_Done = False, pb_Result = None\<rparr>], Streaming ?name ch)"
    using req here(2) e0 enq(1) sub t by (simp add: Execute_def dp executeLocally_def Let_def)
  then show ?thesis by (rule that) (use s1 l0 in simp_all)
qed




end
